(* ===== verification/Prelude.thy ===== *)
theory Prelude
  imports Main Complex_Main "HOL-Library.Word" "HOL-Library.Char_ord" "HOL-Library.List_Lexorder"
    "HOL-Library.Signed_Division" "HOL-Library.Sublist"
begin

text \<open>
  Shared vocabulary of the development: the Go types the sources use (machine integers, times,
  durations, byte strings, maps), the parts of the Go standard library the sources call
  (packages \<open>strings\<close>, \<open>strconv\<close>, \<open>fmt\<close>, \<open>time\<close>), and the generic lemmas on lists and
  association lists that the component theories share.

  Conventions.
  \<^item> A Go \<open>string\<close> or \<open>[]byte\<close> is a \<open>string\<close>: a list of \<open>char\<close>, one byte each.
  \<^item> \<open>int64\<close> and \<open>uint64\<close> counters are \<open>64 word\<close>: addition wraps, \<open>sint\<close> reads the signed
    value, and the conversions \<open>int64(x)\<close>, \<open>uint64(x)\<close> are the identity on the bits.
  \<^item> A \<open>time.Time\<close> is an \<open>int\<close>, nanoseconds since the Unix epoch; a \<open>time.Duration\<close> is an \<open>int\<close>
    number of nanoseconds. Where the sources multiply or convert such values at 64 bits,
    \<open>wrap64\<close> is written out.
  \<^item> A Go map is an association list with distinct keys; the order of the list is the order in
    which \<open>range\<close> visits it, which Go leaves open, so a theorem about such a list holds for every
    order.
\<close>

unbundle bit_operations_syntax

type_synonym int64 = "64 word"
type_synonym uint64 = "64 word"
type_synonym gotime = int
type_synonym duration = int
type_synonym strmap = "(string \<times> string) list"

named_theorems ref_eval \<open>equations that evaluate the reference implementations and the initial states built on them\<close>

section \<open>Integers, times and durations\<close>

text \<open>Two's complement wrap-around of a mathematical integer at 64 bits.\<close>

definition wrap64 :: "int \<Rightarrow> int" where
  "wrap64 x = (x + 2 ^ 63) mod 2 ^ 64 - 2 ^ 63"

lemma wrap64_id: "- (2 ^ 63) \<le> x \<Longrightarrow> x < 2 ^ 63 \<Longrightarrow> wrap64 x = x"
  by (simp add: wrap64_def)

lemma wrap64_range: "- (2 ^ 63) \<le> wrap64 x \<and> wrap64 x < 2 ^ 63"
  by (simp add: wrap64_def)

definition Nanosecond :: duration where "Nanosecond = 1"
definition Millisecond :: duration where "Millisecond = 1000000"
definition Second :: duration where "Second = 1000000000"
definition Minute :: duration where "Minute = 60000000000"

lemmas duration_defs = Nanosecond_def Millisecond_def Second_def Minute_def

section \<open>Package strings\<close>

text \<open>
  \<open>ToLower\<close>, \<open>TrimSpace\<close> and \<open>EqualFold\<close> act on the ASCII range, which is where the sources'
  keywords and header names live; bytes of multi-byte UTF-8 sequences are left alone.
\<close>

definition lower_char :: "char \<Rightarrow> char" where
  "lower_char c = (if CHR ''A'' \<le> c \<and> c \<le> CHR ''Z'' then char_of (of_char c + (32 :: nat)) else c)"

definition ToLower :: "string \<Rightarrow> string" where
  "ToLower s = map lower_char s"

definition EqualFold :: "string \<Rightarrow> string \<Rightarrow> bool" where
  "EqualFold s t \<longleftrightarrow> ToLower s = ToLower t"

definition is_space :: "char \<Rightarrow> bool" where
  "is_space c \<longleftrightarrow> c \<in> set [CHR 0x20, CHR 0x09, CHR 0x0A, CHR 0x0B, CHR 0x0C, CHR 0x0D]"

definition TrimSpace :: "string \<Rightarrow> string" where
  "TrimSpace s = rev (dropWhile is_space (rev (dropWhile is_space s)))"

definition HasPrefix :: "string \<Rightarrow> string \<Rightarrow> bool" where
  "HasPrefix s p \<longleftrightarrow> take (length p) s = p"

definition HasSuffix :: "string \<Rightarrow> string \<Rightarrow> bool" where
  "HasSuffix s p \<longleftrightarrow> HasPrefix (rev s) (rev p)"

definition TrimPrefix :: "string \<Rightarrow> string \<Rightarrow> string" where
  "TrimPrefix s p = (if HasPrefix s p then drop (length p) s else s)"

definition TrimSuffix :: "string \<Rightarrow> string \<Rightarrow> string" where
  "TrimSuffix s p = (if HasSuffix s p then take (length s - length p) s else s)"

text \<open>\<open>strings.Index\<close>: the first offset of \<open>p\<close> in \<open>s\<close>, \<open>None\<close> for \<open>-1\<close>.\<close>

fun Index :: "string \<Rightarrow> string \<Rightarrow> nat option" where
  "Index [] p = (if p = [] then Some 0 else None)"
| "Index (c # s) p = (if HasPrefix (c # s) p then Some 0 else map_option Suc (Index s p))"

definition Contains :: "string \<Rightarrow> string \<Rightarrow> bool" where
  "Contains s p \<longleftrightarrow> Index s p \<noteq> None"

text \<open>\<open>strings.Split(s, sep)\<close> and \<open>strings.SplitN(s, sep, 2)\<close> for a one-byte separator.\<close>

fun Split :: "char \<Rightarrow> string \<Rightarrow> string list" where
  "Split d [] = [[]]"
| "Split d (c # s) =
     (if c = d then [] # Split d s
      else (case Split d s of [] \<Rightarrow> [[c]] | w # ws \<Rightarrow> (c # w) # ws))"

fun SplitN2 :: "char \<Rightarrow> string \<Rightarrow> string list" where
  "SplitN2 d s =
     (case dropWhile (\<lambda>c. c \<noteq> d) s of
        [] \<Rightarrow> [s]
      | _ # rest \<Rightarrow> [takeWhile (\<lambda>c. c \<noteq> d) s, rest])"

text \<open>\<open>strings.LastIndex\<close> of a one-byte separator, as the pair around its last occurrence.\<close>

definition split_last :: "char \<Rightarrow> string \<Rightarrow> (string \<times> string) option" where
  "split_last d s =
     (case dropWhile (\<lambda>c. c \<noteq> d) (rev s) of
        [] \<Rightarrow> None
      | _ # r \<Rightarrow> Some (rev r, rev (takeWhile (\<lambda>c. c \<noteq> d) (rev s))))"

lemma HasPrefix_iff_prefix: "HasPrefix s p \<longleftrightarrow> prefix p s"
  by (metis HasPrefix_def append_eq_conv_conj append_take_drop_id prefix_def)

lemma HasPrefix_append [simp]: "HasPrefix (p @ s) p"
  by (simp add: HasPrefix_def)

lemma TrimPrefix_append [simp]: "TrimPrefix (p @ s) p = s"
  by (simp add: TrimPrefix_def)

lemma Split_not_Nil [simp]: "Split d s \<noteq> []"
  by (cases s) (auto split: list.splits)

lemma length_Split_pos: "0 < length (Split d s)"
  by simp

lemma Split_no_sep: "d \<notin> set s \<Longrightarrow> Split d s = [s]"
  by (induction s) auto

lemma Split_append_sep: "d \<notin> set w \<Longrightarrow> Split d (w @ d # s) = w # Split d s"
  by (induction w) auto

lemma SplitN2_sep: "d \<notin> set w \<Longrightarrow> SplitN2 d (w @ d # s) = [w, s]"
  by (simp add: dropWhile_append takeWhile_append)

lemma lower_char_idem [simp]: "lower_char (lower_char c) = lower_char c"
proof (cases "CHR ''A'' \<le> c \<and> c \<le> CHR ''Z''")
  case False
  then have "lower_char c = c" by (auto simp: lower_char_def)
  then show ?thesis by simp
next
  case True
  then have b: "65 \<le> (of_char c :: nat)" "(of_char c :: nat) \<le> 90"
    by (simp_all add: less_eq_char_def)
  then have m: "((of_char c :: nat) + 32) mod 256 = of_char c + 32" by simp
  have "\<not> (char_of ((of_char c :: nat) + 32) \<le> CHR ''Z'')"
    using b m by (simp add: less_eq_char_def)
  with True show ?thesis by (simp add: lower_char_def)
qed

lemma ToLower_idem [simp]: "ToLower (ToLower s) = ToLower s"
  by (simp add: ToLower_def)

lemma length_ToLower [simp]: "length (ToLower s) = length s"
  by (simp add: ToLower_def)

section \<open>Decimal and hexadecimal text (packages fmt and strconv)\<close>

definition hexdigit :: "nat \<Rightarrow> char" where
  "hexdigit d = ''0123456789abcdef'' ! (d mod 16)"

text \<open>\<open>fmt.Sprintf\<close> with a zero-padded hexadecimal verb of width \<open>k\<close>, for values below \<open>16 ^ k\<close>.\<close>

fun hexpad :: "nat \<Rightarrow> nat \<Rightarrow> string" where
  "hexpad 0 n = []"
| "hexpad (Suc k) n = hexpad k (n div 16) @ [hexdigit n]"

text \<open>The value of one digit in \<open>strconv.ParseUint(s, 16, 64)\<close>; both letter cases are accepted.\<close>

definition hexval :: "char \<Rightarrow> nat option" where
  "hexval c =
     (if CHR ''0'' \<le> c \<and> c \<le> CHR ''9'' then Some (of_char c - 48)
      else if CHR ''a'' \<le> lower_char c \<and> lower_char c \<le> CHR ''f'' then Some (of_char (lower_char c) - 87)
      else None)"

datatype numError = ErrSyntax | ErrRange

fun parse_hex_loop :: "nat \<Rightarrow> string \<Rightarrow> numError + nat" where
  "parse_hex_loop n [] = Inr n"
| "parse_hex_loop n (c # s) =
     (case hexval c of
        None \<Rightarrow> Inl ErrSyntax
      | Some d \<Rightarrow> if 2 ^ 64 \<le> n * 16 + d then Inl ErrRange else parse_hex_loop (n * 16 + d) s)"

definition ParseUint16_64 :: "string \<Rightarrow> numError + uint64" where
  "ParseUint16_64 s =
     (if s = [] then Inl ErrSyntax else map_sum id of_nat (parse_hex_loop 0 s))"

lemma length_hexpad [simp]: "length (hexpad k n) = k"
  by (induction k n rule: hexpad.induct) auto

lemma hexval_hexdigit [simp]: "hexval (hexdigit n) = Some (n mod 16)"
proof -
  have "n mod 16 \<in> set [0..<16]" by simp
  then show ?thesis
    by (simp add: upt_conv_Cons hexdigit_def hexval_def lower_char_def less_eq_char_def)
       (elim disjE; simp)
qed

lemma hexpad_value_less: "(n :: nat) < 16 ^ Suc k \<Longrightarrow> n div 16 < 16 ^ k"
  by (simp add: less_mult_imp_div_less mult.commute)

lemma parse_hex_loop_append:
  "parse_hex_loop m s = Inr v \<Longrightarrow> parse_hex_loop m (s @ t) = parse_hex_loop v t"
  by (induction m s rule: parse_hex_loop.induct) (auto split: option.splits if_splits)

lemma parse_hex_loop_hexpad:
  "n < 16 ^ k \<Longrightarrow> k \<le> 16 \<Longrightarrow> parse_hex_loop 0 (hexpad k n) = Inr n"
proof (induction k n rule: hexpad.induct)
  case (1 n)
  then show ?case by simp
next
  case (2 k n)
  have "(16 :: nat) ^ Suc k \<le> 16 ^ 16" using "2.prems"(2) by (intro power_increasing) auto
  with "2.prems"(1) have "n < 2 ^ 64" by simp
  moreover have "parse_hex_loop 0 (hexpad k (n div 16)) = Inr (n div 16)"
    using "2.IH" "2.prems" hexpad_value_less by simp
  ultimately show ?case
    by (simp add: parse_hex_loop_append)
qed

text \<open>Decimal printing of a natural number (the verb \<open>d\<close>).\<close>

fun dec :: "nat \<Rightarrow> string" where
  "dec n = (if n < 10 then [char_of (48 + n)] else dec (n div 10) @ [char_of (48 + n mod 10)])"

declare dec.simps [simp del]

definition dec_int :: "int \<Rightarrow> string" where
  "dec_int i = (if i < 0 then ''-'' @ dec (nat (- i)) else dec (nat i))"

section \<open>Association lists as Go maps\<close>

text \<open>Assignment \<open>m[k] = v\<close>: overwrite in place, or add a new key.\<close>

fun mput :: "'k \<Rightarrow> 'v \<Rightarrow> ('k \<times> 'v) list \<Rightarrow> ('k \<times> 'v) list" where
  "mput k v [] = [(k, v)]"
| "mput k v ((k', v') # m) = (if k' = k then (k, v) # m else (k', v') # mput k v m)"

text \<open>\<open>delete(m, k)\<close>.\<close>

definition mdel :: "'k \<Rightarrow> ('k \<times> 'v) list \<Rightarrow> ('k \<times> 'v) list" where
  "mdel k m = filter (\<lambda>e. fst e \<noteq> k) m"

abbreviation mget :: "('k \<times> 'v) list \<Rightarrow> 'k \<Rightarrow> 'v option" where
  "mget \<equiv> map_of"

abbreviation mkeys :: "('k \<times> 'v) list \<Rightarrow> 'k list" where
  "mkeys m \<equiv> map fst m"

text \<open>Reading a missing key of a \<open>map[string]string\<close> gives the empty string.\<close>

definition mstr :: "strmap \<Rightarrow> string \<Rightarrow> string" where
  "mstr m k = (case map_of m k of None \<Rightarrow> '''' | Some v \<Rightarrow> v)"

text \<open>\<open>m[k] += v\<close> on a \<open>map[uint64]uint64\<close>; a missing key counts as zero.\<close>

definition madd :: "'k \<Rightarrow> 64 word \<Rightarrow> ('k \<times> 64 word) list \<Rightarrow> ('k \<times> 64 word) list" where
  "madd k v m = mput k ((case map_of m k of None \<Rightarrow> 0 | Some w \<Rightarrow> w) + v) m"

definition mval :: "('k \<times> 64 word) list \<Rightarrow> 'k \<Rightarrow> 64 word" where
  "mval m k = (case map_of m k of None \<Rightarrow> 0 | Some w \<Rightarrow> w)"

lemma map_of_mput [simp]: "map_of (mput k v m) = (map_of m)(k \<mapsto> v)"
  by (induction k v m rule: mput.induct) auto

lemma set_mkeys_mput [simp]: "set (mkeys (mput k v m)) = insert k (set (mkeys m))"
  by (induction k v m rule: mput.induct) auto

lemma fst_set_mput [simp]: "fst ` set (mput k v m) = insert k (fst ` set m)"
  using set_mkeys_mput [of k v m] by simp

lemma distinct_mput [simp]: "distinct (mkeys m) \<Longrightarrow> distinct (mkeys (mput k v m))"
  by (induction k v m rule: mput.induct) auto

lemma map_of_filter_key:
  "map_of (filter (\<lambda>e. P (fst e)) m) k = (if P k then map_of m k else None)"
  by (induction m) auto

lemma map_of_mdel [simp]: "map_of (mdel k m) = (map_of m)(k := None)"
  by (induction m) (auto simp: mdel_def)

lemma distinct_mdel [simp]: "distinct (mkeys m) \<Longrightarrow> distinct (mkeys (mdel k m))"
  by (induction m) (auto simp: mdel_def)

lemma mval_madd [simp]: "mval (madd k v m) j = (if j = k then mval m k + v else mval m j)"
  by (simp add: madd_def mval_def)

lemma distinct_madd [simp]: "distinct (mkeys m) \<Longrightarrow> distinct (mkeys (madd k v m))"
  by (simp add: madd_def)

lemma map_of_perm:
  assumes "distinct (mkeys m)" and "distinct (mkeys m')" and "set m = set m'"
  shows "map_of m = map_of m'"
  using assms by (metis map_of_inject_set)

end
