(* ===== verification/Base64.thy ===== *)
theory Base64
  imports Prelude
begin

text \<open>
  The encoders of the Go standard library the sources use for tokens and keys: padded base64 with the
  standard and the URL alphabet, lower-case hexadecimal, and decimal integers as \<open>fmt\<close> prints and scans
  them. Each reader gives back what its writer wrote.
\<close>

section \<open>Base64\<close>

definition std_alphabet :: string where
  "std_alphabet = ''ABCDEFGHIJKLMNOPQRSTUVWXYZabcdefghijklmnopqrstuvwxyz0123456789+/''"

definition url_alphabet :: string where
  "url_alphabet = ''ABCDEFGHIJKLMNOPQRSTUVWXYZabcdefghijklmnopqrstuvwxyz0123456789-_''"

definition b64_val :: "string \<Rightarrow> char \<Rightarrow> nat option" where
  "b64_val alpha c = map_of (zip alpha [0..<64]) c"

fun b64_encode :: "string \<Rightarrow> string \<Rightarrow> string" where
  "b64_encode alpha [] = []"
| "b64_encode alpha [a] =
     (let a = of_char a in [alpha ! (a div 4), alpha ! (a mod 4 * 16), CHR ''='', CHR ''=''])"
| "b64_encode alpha [a, b] =
     (let a = of_char a; b = of_char b
      in [alpha ! (a div 4), alpha ! (a mod 4 * 16 + b div 16), alpha ! (b mod 16 * 4), CHR ''=''])"
| "b64_encode alpha (a # b # c # s) =
     (let a = of_char a; b = of_char b; c = of_char c
      in [alpha ! (a div 4), alpha ! (a mod 4 * 16 + b div 16), alpha ! (b mod 16 * 4 + c div 64), alpha ! (c mod 64)])
     @ b64_encode alpha s"

text \<open>Decoding skips line breaks; padding may only end the text.\<close>

fun b64_quads :: "string \<Rightarrow> string \<Rightarrow> string option" where
  "b64_quads alpha [] = Some []"
| "b64_quads alpha (w # x # y # z # s) =
     (case (b64_val alpha w, b64_val alpha x) of
        (Some w', Some x') \<Rightarrow>
          if s = [] \<and> y = CHR ''='' \<and> z = CHR ''='' then Some [char_of (w' * 4 + x' div 16)]
          else (case b64_val alpha y of
                  None \<Rightarrow> None
                | Some y' \<Rightarrow>
                    if s = [] \<and> z = CHR ''='' then Some [char_of (w' * 4 + x' div 16), char_of (x' mod 16 * 16 + y' div 4)]
                    else (case b64_val alpha z of
                            None \<Rightarrow> None
                          | Some z' \<Rightarrow>
                              map_option (\<lambda>t. [char_of (w' * 4 + x' div 16), char_of (x' mod 16 * 16 + y' div 4),
                                               char_of (y' mod 4 * 64 + z')] @ t) (b64_quads alpha s)))
      | _ \<Rightarrow> None)"
| "b64_quads alpha _ = None"

definition b64_decode :: "string \<Rightarrow> string \<Rightarrow> string option" where
  "b64_decode alpha s = b64_quads alpha (filter (\<lambda>c. c \<noteq> CHR 0x0A \<and> c \<noteq> CHR 0x0D) s)"

definition b64_alphabet :: "string \<Rightarrow> bool" where
  "b64_alphabet alpha \<longleftrightarrow> length alpha = 64 \<and> distinct alpha \<and>
     CHR ''='' \<notin> set alpha \<and> CHR 0x0A \<notin> set alpha \<and> CHR 0x0D \<notin> set alpha \<and> CHR ''.'' \<notin> set alpha"

lemma alphabets [simp]: "b64_alphabet std_alphabet" "b64_alphabet url_alphabet"
  by (simp_all add: b64_alphabet_def std_alphabet_def url_alphabet_def)

lemma b64_val_nth [simp]: "b64_alphabet alpha \<Longrightarrow> n < 64 \<Longrightarrow> b64_val alpha (alpha ! n) = Some n"
  by (auto simp: b64_alphabet_def b64_val_def map_of_zip_nth)

lemma b64_val_pad [simp]: "b64_alphabet alpha \<Longrightarrow> b64_val alpha (CHR ''='') = None"
  by (auto simp: b64_alphabet_def b64_val_def map_of_eq_None_iff dest: set_zip_leftD)

lemma b64_nth_pad: "b64_alphabet alpha \<Longrightarrow> n < 64 \<Longrightarrow> alpha ! n \<noteq> CHR 0x3D"
  by (metis b64_alphabet_def nth_mem)

lemma b64_range:
  fixes a b c :: nat
  assumes "a < 256" and "b < 256" and "c < 256"
  shows "a div 4 < 64" and "a mod 4 * 16 + b div 16 < 64" and "b mod 16 * 4 + c div 64 < 64" and "c mod 64 < 64"
proof -
  have "b div 16 < 16" "a mod 4 < 4" "c div 64 < 4" "b mod 16 < 16" using assms by simp_all
  then show "a mod 4 * 16 + b div 16 < 64" "b mod 16 * 4 + c div 64 < 64" by linarith+
qed (use assms in simp_all)

lemma b64_join:
  fixes a b c :: nat
  assumes "b < 256" and "c < 256"
  shows "a div 4 * 4 + (a mod 4 * 16 + b div 16) div 16 = a"
    and "(a mod 4 * 16 + b div 16) mod 16 * 16 + (b mod 16 * 4 + c div 64) div 4 = b"
    and "(b mod 16 * 4 + c div 64) mod 4 * 64 + c mod 64 = c"
proof -
  have b: "b div 16 < 16" and c: "c div 64 < 4" using assms by simp_all
  have "(a mod 4 * 16 + b div 16) div 16 = a mod 4" "(a mod 4 * 16 + b div 16) mod 16 = b div 16"
    using b by (simp_all add: div_mult_self3 mod_mult_self3)
  moreover have "(b mod 16 * 4 + c div 64) div 4 = b mod 16" "(b mod 16 * 4 + c div 64) mod 4 = c div 64"
    using c by (simp_all add: div_mult_self3 mod_mult_self3)
  ultimately show "a div 4 * 4 + (a mod 4 * 16 + b div 16) div 16 = a"
    "(a mod 4 * 16 + b div 16) mod 16 * 16 + (b mod 16 * 4 + c div 64) div 4 = b"
    "(b mod 16 * 4 + c div 64) mod 4 * 64 + c mod 64 = c" by (simp_all only: div_mult_mod_eq)
qed

lemma of_char_256: "(of_char c :: nat) < 256"
  by simp

lemma quads_encode: "b64_alphabet alpha \<Longrightarrow> b64_quads alpha (b64_encode alpha s) = Some s"
proof (induction alpha s rule: b64_encode.induct)
  case (2 alpha a)
  then show ?case using b64_range [OF of_char_256 [of a], of 0 0] b64_join(1) [of 0 0 "of_char a"] by (simp add: Let_def)
next
  case (3 alpha a b)
  then show ?case
    using b64_range [OF of_char_256 [of a] of_char_256 [of b], of 0] b64_join(1,2) [OF of_char_256 [of b], of 0 "of_char a"] b64_nth_pad by (simp add: Let_def)
next
  case (4 alpha a b c s)
  from 4 show ?case using b64_range [OF of_char_256 [of a] of_char_256 [of b] of_char_256 [of c]] b64_nth_pad
      b64_join(1,2) [OF of_char_256 [of b] of_char_256 [of c], of "of_char a"] b64_join(3) [OF of_char_256 [of b] of_char_256 [of c]]
    by (simp add: Let_def)
qed simp

lemma set_encode: "b64_alphabet alpha \<Longrightarrow> set (b64_encode alpha s) \<subseteq> insert (CHR ''='') (set alpha)"
proof (induction alpha s rule: b64_encode.induct)
  case (2 alpha a)
  then show ?case using b64_range [OF of_char_256 [of a], of 0 0] by (auto simp: Let_def b64_alphabet_def)
next
  case (3 alpha a b)
  then show ?case using b64_range [OF of_char_256 [of a] of_char_256 [of b], of 0] by (auto simp: Let_def b64_alphabet_def)
next
  case (4 alpha a b c s)
  then show ?case using b64_range [OF of_char_256 [of a] of_char_256 [of b] of_char_256 [of c]] by (auto simp: Let_def b64_alphabet_def)
qed simp

lemma b64_roundtrip [simp]: "b64_alphabet alpha \<Longrightarrow> b64_decode alpha (b64_encode alpha s) = Some s"
proof -
  assume a: "b64_alphabet alpha"
  then have "CHR 0x0A \<notin> set (b64_encode alpha s)" "CHR 0x0D \<notin> set (b64_encode alpha s)"
    using set_encode [OF a, of s] by (auto simp: b64_alphabet_def)
  then have "filter (\<lambda>c. c \<noteq> CHR 0x0A \<and> c \<noteq> CHR 0x0D) (b64_encode alpha s) = b64_encode alpha s"
    by (auto simp: filter_id_conv)
  with quads_encode [OF a] show ?thesis by (simp add: b64_decode_def)
qed

lemma b64_no_dot: "b64_alphabet alpha \<Longrightarrow> CHR ''.'' \<notin> set (b64_encode alpha s)"
  using set_encode [of alpha s] by (auto simp: b64_alphabet_def)

section \<open>Hexadecimal and decimal text\<close>

definition hexEncode :: "string \<Rightarrow> string" where
  "hexEncode bs = concat (map (\<lambda>c. hexpad 2 (of_char c)) bs)"

lemma hexdigit_range: "hexdigit n \<in> set ''0123456789abcdef''"
proof -
  have "n mod 16 < length ''0123456789abcdef''" by simp
  then show ?thesis unfolding hexdigit_def by (rule nth_mem)
qed

lemma set_hexEncode: "set (hexEncode bs) \<subseteq> set ''0123456789abcdef''"
proof
  fix x assume "x \<in> set (hexEncode bs)"
  then obtain n where "x = hexdigit n" by (auto simp: hexEncode_def numeral_2_eq_2)
  then show "x \<in> set ''0123456789abcdef''" by (simp only: hexdigit_range)
qed

lemma hexEncode_no_colon: "CHR '':'' \<notin> set (hexEncode bs)"
  using set_hexEncode [of bs] by auto

text \<open>
  \<open>fmt.Sscanf(s, "%d", &n)\<close> for an \<open>int64\<close>: skip blanks, read an optional sign and the digits up to the
  first other byte; no digit or a value out of range is an error. What follows is not read.
\<close>

definition digit :: "char \<Rightarrow> bool" where
  "digit c \<longleftrightarrow> CHR ''0'' \<le> c \<and> c \<le> CHR ''9''"

definition digitsVal :: "string \<Rightarrow> nat" where
  "digitsVal ds = foldl (\<lambda>n c. n * 10 + (of_char c - 48)) 0 ds"

definition scanInt64 :: "string \<Rightarrow> int option" where
  "scanInt64 s =
     (let t = dropWhile (\<lambda>c. is_space c \<and> c \<noteq> CHR 0x0A) s;
          (neg, u) = (case t of c # r \<Rightarrow> if c = CHR ''-'' then (True, r) else if c = CHR ''+'' then (False, r) else (False, t) | [] \<Rightarrow> (False, t));
          ds = takeWhile digit u;
          n = (if neg then - int (digitsVal ds) else int (digitsVal ds))
      in if ds = [] \<or> n < - (2 ^ 63) \<or> 2 ^ 63 \<le> n then None else Some n)"

lemma digit_char: "d < 10 \<Longrightarrow> digit (char_of (48 + d)) \<and> of_char (char_of (48 + d) :: char) = (48 + d :: nat)"
  by (simp add: digit_def less_eq_char_def)

lemma dec_digits: "dec n \<noteq> [] \<and> list_all digit (dec n) \<and> digitsVal (dec n) = n"
proof (induction n rule: dec.induct)
  case (1 n)
  show ?case
  proof (cases "n < 10")
    case True
    then show ?thesis using digit_char [of n] by (subst (1 2 3) dec.simps) (simp add: digitsVal_def)
  next
    case False
    with 1 digit_char [of "n mod 10"] show ?thesis
      by (subst (1 2 3) dec.simps) (simp add: digitsVal_def)
  qed
qed

lemma digit_no_blank: "digit c \<Longrightarrow> \<not> is_space c \<and> c \<noteq> CHR ''-'' \<and> c \<noteq> CHR ''+'' \<and> c \<noteq> CHR '':''"
  by (auto simp: digit_def is_space_def less_eq_char_def)

lemma scanInt64_dec:
  assumes "0 \<le> i" and "i < 2 ^ 63"
  shows "scanInt64 (dec_int i) = Some i"
proof -
  define t where "t = dec (nat i)"
  have d: "t \<noteq> []" "list_all digit t" "digitsVal t = nat i" using dec_digits [of "nat i"] by (simp_all add: t_def)
  have tw: "takeWhile digit t = t" using d(2) by (simp add: takeWhile_eq_all_conv list_all_iff)
  obtain c r where c: "t = c # r" using d(1) by (cases t) auto
  have nb: "\<not> is_space c" "c \<noteq> CHR 0x2D" "c \<noteq> CHR 0x2B" using d(2) digit_no_blank [of c] by (simp_all add: c)
  have "(case t of c # r \<Rightarrow> if c = CHR 0x2D then (True, r) else if c = CHR 0x2B then (False, r) else (False, t) | [] \<Rightarrow> (False, t)) = (False, t)"
    "dropWhile (\<lambda>c. is_space c \<and> c \<noteq> CHR 0x0A) t = t" using nb by (simp_all add: c)
  then have "scanInt64 t = (if t = [] \<or> int (digitsVal t) < - (2 ^ 63) \<or> 2 ^ 63 \<le> int (digitsVal t) then None else Some (int (digitsVal t)))"
    by (simp only: scanInt64_def Let_def prod.case tw if_False)
  moreover have "dec_int i = t" using assms(1) by (simp add: dec_int_def t_def)
  ultimately show ?thesis using d assms by simp
qed

lemma dec_int_no_colon: "0 \<le> i \<Longrightarrow> CHR '':'' \<notin> set (dec_int i)"
  using dec_digits [of "nat i"] digit_no_blank by (auto simp: dec_int_def list_all_iff)

text \<open>The last colon of a payload is the one before its final field.\<close>

lemma split_last_append: "d \<notin> set y \<Longrightarrow> split_last d (x @ d # y) = Some (x, y)"
  by (auto simp: split_last_def dropWhile_append takeWhile_append)

end
