(* ===== verification/Auth.thy ===== *)
theory Auth
  imports Base64
begin

text \<open>
  Package \<open>internal/api\<close>: HTTP Digest authentication (\<open>digestauth.go\<close>), the browser's tokens and sessions
  (\<open>ui_auth.go\<close>), and the two middlewares of \<open>api.go\<close> that use them. The cryptographic primitives are
  parameters: \<open>sha\<close> (the hexadecimal SHA-256 of a string), \<open>hmac\<close> (the bytes of HMAC-SHA256 under a key), the
  key agreement and the authenticated encryption; random bytes are arguments.
\<close>

section \<open>Digest authentication\<close>

definition MinAPIKeyLength :: nat where "MinAPIKeyLength = 16"
definition digestRealm :: string where "digestRealm = ''DRL Internal API''"
definition digestUsername :: string where "digestUsername = ''admin''"
definition nonceValidityDuration :: duration where "nonceValidityDuration = 5 * Minute"

record digestAuthenticator =
  da_hashedCredentials :: string
  da_nonceStore :: "(string \<times> gotime) list"

definition NewDigestAuthenticator :: "(string \<Rightarrow> string) \<Rightarrow> string \<Rightarrow> digestAuthenticator option" where
  "NewDigestAuthenticator sha apiKey =
     (if length apiKey < MinAPIKeyLength then None
      else Some \<lparr>da_hashedCredentials = sha (digestUsername @ '':'' @ digestRealm @ '':'' @ apiKey), da_nonceStore = []\<rparr>)"

definition cleanupExpiredNonces :: "gotime \<Rightarrow> digestAuthenticator \<Rightarrow> digestAuthenticator" where
  "cleanupExpiredNonces now a =
     a\<lparr>da_nonceStore := filter (\<lambda>(nonce, createdAt). \<not> now - createdAt > nonceValidityDuration) (da_nonceStore a)\<rparr>"

text \<open>\<open>generateNonce\<close>: \<open>nonce\<close> is the hexadecimal form of the random bytes.\<close>

definition generateNonce :: "gotime \<Rightarrow> string \<Rightarrow> digestAuthenticator \<Rightarrow> digestAuthenticator" where
  "generateNonce now nonce a = cleanupExpiredNonces now (a\<lparr>da_nonceStore := mput nonce now (da_nonceStore a)\<rparr>)"

definition validateNonce :: "gotime \<Rightarrow> string \<Rightarrow> digestAuthenticator \<Rightarrow> bool" where
  "validateNonce now nonce a =
     (case map_of (da_nonceStore a) nonce of None \<Rightarrow> False | Some createdAt \<Rightarrow> now - createdAt \<le> nonceValidityDuration)"

text \<open>\<open>parseDigestAuth\<close>: split at commas, trim blanks, cut each part at its first equals sign, drop one quote on each side.\<close>

definition trimBlanks :: "string \<Rightarrow> string" where
  "trimBlanks s = rev (dropWhile (\<lambda>c. c = CHR '' '') (rev (dropWhile (\<lambda>c. c = CHR '' '') s)))"

definition partition_eq :: "string \<Rightarrow> string \<times> string" where
  "partition_eq part = (takeWhile (\<lambda>c. c \<noteq> CHR ''='') part, drop 1 (dropWhile (\<lambda>c. c \<noteq> CHR ''='') part))"

definition unquote :: "string \<Rightarrow> string" where
  "unquote v = TrimPrefix (TrimSuffix v [CHR 0x22]) [CHR 0x22]"

definition parseDigestAuth :: "string \<Rightarrow> strmap" where
  "parseDigestAuth auth =
     fold (\<lambda>part m. case partition_eq (trimBlanks part) of (key, value) \<Rightarrow> mput key (unquote value) m)
       (Split (CHR '','') (TrimPrefix auth ''Digest '')) []"

text \<open>
  What a middleware does with a request: pass it on, answer 401 with a challenge, marked stale or not
  (every challenge stores a fresh nonce), or answer 401 to an invalid session.
\<close>

datatype verdict = Next | Challenge bool | InvalidSession

definition sendChallengeWithStale :: "gotime \<Rightarrow> string \<Rightarrow> bool \<Rightarrow> digestAuthenticator \<Rightarrow> verdict \<times> digestAuthenticator" where
  "sendChallengeWithStale now nonce stale a = (Challenge stale, generateNonce now nonce a)"

definition expectedResponse :: "(string \<Rightarrow> string) \<Rightarrow> string \<Rightarrow> strmap \<Rightarrow> string \<Rightarrow> string option" where
  "expectedResponse sha cred params meth =
     (let a2Hash = sha (meth @ '':'' @ mstr params ''uri'')
      in if mstr params ''qop'' = ''auth''
         then let nc = mstr params ''nc''; cnonce = mstr params ''cnonce''
              in if nc = '''' \<or> cnonce = '''' then None
                 else Some (sha (cred @ '':'' @ mstr params ''nonce'' @ '':'' @ nc @ '':'' @ cnonce @ '':'' @ mstr params ''qop'' @ '':'' @ a2Hash))
         else Some (sha (cred @ '':'' @ mstr params ''nonce'' @ '':'' @ a2Hash)))"

definition Middleware ::
  "(string \<Rightarrow> string) \<Rightarrow> gotime \<Rightarrow> string \<Rightarrow> string \<Rightarrow> string \<Rightarrow> digestAuthenticator \<Rightarrow> verdict \<times> digestAuthenticator" where
  "Middleware sha now fresh auth meth a =
     (let challenge = sendChallengeWithStale now fresh False a
      in if auth = '''' then challenge
         else if \<not> HasPrefix auth ''Digest '' then challenge
         else let params = parseDigestAuth auth
              in if mstr params ''username'' = '''' \<or> mstr params ''realm'' = '''' \<or> mstr params ''nonce'' = '''' \<or>
                    mstr params ''uri'' = '''' \<or> mstr params ''response'' = '''' then challenge
                 else if mstr params ''username'' \<noteq> digestUsername then challenge
                 else if mstr params ''realm'' \<noteq> digestRealm then challenge
                 else if mstr params ''algorithm'' \<noteq> '''' \<and> mstr params ''algorithm'' \<noteq> ''SHA-256'' then challenge
                 else if \<not> validateNonce now (mstr params ''nonce'') a then sendChallengeWithStale now fresh True a
                 else case expectedResponse sha (da_hashedCredentials a) params meth of
                        None \<Rightarrow> challenge
                      | Some expected \<Rightarrow>
                          if mstr params ''response'' \<noteq> expected then challenge
                          else (Next, a\<lparr>da_nonceStore := mdel (mstr params ''nonce'') (da_nonceStore a)\<rparr>))"

section \<open>Browser tokens and sessions\<close>

definition bootstrapTokenTTL :: duration where "bootstrapTokenTTL = 10 * Minute"
definition sessionTokenTTL :: duration where "sessionTokenTTL = 60 * Minute"

record sessionInfo =
  si_expiresAt :: gotime
  si_sharedKey :: string

record 'p uiAuthManager =
  ua_serverPrivKey :: 'p
  ua_bootstrapSigningKey :: string
  ua_sessions :: "(string \<times> sessionInfo) list"

definition deriveUISigningKey :: "(string \<Rightarrow> string \<Rightarrow> string) \<Rightarrow> string \<Rightarrow> string" where
  "deriveUISigningKey hmac apiKey = hmac apiKey ''drl-ui-bootstrap-signer-v1''"

text \<open>\<open>generateKey\<close> is the outcome of generating the server's key pair.\<close>

definition newUIAuthManager :: "(string \<Rightarrow> string \<Rightarrow> string) \<Rightarrow> 'p option \<Rightarrow> string \<Rightarrow> 'p uiAuthManager option" where
  "newUIAuthManager hmac generateKey apiKey =
     map_option (\<lambda>k. \<lparr>ua_serverPrivKey = k, ua_bootstrapSigningKey = deriveUISigningKey hmac apiKey, ua_sessions = []\<rparr>) generateKey"

text \<open>\<open>time.Time.Unix\<close>: whole seconds, rounded down.\<close>

definition Unix :: "gotime \<Rightarrow> int" where
  "Unix t = t div Second"

definition GenerateBootstrapToken :: "(string \<Rightarrow> string \<Rightarrow> string) \<Rightarrow> gotime \<Rightarrow> string \<Rightarrow> 'p uiAuthManager \<Rightarrow> string" where
  "GenerateBootstrapToken hmac now nonce m =
     (let payload = hexEncode nonce @ '':'' @ dec_int (Unix (now + bootstrapTokenTTL));
          sig = hexEncode (hmac (ua_bootstrapSigningKey m) payload)
      in b64_encode url_alphabet payload @ ''.'' @ sig)"

text \<open>
  The checks both validators share: two parts, a decodable payload, the signature over the payload with
  a prefix, and an expiry after its last colon that lies in the future.
\<close>

definition validateSigned :: "(string \<Rightarrow> string \<Rightarrow> string) \<Rightarrow> string \<Rightarrow> gotime \<Rightarrow> string \<Rightarrow> string \<Rightarrow> bool" where
  "validateSigned hmac key now pre token =
     (case SplitN2 (CHR ''.'') token of
        [p0, p1] \<Rightarrow>
          (case b64_decode url_alphabet p0 of
             None \<Rightarrow> False
           | Some payload \<Rightarrow>
               if p1 \<noteq> hexEncode (hmac key (pre @ payload)) then False
               else case split_last (CHR '':'') payload of
                      None \<Rightarrow> False
                    | Some (_, r) \<Rightarrow> (case scanInt64 r of None \<Rightarrow> False | Some expiry \<Rightarrow> Unix now < expiry))
      | _ \<Rightarrow> False)"

definition ValidateBootstrapToken :: "(string \<Rightarrow> string \<Rightarrow> string) \<Rightarrow> gotime \<Rightarrow> string \<Rightarrow> 'p uiAuthManager \<Rightarrow> bool" where
  "ValidateBootstrapToken hmac now token m = validateSigned hmac (ua_bootstrapSigningKey m) now '''' token"

definition ValidateSession :: "(string \<Rightarrow> string \<Rightarrow> string) \<Rightarrow> gotime \<Rightarrow> string \<Rightarrow> 'p uiAuthManager \<Rightarrow> bool" where
  "ValidateSession hmac now token m = validateSigned hmac (ua_bootstrapSigningKey m) now ''session-v1:'' token"

text \<open>\<open>parsePoint\<close> and \<open>ecdh\<close> stand for \<open>crypto/ecdh\<close>.\<close>

datatype keyError = EDecodeKey | EParseKey | EAgreement

definition DeriveSharedKey :: "(string \<Rightarrow> 'q option) \<Rightarrow> ('p \<Rightarrow> 'q \<Rightarrow> string option) \<Rightarrow> string \<Rightarrow> 'p uiAuthManager \<Rightarrow> keyError + string" where
  "DeriveSharedKey parsePoint ecdh clientPubKeyB64 m =
     (case b64_decode std_alphabet clientPubKeyB64 of
        None \<Rightarrow> Inl EDecodeKey
      | Some bytes \<Rightarrow>
          (case parsePoint bytes of
             None \<Rightarrow> Inl EParseKey
           | Some q \<Rightarrow> (case ecdh (ua_serverPrivKey m) q of None \<Rightarrow> Inl EAgreement | Some secret \<Rightarrow> Inr secret)))"

definition cleanExpiredSessions :: "gotime \<Rightarrow> 'p uiAuthManager \<Rightarrow> 'p uiAuthManager" where
  "cleanExpiredSessions now m = m\<lparr>ua_sessions := filter (\<lambda>(_, info). \<not> si_expiresAt info < now) (ua_sessions m)\<rparr>"

definition sessionPayload :: "string \<Rightarrow> gotime \<Rightarrow> string" where
  "sessionPayload idBytes expiresAt = hexEncode idBytes @ '':'' @ dec_int (Unix expiresAt)"

definition CreateSession ::
  "(string \<Rightarrow> string \<Rightarrow> string) \<Rightarrow> gotime \<Rightarrow> string option \<Rightarrow> string \<Rightarrow> 'p uiAuthManager \<Rightarrow> (string \<times> 'p uiAuthManager) option" where
  "CreateSession hmac now idBytes sharedKey m =
     (case idBytes of
        None \<Rightarrow> None
      | Some ib \<Rightarrow>
          let sessionID = hexEncode ib;
              expiresAt = now + sessionTokenTTL;
              m' = cleanExpiredSessions now
                     (m\<lparr>ua_sessions := mput sessionID \<lparr>si_expiresAt = expiresAt, si_sharedKey = sharedKey\<rparr> (ua_sessions m)\<rparr>);
              payload = sessionPayload ib expiresAt;
              sig = hexEncode (hmac (ua_bootstrapSigningKey m) (''session-v1:'' @ payload))
          in Some (b64_encode url_alphabet payload @ ''.'' @ sig, m'))"

definition GetSessionSharedKey :: "(string \<Rightarrow> string \<Rightarrow> string) \<Rightarrow> gotime \<Rightarrow> string \<Rightarrow> 'p uiAuthManager \<Rightarrow> string option" where
  "GetSessionSharedKey hmac now token m =
     (if \<not> ValidateSession hmac now token m then None
      else case SplitN2 (CHR ''.'') token of
             [p0, _] \<Rightarrow>
               (case b64_decode url_alphabet p0 of
                  None \<Rightarrow> None
                | Some payload \<Rightarrow>
                    (case split_last (CHR '':'') payload of
                       None \<Rightarrow> None
                     | Some (sessionID, _) \<Rightarrow>
                         (case map_of (ua_sessions m) sessionID of
                            None \<Rightarrow> None
                          | Some info \<Rightarrow> if si_expiresAt info < now then None else Some (si_sharedKey info))))
           | _ \<Rightarrow> None)"

definition ActiveSessions :: "gotime \<Rightarrow> 'p uiAuthManager \<Rightarrow> nat" where
  "ActiveSessions now m = length (filter (\<lambda>(_, info). now < si_expiresAt info) (ua_sessions m))"

text \<open>
  \<open>encryptWithSharedKey\<close>: \<open>seal key nonce plaintext\<close> is AES-GCM, \<open>None\<close> when the key is refused; \<open>nonce\<close> is \<open>None\<close>
  when no random bytes are available.
\<close>

definition encryptWithSharedKey ::
  "(string \<Rightarrow> string \<Rightarrow> string \<Rightarrow> string option) \<Rightarrow> string option \<Rightarrow> string \<Rightarrow> string \<Rightarrow> (string \<times> string) option" where
  "encryptWithSharedKey seal nonce key plaintext =
     (case nonce of
        None \<Rightarrow> None
      | Some n \<Rightarrow> map_option (\<lambda>c. (b64_encode std_alphabet n, b64_encode std_alphabet c)) (seal key n plaintext))"

section \<open>Key exchange and the middlewares of the API server\<close>

text \<open>
  \<open>handleUIExchange\<close>: \<open>body\<close> is the parsed request (\<open>None\<close> when it does not parse), \<open>rnd1\<close> and \<open>rnd2\<close> are the
  random bytes of the session and of the encryption. The result is the status with, on success, the
  nonce and the ciphertext of the session token.
\<close>

record keyExchangeRequest =
  ke_ClientPublicKey :: string
  ke_BootstrapToken :: string

definition handleUIExchange ::
  "(string \<Rightarrow> string \<Rightarrow> string) \<Rightarrow> (string \<Rightarrow> 'q option) \<Rightarrow> ('p \<Rightarrow> 'q \<Rightarrow> string option) \<Rightarrow>
   (string \<Rightarrow> string \<Rightarrow> string \<Rightarrow> string option) \<Rightarrow> gotime \<Rightarrow> string option \<Rightarrow> string option \<Rightarrow> keyExchangeRequest option \<Rightarrow>
   'p uiAuthManager \<Rightarrow> (int \<times> (string \<times> string) option) \<times> 'p uiAuthManager" where
  "handleUIExchange hmac parsePoint ecdh seal now rnd1 rnd2 body m =
     (case body of
        None \<Rightarrow> ((400, None), m)
      | Some req \<Rightarrow>
          if ke_ClientPublicKey req = '''' \<or> ke_BootstrapToken req = '''' then ((400, None), m)
          else if \<not> ValidateBootstrapToken hmac now (ke_BootstrapToken req) m then ((401, None), m)
          else case DeriveSharedKey parsePoint ecdh (ke_ClientPublicKey req) m of
                 Inl _ \<Rightarrow> ((400, None), m)
               | Inr sharedKey \<Rightarrow>
                   (case CreateSession hmac now rnd1 sharedKey m of
                      None \<Rightarrow> ((500, None), m)
                    | Some (sessionToken, m') \<Rightarrow>
                        (case encryptWithSharedKey seal rnd2 sharedKey sessionToken of
                           None \<Rightarrow> ((500, None), m')
                         | Some (iv, encrypted) \<Rightarrow> ((200, Some (iv, encrypted)), m'))))"

definition sessionTokenOf :: "string \<Rightarrow> string" where
  "sessionTokenOf auth =
     (if HasPrefix auth ''DRL-Session '' then TrimPrefix auth ''DRL-Session ''
      else if HasPrefix auth ''Bearer '' then TrimPrefix auth ''Bearer ''
      else '''')"

definition dualAuthMiddleware ::
  "(string \<Rightarrow> string) \<Rightarrow> (string \<Rightarrow> string \<Rightarrow> string) \<Rightarrow> gotime \<Rightarrow> string \<Rightarrow> string \<Rightarrow> string \<Rightarrow> 'p uiAuthManager \<Rightarrow>
   digestAuthenticator \<Rightarrow> verdict \<times> digestAuthenticator" where
  "dualAuthMiddleware sha hmac now fresh auth meth m a =
     (let sessionToken = sessionTokenOf auth
      in if sessionToken \<noteq> ''''
         then (if ValidateSession hmac now sessionToken m then (Next, a) else (InvalidSession, a))
         else Middleware sha now fresh auth meth a)"

text \<open>
  \<open>encryptedResponseMiddleware\<close>, after the handler: \<open>(status, body)\<close> is its response. The wrapper object is
  marshalled with its keys in order.
\<close>

definition encryptedResponseMiddleware ::
  "(string \<Rightarrow> string \<Rightarrow> string) \<Rightarrow> (string \<Rightarrow> string \<Rightarrow> string \<Rightarrow> string option) \<Rightarrow> gotime \<Rightarrow> string option \<Rightarrow> string \<Rightarrow>
   'p uiAuthManager \<Rightarrow> int \<times> string \<Rightarrow> int \<times> string" where
  "encryptedResponseMiddleware hmac seal now nonce auth m resp =
     (case resp of (status, body) \<Rightarrow>
        if \<not> HasPrefix auth ''DRL-Session '' \<and> \<not> HasPrefix auth ''Bearer '' then resp
        else if status < 200 \<or> 300 \<le> status then resp
        else case GetSessionSharedKey hmac now (sessionTokenOf auth) m of
               None \<Rightarrow> resp
             | Some sharedKey \<Rightarrow>
                 if body = '''' then resp
                 else case encryptWithSharedKey seal nonce sharedKey body of
                        None \<Rightarrow> resp
                      | Some (iv, ciphertext) \<Rightarrow>
                          (status, ''{'' @ [CHR 0x22] @ ''data'' @ [CHR 0x22, CHR '':'', CHR 0x22] @ ciphertext @ [CHR 0x22, CHR '','', CHR 0x22] @
                             ''iv'' @ [CHR 0x22, CHR '':'', CHR 0x22] @ iv @ [CHR 0x22] @ ''}''))"

section \<open>Tokens\<close>

lemma validateSigned_token:
  assumes "0 \<le> e" and "e < 2 ^ 63"
  shows "validateSigned hmac key now pre (b64_encode url_alphabet (x @ '':'' @ dec_int e) @ ''.'' @ sig) \<longleftrightarrow>
           sig = hexEncode (hmac key (pre @ x @ '':'' @ dec_int e)) \<and> Unix now < e"
proof -
  have "SplitN2 (CHR ''.'') (b64_encode url_alphabet (x @ '':'' @ dec_int e) @ ''.'' @ sig) = [b64_encode url_alphabet (x @ '':'' @ dec_int e), sig]"
    using SplitN2_sep [OF b64_no_dot [OF alphabets(2)]] by simp
  moreover have "split_last (CHR '':'') (x @ '':'' @ dec_int e) = Some (x, dec_int e)"
    using split_last_append [OF dec_int_no_colon [OF assms(1)]] by simp
  ultimately show ?thesis using scanInt64_dec [OF assms] by (simp add: validateSigned_def)
qed

text \<open>A session token as \<open>CreateSession\<close> builds it, and its two halves.\<close>

definition sessionToken :: "(string \<Rightarrow> string \<Rightarrow> string) \<Rightarrow> string \<Rightarrow> string \<Rightarrow> gotime \<Rightarrow> string" where
  "sessionToken hmac key ib expiresAt =
     b64_encode url_alphabet (sessionPayload ib expiresAt) @ ''.'' @ hexEncode (hmac key (''session-v1:'' @ sessionPayload ib expiresAt))"

lemma CreateSession_token:
  "CreateSession hmac now (Some ib) k m =
     Some (sessionToken hmac (ua_bootstrapSigningKey m) ib (now + sessionTokenTTL),
           cleanExpiredSessions now (m\<lparr>ua_sessions := mput (hexEncode ib) \<lparr>si_expiresAt = now + sessionTokenTTL, si_sharedKey = k\<rparr> (ua_sessions m)\<rparr>))"
  by (simp add: CreateSession_def Let_def sessionToken_def)

lemma ValidateSession_token:
  assumes "0 \<le> Unix e" and "Unix e < 2 ^ 63"
  shows "ValidateSession hmac now (sessionToken hmac (ua_bootstrapSigningKey m) ib e) m \<longleftrightarrow> Unix now < Unix e"
  using validateSigned_token [OF assms] by (simp add: ValidateSession_def sessionToken_def sessionPayload_def)

lemma Unix_less: "Unix t < Unix u \<Longrightarrow> t < u"
  using zdiv_mono1 [of u t Second] by (simp add: Unix_def Second_def Millisecond_def not_less [symmetric])

lemma GetSessionSharedKey_token:
  assumes "0 \<le> Unix e" and "Unix e < 2 ^ 63"
  shows "GetSessionSharedKey hmac now (sessionToken hmac (ua_bootstrapSigningKey m) ib e) m =
           (if Unix now < Unix e
            then (case map_of (ua_sessions m) (hexEncode ib) of
                    None \<Rightarrow> None | Some info \<Rightarrow> if si_expiresAt info < now then None else Some (si_sharedKey info))
            else None)"
proof -
  have "SplitN2 (CHR ''.'') (sessionToken hmac (ua_bootstrapSigningKey m) ib e) =
          [b64_encode url_alphabet (sessionPayload ib e), hexEncode (hmac (ua_bootstrapSigningKey m) (''session-v1:'' @ sessionPayload ib e))]"
    using SplitN2_sep [OF b64_no_dot [OF alphabets(2)]] by (simp add: sessionToken_def)
  moreover have "split_last (CHR '':'') (sessionPayload ib e) = Some (hexEncode ib, dec_int (Unix e))"
    using split_last_append [OF dec_int_no_colon [OF assms(1)]] by (simp add: sessionPayload_def)
  ultimately show ?thesis using ValidateSession_token [OF assms, of hmac now m ib] by (simp add: GetSessionSharedKey_def del: SplitN2.simps)
qed

text \<open>The sessions a node creates later, each with its time, identifier and key.\<close>

fun createAll :: "(string \<Rightarrow> string \<Rightarrow> string) \<Rightarrow> (gotime \<times> string \<times> string) list \<Rightarrow> 'p uiAuthManager \<Rightarrow> 'p uiAuthManager" where
  "createAll hmac [] m = m"
| "createAll hmac ((now, ib, k) # cs) m =
     createAll hmac cs (case CreateSession hmac now (Some ib) k m of None \<Rightarrow> m | Some (_, m') \<Rightarrow> m')"

lemma createAll_key: "ua_bootstrapSigningKey (createAll hmac cs m) = ua_bootstrapSigningKey m"
  by (induction hmac cs m rule: createAll.induct) (simp_all add: CreateSession_token cleanExpiredSessions_def)

lemma map_of_filter_kept: "map_of xs k = Some v \<Longrightarrow> P (k, v) \<Longrightarrow> map_of (filter P xs) k = Some v"
  by (induction xs) (auto split: if_splits)

lemma createAll_keeps:
  assumes "map_of (ua_sessions m) sid = Some info"
    and "list_all (\<lambda>(t, ib, k). t \<le> si_expiresAt info \<and> hexEncode ib \<noteq> sid) cs"
  shows "map_of (ua_sessions (createAll hmac cs m)) sid = Some info"
  using assms
proof (induction hmac cs m rule: createAll.induct)
  case (2 hmac now ib k cs m)
  from "2.prems" have "map_of (ua_sessions (cleanExpiredSessions now (m\<lparr>ua_sessions :=
      mput (hexEncode ib) \<lparr>si_expiresAt = now + sessionTokenTTL, si_sharedKey = k\<rparr> (ua_sessions m)\<rparr>))) sid = Some info"
    by (auto simp: cleanExpiredSessions_def intro!: map_of_filter_kept)
  with 2 show ?case by (simp add: CreateSession_token)
qed simp

lemma hexpad2_inj: "a < 256 \<Longrightarrow> b < 256 \<Longrightarrow> hexpad 2 a = hexpad 2 b \<Longrightarrow> a = b"
proof -
  assume "a < 256" "b < 256" and e: "hexpad 2 a = hexpad 2 b"
  from \<open>a < 256\<close> have "parse_hex_loop 0 (hexpad 2 a) = Inr a" by (intro parse_hex_loop_hexpad) simp_all
  moreover from \<open>b < 256\<close> have "parse_hex_loop 0 (hexpad 2 b) = Inr b" by (intro parse_hex_loop_hexpad) simp_all
  ultimately show "a = b" by (metis e sum.inject(2))
qed

lemma hexEncode_inj: "hexEncode xs = hexEncode ys \<Longrightarrow> xs = ys"
proof (induction xs arbitrary: ys)
  case Nil
  then show ?case by (cases ys) (auto simp: hexEncode_def numeral_2_eq_2)
next
  case (Cons x xs)
  then obtain y ys' where ys: "ys = y # ys'" by (cases ys) (auto simp: hexEncode_def numeral_2_eq_2)
  with Cons.prems have "hexpad 2 (of_char x) @ hexEncode xs = hexpad 2 (of_char y) @ hexEncode ys'"
    by (simp add: hexEncode_def)
  then have "hexpad 2 (of_char x :: nat) = hexpad 2 (of_char y)" "hexEncode xs = hexEncode ys'" by auto
  then show ?case using Cons.IH hexpad2_inj [of "of_char x" "of_char y"] ys by simp
qed

text \<open>
  C20. A session works on every node and for exactly its hour. The token \<open>CreateSession\<close> returns is accepted by
  \<open>ValidateSession\<close> on every node with the same signing key (hence the same API key), at exactly the times whose
  second lies before the expiry; at those times the creating node still finds the session's key, whatever
  sessions it created in between, while a node that does not hold the session has no key for it.
\<close>

theorem session_token_roundtrip:
  assumes "CreateSession hmac now (Some ib) k m = Some (token, m')"
    and "0 \<le> Unix (now + sessionTokenTTL)" and "Unix (now + sessionTokenTTL) < 2 ^ 63"
    and "ua_bootstrapSigningKey peer = ua_bootstrapSigningKey m"
    and "\<forall>(t', ib', k') \<in> set later. t' \<le> t \<and> ib' \<noteq> ib"
  shows "(ValidateSession hmac t token peer \<longleftrightarrow> Unix t < Unix (now + sessionTokenTTL)) \<and>
         GetSessionSharedKey hmac t token (createAll hmac later m') = (if Unix t < Unix (now + sessionTokenTTL) then Some k else None) \<and>
         (map_of (ua_sessions peer) (hexEncode ib) = None \<longrightarrow> GetSessionSharedKey hmac t token peer = None)"
proof -
  let ?e = "now + sessionTokenTTL" and ?info = "\<lparr>si_expiresAt = now + sessionTokenTTL, si_sharedKey = k\<rparr>"
  have tok: "token = sessionToken hmac (ua_bootstrapSigningKey m) ib ?e"
    and m': "m' = cleanExpiredSessions now (m\<lparr>ua_sessions := mput (hexEncode ib) ?info (ua_sessions m)\<rparr>)"
    using assms(1) by (simp_all add: CreateSession_token)
  have 1: "ValidateSession hmac t token peer \<longleftrightarrow> Unix t < Unix ?e"
    using ValidateSession_token [OF assms(2,3), of hmac t peer] by (simp add: tok assms(4))
  have 2: "map_of (ua_sessions peer) (hexEncode ib) = None \<longrightarrow> GetSessionSharedKey hmac t token peer = None"
    using GetSessionSharedKey_token [OF assms(2,3), of hmac t peer] by (simp add: tok assms(4))
  have key: "ua_bootstrapSigningKey (createAll hmac later m') = ua_bootstrapSigningKey m"
    by (simp add: createAll_key m' cleanExpiredSessions_def)
  have "map_of (ua_sessions m') (hexEncode ib) = Some ?info"
    by (auto simp: m' cleanExpiredSessions_def sessionTokenTTL_def Minute_def Second_def Millisecond_def intro!: map_of_filter_kept)
  then have "map_of (ua_sessions (createAll hmac later m')) (hexEncode ib) = Some ?info" if "t < ?e"
  proof (rule createAll_keeps)
    show "list_all (\<lambda>(t, ib', k). t \<le> si_expiresAt ?info \<and> hexEncode ib' \<noteq> hexEncode ib) later"
      using assms(5) that hexEncode_inj [of _ ib] by (auto simp: list_all_iff)
  qed
  then have "GetSessionSharedKey hmac t token (createAll hmac later m') = (if Unix t < Unix ?e then Some k else None)"
    using GetSessionSharedKey_token [OF assms(2,3), of hmac t "createAll hmac later m'" ib] Unix_less [of t ?e] by (auto simp: tok key)
  with 1 2 show ?thesis by blast
qed

definition demo_hmac :: "string \<Rightarrow> string \<Rightarrow> string" where
  "demo_hmac key msg = key @ msg"

definition demo_manager :: "unit uiAuthManager" where
  "demo_manager = \<lparr>ua_serverPrivKey = (), ua_bootstrapSigningKey = ''k'', ua_sessions = []\<rparr>"

theorem session_token_roundtrip_witness:
  "\<exists>token m'. CreateSession demo_hmac 0 (Some ''id'') ''key'' demo_manager = Some (token, m') \<and>
     ValidateSession demo_hmac Minute token demo_manager \<and> GetSessionSharedKey demo_hmac Minute token m' = Some ''key''"
proof -
  obtain token m' where c: "CreateSession demo_hmac 0 (Some ''id'') ''key'' demo_manager = Some (token, m')"
    by (simp add: CreateSession_token)
  then show ?thesis
    using session_token_roundtrip [OF c, of demo_manager "[]" Minute]
    by (auto simp: Unix_def sessionTokenTTL_def Minute_def Second_def Millisecond_def Nanosecond_def)
qed

text \<open>
  What the holder of a session token can compute from it alone: the prefix that separates session
  signatures from bootstrap signatures moved from the signed text into the payload.
\<close>

definition rebind :: "string \<Rightarrow> string" where
  "rebind token =
     (case SplitN2 (CHR ''.'') token of
        [p0, p1] \<Rightarrow> (case b64_decode url_alphabet p0 of
                      None \<Rightarrow> '''' | Some payload \<Rightarrow> b64_encode url_alphabet (''session-v1:'' @ payload) @ ''.'' @ p1)
      | _ \<Rightarrow> '''')"

lemma rebind_token:
  "rebind (sessionToken hmac key ib e) =
     b64_encode url_alphabet ((''session-v1:'' @ hexEncode ib) @ '':'' @ dec_int (Unix e)) @ ''.'' @
     hexEncode (hmac key ((''session-v1:'' @ hexEncode ib) @ '':'' @ dec_int (Unix e)))"
proof -
  have "SplitN2 (CHR ''.'') (sessionToken hmac key ib e) =
          [b64_encode url_alphabet (sessionPayload ib e), hexEncode (hmac key (''session-v1:'' @ sessionPayload ib e))]"
    using SplitN2_sep [OF b64_no_dot [OF alphabets(2)]] by (simp add: sessionToken_def)
  then show ?thesis by (simp add: rebind_def sessionPayload_def del: SplitN2.simps)
qed

lemma ValidateBootstrapToken_rebind:
  assumes "0 \<le> Unix e" and "Unix e < 2 ^ 63"
  shows "ValidateBootstrapToken hmac t (rebind (sessionToken hmac (ua_bootstrapSigningKey m) ib e)) m \<longleftrightarrow> Unix t < Unix e"
  unfolding ValidateBootstrapToken_def rebind_token by (subst validateSigned_token [OF assms]) simp

text \<open>
  C40. Bootstrap tokens are meant to be issued only by the Digest-protected \<open>/ui/get-token\<close> and to live ten
  minutes. The holder of any session token can derive one without any key: the signatures of the two kinds
  of token share the key and differ only in a prefix that the payload may contain. As long as the session is
  valid, the key exchange accepts the derived token and opens a further session of a full hour, so that a
  session renews itself for ever.
\<close>

theorem session_renews_itself:
  assumes "CreateSession hmac now (Some ib) k m = Some (token, m')"
    and "0 \<le> Unix (now + sessionTokenTTL)" and "Unix (t + sessionTokenTTL) < 2 ^ 63"
    and "ua_bootstrapSigningKey peer = ua_bootstrapSigningKey m" and "Unix t < Unix (now + sessionTokenTTL)"
    and "pub \<noteq> ''''" and "DeriveSharedKey parsePoint ecdh pub peer = Inr k'" and "seal k' n (sessionToken hmac (ua_bootstrapSigningKey m) ib' (t + sessionTokenTTL)) = Some c"
    and "now \<le> t"
  shows "fst (handleUIExchange hmac parsePoint ecdh seal t (Some ib') (Some n)
            (Some \<lparr>ke_ClientPublicKey = pub, ke_BootstrapToken = rebind token\<rparr>) peer) =
           (200, Some (b64_encode std_alphabet n, b64_encode std_alphabet c)) \<and>
         (\<forall>t'. ValidateSession hmac t' (sessionToken hmac (ua_bootstrapSigningKey m) ib' (t + sessionTokenTTL)) peer \<longleftrightarrow>
               Unix t' < Unix (t + sessionTokenTTL))"
proof -
  have "Unix (now + sessionTokenTTL) \<le> Unix (t + sessionTokenTTL)"
    using assms(9) by (simp add: Unix_def zdiv_mono1 Second_def Millisecond_def Nanosecond_def)
  then have b: "Unix (now + sessionTokenTTL) < 2 ^ 63" "0 \<le> Unix (t + sessionTokenTTL)" using assms(2,3) by linarith+
  have tok: "token = sessionToken hmac (ua_bootstrapSigningKey peer) ib (now + sessionTokenTTL)"
    using assms(1,4) by (simp add: CreateSession_token)
  have "ValidateBootstrapToken hmac t (rebind token) peer"
    using ValidateBootstrapToken_rebind [OF assms(2) b(1), of hmac t peer ib] assms(5) by (simp add: tok)
  moreover have "rebind token \<noteq> ''''" by (simp add: tok rebind_token)
  ultimately have "fst (handleUIExchange hmac parsePoint ecdh seal t (Some ib') (Some n)
            (Some \<lparr>ke_ClientPublicKey = pub, ke_BootstrapToken = rebind token\<rparr>) peer) =
           (200, Some (b64_encode std_alphabet n, b64_encode std_alphabet c))"
    using assms(4,6,7,8) by (simp add: handleUIExchange_def CreateSession_token encryptWithSharedKey_def)
  then show ?thesis using ValidateSession_token [OF b(2) assms(3), of hmac _ peer ib'] by (simp add: assms(4))
qed

theorem session_renews_itself_witness:
  "\<exists>token m'. CreateSession demo_hmac 0 (Some ''id'') ''key'' demo_manager = Some (token, m') \<and>
     fst (fst (handleUIExchange demo_hmac Some (\<lambda>_ q. Some q) (\<lambda>_ _ s. Some s) (59 * Minute) (Some ''id2'') (Some ''n'')
       (Some \<lparr>ke_ClientPublicKey = ''aGk='', ke_BootstrapToken = rebind token\<rparr>) m')) = 200"
proof -
  obtain token m' where c: "CreateSession demo_hmac 0 (Some ''id'') ''key'' demo_manager = Some (token, m')"
    by (simp add: CreateSession_token)
  have key: "ua_bootstrapSigningKey m' = ua_bootstrapSigningKey demo_manager"
    using c by (auto simp: CreateSession_token cleanExpiredSessions_def)
  have dec: "b64_decode std_alphabet ''aGk='' = Some ''hi''" by code_simp
  show ?thesis
    using c session_renews_itself [OF c, of "59 * Minute" m' "''aGk=''" Some "\<lambda>_ q. Some q" "''hi''" "\<lambda>_ _ s. Some s" "''n''" "''id2''"] key
    by (auto simp: dec Unix_def sessionTokenTTL_def Minute_def Second_def Millisecond_def Nanosecond_def DeriveSharedKey_def)
qed

section \<open>Digest authentication accepts each nonce once\<close>

text \<open>What the client sends for one request: the time it arrives, the nonce the next challenge would get, the header and the method.\<close>

type_synonym digestRequest = "gotime \<times> string \<times> string \<times> string"

fun digestRun :: "(string \<Rightarrow> string) \<Rightarrow> digestRequest list \<Rightarrow> digestAuthenticator \<Rightarrow> digestAuthenticator" where
  "digestRun sha [] a = a"
| "digestRun sha ((now, fresh, auth, meth) # rs) a = digestRun sha rs (snd (Middleware sha now fresh auth meth a))"

abbreviation nonceOf :: "string \<Rightarrow> string" where
  "nonceOf auth \<equiv> mstr (parseDigestAuth auth) ''nonce''"

lemma map_of_filter_None: "map_of xs k = None \<Longrightarrow> map_of (filter P xs) k = None"
  by (induction xs) (auto split: if_splits)

lemma generateNonce_other:
  "fresh \<noteq> n \<Longrightarrow> map_of (da_nonceStore a) n = None \<Longrightarrow> map_of (da_nonceStore (generateNonce now fresh a)) n = None"
  by (simp add: generateNonce_def cleanupExpiredNonces_def map_of_filter_None)

lemma Middleware_cases:
  "(\<exists>stale. Middleware sha now fresh auth meth a = sendChallengeWithStale now fresh stale a) \<or>
   Middleware sha now fresh auth meth a = (Next, a\<lparr>da_nonceStore := mdel (nonceOf auth) (da_nonceStore a)\<rparr>) \<and>
   validateNonce now (nonceOf auth) a \<and>
   expectedResponse sha (da_hashedCredentials a) (parseDigestAuth auth) meth = Some (mstr (parseDigestAuth auth) ''response'')"
  unfolding Middleware_def Let_def by (simp only: split: if_split option.split) blast

lemma Middleware_Next:
  assumes "Middleware sha now fresh auth meth a = (Next, a')"
  shows "a' = a\<lparr>da_nonceStore := mdel (nonceOf auth) (da_nonceStore a)\<rparr> \<and> validateNonce now (nonceOf auth) a \<and>
         expectedResponse sha (da_hashedCredentials a) (parseDigestAuth auth) meth = Some (mstr (parseDigestAuth auth) ''response'')"
  using Middleware_cases [of sha now fresh auth meth a] assms by (auto simp: sendChallengeWithStale_def)

lemma digestRun_unused:
  assumes "map_of (da_nonceStore a) n = None" and "list_all (\<lambda>(_, fresh, _). fresh \<noteq> n) rs"
  shows "map_of (da_nonceStore (digestRun sha rs a)) n = None"
  using assms
proof (induction sha rs a rule: digestRun.induct)
  case (2 sha now fresh auth meth rs a)
  have "map_of (da_nonceStore (snd (Middleware sha now fresh auth meth a))) n = None"
    using Middleware_cases [of sha now fresh auth meth a] "2.prems" by (auto simp: sendChallengeWithStale_def generateNonce_other)
  with 2 show ?case by simp
qed simp


definition demo_auth :: digestAuthenticator where
  "demo_auth = \<lparr>da_hashedCredentials = ''c'', da_nonceStore = [(''n'', 0)]\<rparr>"

section \<open>The header a client sends\<close>

text \<open>A header in the form curl gives it, for the first use of a nonce with quality of protection \<open>auth\<close>.\<close>

definition quoted :: "string \<Rightarrow> string \<Rightarrow> string" where
  "quoted k v = k @ ''='' @ CHR 0x22 # v @ [CHR 0x22]"

fun joinFields :: "string list \<Rightarrow> string" where
  "joinFields [] = []"
| "joinFields [f] = f"
| "joinFields (f # fs) = f @ CHR '','' # CHR '' '' # joinFields fs"

definition digestFields :: "string \<Rightarrow> string \<Rightarrow> string \<Rightarrow> string \<Rightarrow> string list" where
  "digestFields nonce uri cnonce response =
     [quoted ''username'' digestUsername, quoted ''realm'' digestRealm, quoted ''nonce'' nonce, quoted ''uri'' uri,
      ''qop=auth'', ''nc=00000001'', quoted ''cnonce'' cnonce, quoted ''response'' response]"

definition digestHeader :: "string \<Rightarrow> string \<Rightarrow> string \<Rightarrow> string \<Rightarrow> string" where
  "digestHeader nonce uri cnonce response = ''Digest '' @ joinFields (digestFields nonce uri cnonce response)"

definition clientResponse :: "(string \<Rightarrow> string) \<Rightarrow> string \<Rightarrow> string \<Rightarrow> string \<Rightarrow> string \<Rightarrow> string \<Rightarrow> string" where
  "clientResponse sha cred nonce cnonce meth uri =
     sha (cred @ '':'' @ nonce @ '':'' @ ''00000001'' @ '':'' @ cnonce @ '':'' @ ''auth'' @ '':'' @ sha (meth @ '':'' @ uri))"

lemma trimBlanks_framed: "c \<noteq> CHR '' '' \<Longrightarrow> d \<noteq> CHR '' '' \<Longrightarrow> trimBlanks (c # s @ [d]) = c # s @ [d]"
  by (simp add: trimBlanks_def)

lemma trimBlanks_skip: "trimBlanks (CHR '' '' # s) = trimBlanks s"
  by (simp add: trimBlanks_def)

lemma partition_eq_sep: "CHR ''='' \<notin> set k \<Longrightarrow> partition_eq (k @ CHR ''='' # v) = (k, v)"
  by (simp add: partition_eq_def takeWhile_append dropWhile_append)

lemma TrimSuffix_append: "TrimSuffix (s @ t) t = s"
  by (simp add: TrimSuffix_def HasSuffix_def)

lemma unquote_quoted: "unquote (CHR 0x22 # v @ [CHR 0x22]) = v"
  using TrimSuffix_append [of "CHR 0x22 # v" "[CHR 0x22]"] TrimPrefix_append [of "[CHR 0x22]" v] by (simp add: unquote_def)

lemma partition_quoted:
  assumes "CHR ''='' \<notin> set k" and "k \<noteq> []" and "hd k \<noteq> CHR '' ''"
  shows "partition_eq (trimBlanks (quoted k v)) = (k, CHR 0x22 # v @ [CHR 0x22])"
proof -
  obtain c k' where k: "k = c # k'" using assms(2) by (cases k) auto
  then have "trimBlanks (quoted k v) = quoted k v"
    using trimBlanks_framed [of c "CHR 0x22" "k' @ ''='' @ CHR 0x22 # v"] assms(3) by (simp add: quoted_def)
  then show ?thesis using partition_eq_sep [OF assms(1)] by (simp add: quoted_def)
qed

lemma Split_append: "Split d (x @ d # y) = Split d x @ Split d y"
  by (induction x) (auto split: list.splits)

lemma Split_joinFields:
  "Split (CHR '','') (joinFields (f # fs)) = Split (CHR '','') f @ concat (map (\<lambda>f. Split (CHR '','') (CHR '' '' # f)) fs)"
proof (induction fs arbitrary: f)
  case (Cons g gs)
  have "Split (CHR '','') (CHR '' '' # joinFields (g # gs)) = Split (CHR '','') (CHR '' '' # g) @ concat (map (\<lambda>f. Split (CHR '','') (CHR '' '' # f)) gs)"
    using Cons.IH [of g] by (cases "Split (CHR '','') g") simp_all
  then show ?case by (simp add: Split_append del: Split.simps)
qed simp

definition fieldOf :: "string \<Rightarrow> string \<times> string" where
  "fieldOf part = map_prod id unquote (partition_eq (trimBlanks part))"

lemma parseDigestAuth_fields:
  "parseDigestAuth auth = fold (\<lambda>(k, v) m. mput k v m) (map fieldOf (Split (CHR '','') (TrimPrefix auth ''Digest ''))) []"
  unfolding parseDigestAuth_def fold_map
  by (rule fold_cong) (auto simp: fieldOf_def fun_eq_iff split: prod.split)

lemma fieldOf_quoted:
  assumes "CHR ''='' \<notin> set k" and "k \<noteq> []" and "hd k \<noteq> CHR '' ''"
  shows "fieldOf (quoted k v) = (k, v)" and "fieldOf (CHR '' '' # quoted k v) = (k, v)"
  using partition_quoted [OF assms] by (simp_all add: fieldOf_def trimBlanks_skip unquote_quoted)

lemma Split_blank: "CHR '','' \<notin> set s \<Longrightarrow> Split (CHR '','') (CHR '' '' # s) = [CHR '' '' # s]"
  by (rule Split_no_sep) simp

text \<open>The fields the server reads, when only the URI may hold a comma.\<close>

lemma header_fields:
  assumes "CHR '','' \<notin> set nonce" "CHR '','' \<notin> set cnonce" "CHR '','' \<notin> set response"
  shows "map fieldOf (Split (CHR '','') (TrimPrefix (digestHeader nonce uri cnonce response) ''Digest '')) =
     [(''username'', digestUsername), (''realm'', digestRealm), (''nonce'', nonce)] @
     map fieldOf (Split (CHR '','') (CHR '' '' # quoted ''uri'' uri)) @
     [(''qop'', ''auth''), (''nc'', ''00000001''), (''cnonce'', cnonce), (''response'', response)]"
proof -
  have 1: "CHR '','' \<notin> set (quoted ''username'' digestUsername)" "CHR '','' \<notin> set (quoted ''realm'' digestRealm)"
    "CHR '','' \<notin> set (quoted ''nonce'' nonce)" "CHR '','' \<notin> set (quoted ''cnonce'' cnonce)" "CHR '','' \<notin> set (quoted ''response'' response)"
    using assms by (simp_all add: quoted_def digestUsername_def digestRealm_def)
  have 2: "CHR '','' \<notin> set ''qop=auth''" "CHR '','' \<notin> set ''nc=00000001''" by simp_all
  have 3: "fieldOf (CHR '' '' # ''qop=auth'') = (''qop'', ''auth'')" "fieldOf (CHR '' '' # ''nc=00000001'') = (''nc'', ''00000001'')"
    by code_simp+
  show ?thesis
    unfolding digestHeader_def TrimPrefix_append digestFields_def Split_joinFields
    using Split_no_sep [OF 1(1)] 1(2-5) [THEN Split_blank] 2 [THEN Split_blank] 3
    by (simp add: fieldOf_quoted del: Split.simps)
qed

lemma uri_field:
  "CHR '','' \<notin> set uri \<Longrightarrow> map fieldOf (Split (CHR '','') (CHR '' '' # quoted ''uri'' uri)) = [(''uri'', uri)]"
  using Split_blank [of "quoted ''uri'' uri"] fieldOf_quoted(2) [of "''uri''" uri] by (simp add: quoted_def del: Split.simps)

lemma uri_field_comma:
  assumes "CHR '','' \<notin> set u" and "CHR '','' \<notin> set v" and "CHR ''='' \<notin> set v" and "u \<noteq> []" and "last u \<notin> {CHR '' '', CHR 0x22}"
  shows "\<exists>k. CHR 0x22 \<in> set k \<and>
           map fieldOf (Split (CHR '','') (CHR '' '' # quoted ''uri'' (u @ '','' @ v))) = [(''uri'', u), (k, '''')]"
proof -
  obtain u' d where u: "u = u' @ [d]" and d: "d \<noteq> CHR '' ''" "d \<noteq> CHR 0x22" using assms(4,5) by (cases u rule: rev_cases) auto
  have f: "CHR '' '' # quoted ''uri'' (u @ '','' @ v) = (CHR '' '' # ''uri='' @ CHR 0x22 # u) @ CHR '','' # (v @ [CHR 0x22])"
    by (simp add: quoted_def)
  have "trimBlanks (CHR '' '' # ''uri='' @ CHR 0x22 # u) = ''uri='' @ CHR 0x22 # u"
    using trimBlanks_framed [of "CHR ''u''" d "''ri='' @ CHR 0x22 # u'"] d by (simp add: trimBlanks_skip u)
  then have "partition_eq (trimBlanks (CHR '' '' # ''uri='' @ CHR 0x22 # u)) = (''uri'', CHR 0x22 # u)"
    using partition_eq_sep [of "''uri''"] by simp
  moreover have "unquote (CHR 0x22 # u) = u"
    using d TrimPrefix_append [of "[CHR 0x22]" u] by (simp add: unquote_def TrimSuffix_def HasSuffix_def HasPrefix_def u)
  ultimately have 1: "fieldOf (CHR '' '' # ''uri='' @ CHR 0x22 # u) = (''uri'', u)" by (simp add: fieldOf_def)
  let ?k = "trimBlanks (v @ [CHR 0x22])"
  have "CHR 0x22 \<in> set (dropWhile (\<lambda>c. c = CHR '' '') (v @ [CHR 0x22]))" by (induction v) simp_all
  moreover have k: "?k = dropWhile (\<lambda>c. c = CHR '' '') (v @ [CHR 0x22])"
    by (simp add: trimBlanks_def dropWhile_append)
  ultimately have "CHR 0x22 \<in> set ?k" by simp
  moreover have "fieldOf (v @ [CHR 0x22]) = (?k, '''')"
  proof -
    have "CHR ''='' \<notin> set ?k" using assms(3) k set_dropWhileD [of _ _ "v @ [CHR 0x22]"] by fastforce
    then have "takeWhile (\<lambda>c. c \<noteq> CHR ''='') ?k = ?k" "dropWhile (\<lambda>c. c \<noteq> CHR ''='') ?k = []"
      by (auto simp: takeWhile_eq_all_conv dropWhile_eq_Nil_conv)
    then have "partition_eq ?k = (?k, '''')" by (simp only: partition_eq_def drop_Nil)
    then show ?thesis by (simp add: fieldOf_def unquote_def TrimSuffix_def TrimPrefix_def HasSuffix_def HasPrefix_def)
  qed
  moreover have "Split (CHR '','') (CHR '' '' # quoted ''uri'' (u @ '','' @ v)) = [CHR '' '' # ''uri='' @ CHR 0x22 # u, v @ [CHR 0x22]]"
    unfolding f Split_append using assms(1,2) Split_no_sep [of "CHR '',''" "v @ [CHR 0x22]"] Split_blank [of "''uri='' @ CHR 0x22 # u"] by simp
  ultimately show ?thesis using 1 by auto
qed

lemma Middleware_header:
  assumes "parseDigestAuth auth = p" and "HasPrefix auth ''Digest ''" and "mstr p ''username'' = digestUsername" and "mstr p ''realm'' = digestRealm"
    and "mstr p ''algorithm'' = ''''" and "mstr p ''qop'' = ''auth''" and "mstr p ''nc'' = ''00000001''"
    and "mstr p ''nonce'' \<noteq> ''''" and "mstr p ''uri'' \<noteq> ''''" and "mstr p ''cnonce'' \<noteq> ''''" and "mstr p ''response'' \<noteq> ''''"
  shows "fst (Middleware sha now fresh auth meth a) = Next \<longleftrightarrow>
     validateNonce now (mstr p ''nonce'') a \<and>
     mstr p ''response'' = clientResponse sha (da_hashedCredentials a) (mstr p ''nonce'') (mstr p ''cnonce'') meth (mstr p ''uri'')"
proof -
  have "expectedResponse sha (da_hashedCredentials a) p meth =
      Some (clientResponse sha (da_hashedCredentials a) (mstr p ''nonce'') (mstr p ''cnonce'') meth (mstr p ''uri''))"
    using assms by (simp add: expectedResponse_def clientResponse_def)
  moreover have "auth \<noteq> ''''" using assms(2) by (auto simp: HasPrefix_def)
  moreover have "digestUsername \<noteq> ''''" "digestRealm \<noteq> ''''" by (simp_all add: digestUsername_def digestRealm_def)
  ultimately show ?thesis unfolding Middleware_def Let_def assms(1) using assms(2-)
    by (simp add: sendChallengeWithStale_def)
qed

lemma header_prefix: "HasPrefix (digestHeader nonce uri cnonce response) ''Digest ''"
  by (simp only: digestHeader_def HasPrefix_append)

text \<open>A client that knows the key gets through with a fresh nonce when the request's URI has no comma.\<close>

lemma digest_login:
  assumes "CHR '','' \<notin> set nonce \<union> set cnonce \<union> set uri" and "nonce \<noteq> ''''" "cnonce \<noteq> ''''" "uri \<noteq> ''''"
    and "response = clientResponse sha (da_hashedCredentials a) nonce cnonce meth uri" and "response \<noteq> ''''" and "CHR '','' \<notin> set response"
  shows "fst (Middleware sha now fresh (digestHeader nonce uri cnonce response) meth a) = Next \<longleftrightarrow> validateNonce now nonce a"
proof -
  let ?p = "parseDigestAuth (digestHeader nonce uri cnonce response)"
  have p: "?p = fold (\<lambda>(k, v) m. mput k v m) [(''username'', digestUsername), (''realm'', digestRealm), (''nonce'', nonce), (''uri'', uri),
      (''qop'', ''auth''), (''nc'', ''00000001''), (''cnonce'', cnonce), (''response'', response)] []"
    using assms(1,7) header_fields [of nonce cnonce response uri] uri_field [of uri] by (simp add: parseDigestAuth_fields del: Split.simps mput.simps)
  show ?thesis
    using Middleware_header [OF refl header_prefix, of nonce uri cnonce response sha now fresh meth a] assms(2-6)
    unfolding p by (simp add: mstr_def del: mput.simps)
qed

text \<open>
  The URIs the documentation gives for blocking by several headers, such as
  \<open>/v1/blocked-entity/10.0.0.1/_path/api/_headers/k:v,k2:v2\<close>, hold a comma, and the server cuts the Authorization
  header at every comma, quoted or not. It checks the response against the part of the URI before the comma, so a
  client that knows the key and computes its response over the whole URI is refused, unless the two URIs
  happen to give the same hash.
\<close>

theorem digest_comma_uri:
  assumes "uri = u @ '','' @ v" and "CHR '','' \<notin> set u \<union> set v \<union> set nonce \<union> set cnonce \<union> set response" and "CHR ''='' \<notin> set v"
    and "u \<noteq> ''''" and "last u \<notin> {CHR '' '', CHR 0x22}" and "nonce \<noteq> ''''" "cnonce \<noteq> ''''" "response \<noteq> ''''"
    and "response = clientResponse sha (da_hashedCredentials a) nonce cnonce meth uri"
    and "clientResponse sha (da_hashedCredentials a) nonce cnonce meth uri \<noteq> clientResponse sha (da_hashedCredentials a) nonce cnonce meth u"
  shows "fst (Middleware sha now fresh (digestHeader nonce uri cnonce response) meth a) \<noteq> Next"
proof -
  let ?p = "parseDigestAuth (digestHeader nonce uri cnonce response)"
  obtain k where k: "CHR 0x22 \<in> set k"
    and f: "map fieldOf (Split (CHR '','') (CHR '' '' # quoted ''uri'' uri)) = [(''uri'', u), (k, '''')]"
    using uri_field_comma [of u v] assms(1-5) by auto
  have n: "k \<noteq> ''username''" "k \<noteq> ''realm''" "k \<noteq> ''nonce''" "k \<noteq> ''uri''" "k \<noteq> ''qop''" "k \<noteq> ''nc''" "k \<noteq> ''cnonce''" "k \<noteq> ''response''" "k \<noteq> ''algorithm''"
    using k by auto
  have p: "?p = fold (\<lambda>(k, v) m. mput k v m) [(''username'', digestUsername), (''realm'', digestRealm), (''nonce'', nonce), (''uri'', u), (k, ''''),
      (''qop'', ''auth''), (''nc'', ''00000001''), (''cnonce'', cnonce), (''response'', response)] []"
    using assms(2) header_fields [of nonce cnonce response uri] f by (simp add: parseDigestAuth_fields del: Split.simps mput.simps)
  show ?thesis
    using Middleware_header [OF refl header_prefix, of nonce uri cnonce response sha now fresh meth a] assms(4,6-10) n
    unfolding p by (simp add: mstr_def del: mput.simps)
qed

definition demo_sha :: "string \<Rightarrow> string" where
  "demo_sha s = map (\<lambda>c. if c = CHR '','' then CHR '';'' else c) s"

abbreviation demo_response :: "string \<Rightarrow> string" where
  "demo_response uri \<equiv> clientResponse demo_sha ''c'' ''n'' ''x'' ''GET'' uri"


theorem digest_comma_uri_witness:
  "fst (Middleware demo_sha Second ''f'' (digestHeader ''n'' ''/a:1,b:2'' ''x'' (demo_response ''/a:1,b:2'')) ''GET'' demo_auth) \<noteq> Next"
  by (rule digest_comma_uri [of _ "''/a:1''" "''b:2''"]) (simp_all add: clientResponse_def demo_sha_def demo_auth_def)

end
