(* ===== verification/Libs.thy ===== *)
theory Libs
  imports Prelude
begin

text \<open>
  The third-party packages the sources call, as parameters: a record of operations per package
  (otter cache, consistent-hash ring, radix tree) or a pair of functions (serialisers), and a locale
  that states the documented behaviour the sources rely on. Every definition of the model takes
  the operations as an argument; a theorem that needs their behaviour names the locale as a
  hypothesis. Each locale is interpreted on an executable reference implementation, which is what
  the witnesses run on.
\<close>

section \<open>otter: an in-memory cache with per-entry expiry\<close>

text \<open>
  The operations of \<open>otter.Cache\<close> the sources use. Each takes the time of the call. \<open>Set\<close> takes the
  duration that the configured \<open>ExpiryCalculator\<close> computes for the entry: that calculator is code
  of the sources and is modelled with its component.
\<close>

record ('c, 'v) otter =
  otter_GetIfPresent :: "gotime \<Rightarrow> string \<Rightarrow> 'c \<Rightarrow> 'v option"
  otter_Set :: "gotime \<Rightarrow> duration \<Rightarrow> string \<Rightarrow> 'v \<Rightarrow> 'c \<Rightarrow> 'c"
  otter_Invalidate :: "gotime \<Rightarrow> string \<Rightarrow> 'c \<Rightarrow> 'v option \<times> 'c"
  otter_InvalidateAll :: "'c \<Rightarrow> 'c"
  otter_All :: "gotime \<Rightarrow> 'c \<Rightarrow> (string \<times> 'v) list"
  otter_EstimatedSize :: "'c \<Rightarrow> nat"

text \<open>A stored value with its deadline, as seen at time \<open>t\<close>.\<close>

fun live :: "gotime \<Rightarrow> ('v \<times> gotime) option \<Rightarrow> 'v option" where
  "live t None = None"
| "live t (Some (v, d)) = (if t < d then Some v else None)"

lemma live_Some_iff: "live t e = Some v \<longleftrightarrow> (\<exists>d. e = Some (v, d) \<and> t < d)"
  by (cases "(t, e)" rule: live.cases) auto

lemma live_None_iff: "live t e = None \<longleftrightarrow> (\<forall>v d. e = Some (v, d) \<longrightarrow> d \<le> t)"
  by (cases "(t, e)" rule: live.cases) auto

text \<open>
  \<open>stored\<close> is the abstraction function: the value and the deadline kept for a key. \<open>room n c\<close> says
  that \<open>n\<close> more entries fit below the configured maximum weight. Below that weight a \<open>Set\<close> is kept
  and touches no other key; above it entries may be evicted, but no operation ever makes an entry
  up. Whether replacing a live entry keeps its deadline or restarts it is left open.
\<close>

locale otter_cache =
  fixes ot :: "('c, 'v) otter"
    and stored :: "'c \<Rightarrow> string \<Rightarrow> ('v \<times> gotime) option"
    and room :: "nat \<Rightarrow> 'c \<Rightarrow> bool"
  assumes get: "otter_GetIfPresent ot t k c = live t (stored c k)"
    and set_new: "room (Suc n) c \<Longrightarrow> live t (stored c k) = None \<Longrightarrow>
      stored (otter_Set ot t ttl k v c) k = Some (v, t + ttl)"
    and set_old: "room (Suc n) c \<Longrightarrow> stored c k = Some (w, d) \<Longrightarrow> t < d \<Longrightarrow>
      \<exists>d'. stored (otter_Set ot t ttl k v c) k = Some (v, d') \<and> (d' = d \<or> d' = t + ttl)"
    and set_other: "room (Suc n) c \<Longrightarrow> k' \<noteq> k \<Longrightarrow> t \<le> t' \<Longrightarrow>
      live t' (stored (otter_Set ot t ttl k v c) k') = live t' (stored c k')"
    and set_sound_same: "stored (otter_Set ot t ttl k v c) k = Some (w, d) \<Longrightarrow>
      w = v \<and> (d = t + ttl \<or> (\<exists>u. stored c k = Some (u, d)))"
    and set_sound_other: "k' \<noteq> k \<Longrightarrow> stored (otter_Set ot t ttl k v c) k' = Some e \<Longrightarrow>
      stored c k' = Some e"
    and inval_value: "fst (otter_Invalidate ot t k c) = live t (stored c k)"
    and inval_stored: "stored (snd (otter_Invalidate ot t k c)) = (stored c)(k := None)"
    and inval_all: "stored (otter_InvalidateAll ot c) k = None"
    and all_distinct: "distinct (map fst (otter_All ot t c))"
    and all_sound: "(k, v) \<in> set (otter_All ot t c) \<Longrightarrow> \<exists>d. stored c k = Some (v, d)"
    and all_complete: "live t (stored c k) = Some v \<Longrightarrow> (k, v) \<in> set (otter_All ot t c)"
    and room_less: "room (Suc n) c \<Longrightarrow> room n c"
    and room_set: "room (Suc n) c \<Longrightarrow> room n (otter_Set ot t ttl k v c)"
    and room_inval: "room n c \<Longrightarrow> room n (snd (otter_Invalidate ot t k c))"
begin

lemmas laws = get set_new set_other inval_value inval_stored inval_all

text \<open>Right after a \<open>Set\<close> with a positive duration the value is there.\<close>

lemma get_set_same:
  assumes "room (Suc n) c" and "0 < ttl"
  shows "otter_GetIfPresent ot t k (otter_Set ot t ttl k v c) = Some v"
proof (cases "live t (stored c k)")
  case None
  with assms show ?thesis by (simp add: get set_new)
next
  case (Some w)
  then obtain d where "stored c k = Some (w, d)" "t < d" by (auto simp: live_Some_iff)
  from set_old [OF assms(1) this, of ttl v] \<open>t < d\<close> assms(2) show ?thesis
    by (auto simp: get live_Some_iff)
qed

text \<open>A \<open>Set\<close> of a key that was not present keeps the value until its deadline.\<close>

lemma get_set_new:
  assumes "room (Suc n) c" and "otter_GetIfPresent ot t k c = None"
  shows "otter_GetIfPresent ot t' k (otter_Set ot t ttl k v c) = (if t' < t + ttl then Some v else None)"
  using assms by (simp add: get set_new)

lemma get_set_other:
  "room (Suc n) c \<Longrightarrow> k' \<noteq> k \<Longrightarrow> t \<le> t' \<Longrightarrow>
     otter_GetIfPresent ot t' k' (otter_Set ot t ttl k v c) = otter_GetIfPresent ot t' k' c"
  by (simp add: get set_other)

text \<open>With or without room, a value read after a \<open>Set\<close> was put there by it or was there before.\<close>

lemma get_set_sound:
  "otter_GetIfPresent ot t' k' (otter_Set ot t ttl k v c) = Some w \<Longrightarrow>
     k' = k \<and> w = v \<or> k' \<noteq> k \<and> otter_GetIfPresent ot t' k' c = Some w"
proof -
  assume "otter_GetIfPresent ot t' k' (otter_Set ot t ttl k v c) = Some w"
  then obtain d where "stored (otter_Set ot t ttl k v c) k' = Some (w, d)" and "t' < d"
    by (auto simp: get live_Some_iff)
  then show ?thesis
    using set_sound_same [of t ttl k v c w d] set_sound_other [of k' k t ttl v c "(w, d)"]
    by (cases "k' = k") (auto simp: get)
qed

lemma get_inval:
  "otter_GetIfPresent ot t' k' (snd (otter_Invalidate ot t k c)) =
     (if k' = k then None else otter_GetIfPresent ot t' k' c)"
  by (simp add: get inval_stored)

lemma get_inval_all: "otter_GetIfPresent ot t k (otter_InvalidateAll ot c) = None"
  by (simp add: get inval_all)

text \<open>A value that is present was present at every earlier time of the same cache state.\<close>

lemma get_antimono:
  "otter_GetIfPresent ot t' k c = Some v \<Longrightarrow> t \<le> t' \<Longrightarrow> otter_GetIfPresent ot t k c = Some v"
  by (auto simp: get live_Some_iff)

lemma room_le: "room m c \<Longrightarrow> n \<le> m \<Longrightarrow> room n c"
proof (induction "m - n" arbitrary: n)
  case 0
  then show ?case by simp
next
  case (Suc x)
  then have "room (Suc n) c" by (metis Suc_diff_Suc Suc_leI diff_diff_cancel diff_Suc_1 le_less zero_less_Suc zero_less_diff)
  then show ?case by (rule room_less)
qed

end

text \<open>
  The reference cache: a capacity and the entries with their deadlines. Replacing a live entry
  keeps its deadline; when the cache is full the oldest entry makes place for a new one.
\<close>

type_synonym 'v ttl_map = "nat \<times> (string \<times> ('v \<times> gotime)) list"

fun evict_oldest :: "(string \<times> 'e) list \<Rightarrow> (string \<times> 'e) list" where
  "evict_oldest [] = []"
| "evict_oldest (e # es) = mdel (fst e) es"

fun ttl_set :: "gotime \<Rightarrow> duration \<Rightarrow> string \<Rightarrow> 'v \<Rightarrow> 'v ttl_map \<Rightarrow> 'v ttl_map" where
  "ttl_set t ttl k v (cap, es) =
     (case map_of es k of
        Some (w, d) \<Rightarrow> (cap, mput k (v, if t < d then d else t + ttl) es)
      | None \<Rightarrow> (cap, (if length es < cap then es else evict_oldest es) @ [(k, (v, t + ttl))]))"

definition ttl_ops :: "('v ttl_map, 'v) otter" where
  "ttl_ops =
     \<lparr>otter_GetIfPresent = (\<lambda>t k c. live t (map_of (snd c) k)),
      otter_Set = ttl_set,
      otter_Invalidate = (\<lambda>t k c. (live t (map_of (snd c) k), (fst c, mdel k (snd c)))),
      otter_InvalidateAll = (\<lambda>c. (fst c, [])),
      otter_All = (\<lambda>t c. map (\<lambda>k. (k, fst (the (map_of (snd c) k)))) (remdups (mkeys (snd c)))),
      otter_EstimatedSize = (\<lambda>c. length (snd c))\<rparr>"

definition ttl_stored :: "'v ttl_map \<Rightarrow> string \<Rightarrow> ('v \<times> gotime) option" where
  "ttl_stored c = map_of (snd c)"

definition ttl_room :: "nat \<Rightarrow> 'v ttl_map \<Rightarrow> bool" where
  "ttl_room n c \<longleftrightarrow> length (snd c) + n \<le> fst c"

definition ttl_empty :: "'v ttl_map" where
  "ttl_empty = (1000, [])"

declare ttl_ops_def [ref_eval] ttl_stored_def [ref_eval] ttl_room_def [ref_eval] ttl_empty_def [ref_eval]

lemma length_mput_old: "map_of es k = Some w \<Longrightarrow> length (mput k v es) = length es"
  by (induction k v es rule: mput.induct) (auto split: if_splits)

lemma length_mdel: "length (mdel k es) \<le> length es"
  by (simp add: mdel_def)

lemma map_of_evict_sub: "map_of (evict_oldest es) k = Some e \<Longrightarrow> map_of es k = Some e"
  by (cases es) (auto split: if_splits)

lemma length_evict: "length (evict_oldest es) \<le> length es - 1"
  using length_mdel by (cases es) auto

text \<open>The three facts about \<open>ttl_set\<close> that its laws follow from.\<close>

lemma ttl_stored_set_same:
  "ttl_stored (ttl_set t ttl k v c) k =
     Some (v, case ttl_stored c k of Some (w, d) \<Rightarrow> if t < d then d else t + ttl | None \<Rightarrow> t + ttl)"
proof (cases c)
  case (Pair cap es)
  show ?thesis
  proof (cases "map_of es k")
    case None
    then have "map_of (evict_oldest es) k = None"
      using map_of_evict_sub by (metis not_Some_eq)
    with None Pair show ?thesis by (simp add: ttl_stored_def map_add_def)
  next
    case (Some e)
    with Pair show ?thesis by (cases e) (simp add: ttl_stored_def)
  qed
qed

lemma ttl_stored_set_other:
  "k' \<noteq> k \<Longrightarrow> ttl_room (Suc n) c \<Longrightarrow> ttl_stored (ttl_set t ttl k v c) k' = ttl_stored c k'"
  by (cases c) (auto simp: ref_eval map_add_def split: option.split)

lemma ttl_stored_set_other_sound:
  "k' \<noteq> k \<Longrightarrow> ttl_stored (ttl_set t ttl k v c) k' = Some e \<Longrightarrow> ttl_stored c k' = Some e"
proof (cases c)
  case (Pair cap es)
  assume ne: "k' \<noteq> k" and "ttl_stored (ttl_set t ttl k v c) k' = Some e"
  with Pair have "map_of es k' = Some e \<or> map_of (evict_oldest es) k' = Some e"
    by (simp add: ttl_stored_def map_add_def split: option.splits prod.splits if_splits)
  with Pair show ?thesis by (auto simp: ttl_stored_def dest: map_of_evict_sub)
qed

lemma ttl_room_set: "ttl_room (Suc n) c \<Longrightarrow> ttl_room n (ttl_set t ttl k v c)"
  by (cases c) (auto simp: ttl_room_def length_mput_old split: option.split)

interpretation ttl: otter_cache ttl_ops ttl_stored ttl_room
proof (unfold_locales, goal_cases)
  case (1 t k c)
  show ?case by (simp add: ref_eval)
next
  case (2 n c t k ttl v)
  then show ?case using ttl_stored_set_same [of t ttl k v c]
    by (auto simp: ttl_ops_def live_None_iff split: option.splits)
next
  case (3 n c k w d t ttl v)
  then show ?case using ttl_stored_set_same [of t ttl k v c]
    by (auto simp: ttl_ops_def)
next
  case (4 n c k' k t t' ttl v)
  then show ?case by (simp add: ttl_ops_def ttl_stored_set_other)
next
  case (5 t ttl k v c w d)
  then show ?case using ttl_stored_set_same [of t ttl k v c]
    by (auto simp: ttl_ops_def split: option.splits if_splits)
next
  case (6 k' k t ttl v c e)
  then show ?case by (auto simp: ttl_ops_def dest: ttl_stored_set_other_sound)
next
  case (7 t k c)
  show ?case by (simp add: ref_eval)
next
  case (8 t k c)
  show ?case by (simp add: ref_eval)
next
  case (9 c k)
  show ?case by (simp add: ref_eval)
next
  case (10 t c)
  show ?case by (simp add: ttl_ops_def comp_def)
next
  case (11 k v t c)
  then show ?case
    by (auto simp: ref_eval dest!: weak_map_of_SomeI)
next
  case (12 t c k v)
  then obtain d where "map_of (snd c) k = Some (v, d)" by (auto simp: ttl_stored_def live_Some_iff)
  moreover from this have "k \<in> fst ` set (snd c)" by (metis map_of_eq_None_iff option.distinct(1))
  ultimately show ?case by (force simp: ttl_ops_def)
next
  case (13 n c)
  then show ?case by (simp add: ttl_room_def)
next
  case (14 n c t ttl k v)
  then show ?case by (simp add: ttl_ops_def ttl_room_set)
next
  case (15 n c t k)
  then show ?case using length_mdel [of k "snd c"] by (simp add: ref_eval)
qed

section \<open>consistent: a consistent-hash ring\<close>

record 'r ring =
  ring_GetMembers :: "'r \<Rightarrow> string list"
  ring_Add :: "string \<Rightarrow> 'r \<Rightarrow> 'r"
  ring_Remove :: "string \<Rightarrow> 'r \<Rightarrow> 'r"
  ring_LocateKey :: "'r \<Rightarrow> string \<Rightarrow> string option"

text \<open>
  Membership is a set; a located owner is a member, a non-empty ring locates every key, and the
  owner is a function of the set of members (not of the order in which they were added).
\<close>

locale consistent_ring =
  fixes rg :: "'r ring"
  assumes members_distinct: "distinct (ring_GetMembers rg r)"
    and members_add: "set (ring_GetMembers rg (ring_Add rg n r)) = insert n (set (ring_GetMembers rg r))"
    and members_remove: "set (ring_GetMembers rg (ring_Remove rg n r)) = set (ring_GetMembers rg r) - {n}"
    and locate_member: "ring_LocateKey rg r k = Some n \<Longrightarrow> n \<in> set (ring_GetMembers rg r)"
    and locate_total: "ring_GetMembers rg r \<noteq> [] \<Longrightarrow> ring_LocateKey rg r k \<noteq> None"
    and locate_members: "set (ring_GetMembers rg r) = set (ring_GetMembers rg r') \<Longrightarrow>
      ring_LocateKey rg r k = ring_LocateKey rg r' k"

text \<open>The reference ring: the sorted members, indexed by the byte sum of the key.\<close>

definition byte_sum :: "string \<Rightarrow> nat" where
  "byte_sum k = sum_list (map of_char k)"

definition list_ring :: "string list ring" where
  "list_ring =
     \<lparr>ring_GetMembers = remdups,
      ring_Add = (\<lambda>n r. if n \<in> set r then r else r @ [n]),
      ring_Remove = (\<lambda>n r. filter (\<lambda>m. m \<noteq> n) r),
      ring_LocateKey = (\<lambda>r k. let ms = sort (remdups r) in
         if ms = [] then None else Some (ms ! (byte_sum k mod length ms)))\<rparr>"

interpretation lring: consistent_ring list_ring
proof (unfold_locales, goal_cases)
  case (1 r)
  show ?case by (simp add: list_ring_def)
next
  case (2 n r)
  show ?case by (auto simp: list_ring_def)
next
  case (3 n r)
  show ?case by (auto simp: list_ring_def)
next
  case (4 r k n)
  then have ne: "sort (remdups r) \<noteq> []" and n: "n = sort (remdups r) ! (byte_sum k mod length (sort (remdups r)))"
    by (auto simp: list_ring_def Let_def split: if_splits)
  from ne have "n \<in> set (sort (remdups r))"
    unfolding n by (intro nth_mem mod_less_divisor) (simp only: length_greater_0_conv not_False_eq_True)
  then show ?case by (simp add: list_ring_def)
next
  case (5 r k)
  then show ?case by (simp add: list_ring_def Let_def) (metis remdups_eq_nil_iff set_empty set_remdups set_sort)
next
  case (6 r r' k)
  then have "sort (remdups r) = sort (remdups r')"
    by (simp add: list_ring_def sorted_distinct_set_unique)
  then show ?case by (simp add: list_ring_def)
qed

section \<open>go-immutable-radix: a prefix tree\<close>

record ('t, 'v) radix =
  radix_New :: 't
  radix_Insert :: "string \<Rightarrow> 'v \<Rightarrow> 't \<Rightarrow> 't"
  radix_LongestPrefix :: "'t \<Rightarrow> string \<Rightarrow> (string \<times> 'v) option"

locale radix_tree =
  fixes rx :: "('t, 'v) radix"
    and contents :: "'t \<Rightarrow> string \<Rightarrow> 'v option"
  assumes new: "contents (radix_New rx) k = None"
    and insert: "contents (radix_Insert rx k v t) = (contents t)(k \<mapsto> v)"
    and longest_Some: "radix_LongestPrefix rx t s = Some (k, v) \<Longrightarrow>
      contents t k = Some v \<and> prefix k s \<and>
      (\<forall>k'. contents t k' \<noteq> None \<and> prefix k' s \<longrightarrow> length k' \<le> length k)"
    and longest_None: "radix_LongestPrefix rx t s = None \<Longrightarrow> prefix k s \<Longrightarrow> contents t k = None"

text \<open>The reference tree: an association list, searched from the longest candidate down.\<close>

fun longest_from :: "(string \<times> 'v) list \<Rightarrow> string \<Rightarrow> nat \<Rightarrow> (string \<times> 'v) option" where
  "longest_from m s 0 = (case map_of m [] of Some v \<Rightarrow> Some ([], v) | None \<Rightarrow> None)"
| "longest_from m s (Suc n) =
     (case map_of m (take (Suc n) s) of
        Some v \<Rightarrow> Some (take (Suc n) s, v)
      | None \<Rightarrow> longest_from m s n)"

definition list_radix :: "((string \<times> 'v) list, 'v) radix" where
  "list_radix =
     \<lparr>radix_New = [], radix_Insert = mput, radix_LongestPrefix = (\<lambda>m s. longest_from m s (length s))\<rparr>"

lemma longest_from_Some:
  "longest_from m s n = Some (k, v) \<Longrightarrow>
     map_of m k = Some v \<and> prefix k s \<and>
     (\<forall>j. j \<le> n \<and> map_of m (take j s) \<noteq> None \<longrightarrow> length (take j s) \<le> length k)"
proof (induction m s n rule: longest_from.induct)
  case (1 m s)
  then show ?case by (auto split: option.splits)
next
  case (2 m s n)
  show ?case
  proof (cases "map_of m (take (Suc n) s)")
    case None
    with 2 have IH: "map_of m k = Some v \<and> prefix k s \<and>
      (\<forall>j. j \<le> n \<and> map_of m (take j s) \<noteq> None \<longrightarrow> length (take j s) \<le> length k)" by simp
    with None show ?thesis by (auto simp: le_Suc_eq)
  next
    case (Some w)
    with "2.prems" show ?thesis by (auto simp: take_is_prefix)
  qed
qed

lemma longest_from_None:
  "longest_from m s n = None \<Longrightarrow> j \<le> n \<Longrightarrow> map_of m (take j s) = None"
  by (induction m s n rule: longest_from.induct) (auto simp: le_Suc_eq split: option.splits)

lemma prefix_take: "prefix k s \<Longrightarrow> k = take (length k) s \<and> length k \<le> length s"
  by (auto simp: prefix_def)

interpretation lradix: radix_tree list_radix map_of
proof (unfold_locales, goal_cases)
  case (1 k)
  show ?case by (simp add: list_radix_def)
next
  case (2 k v t)
  show ?case by (simp add: list_radix_def)
next
  case (3 t s k v)
  then have "longest_from t s (length s) = Some (k, v)" by (simp add: list_radix_def)
  from longest_from_Some [OF this] show ?case by (metis prefix_take)
next
  case (4 t s k)
  then show ?case
    using longest_from_None [of t s "length s" "length k"] prefix_take by (fastforce simp: list_radix_def)
qed

section \<open>Serialisers\<close>

text \<open>
  \<open>msgpack\<close>, \<open>protobuf\<close> and \<open>zstd\<close>: a writer that may fail and a reader that gives back what was
  written. Wire data is a list over any alphabet; the sources only test it for emptiness.
\<close>

locale codec =
  fixes enc :: "'a \<Rightarrow> 'w list option"
    and dec :: "'w list \<Rightarrow> 'a option"
  assumes dec_enc: "enc x = Some b \<Longrightarrow> dec b = Some x"

text \<open>\<open>msgpack\<close> writes at least one byte for every value; \<open>protobuf\<close> writes none for an empty message.\<close>

locale nonempty_codec = codec +
  assumes enc_nonempty: "enc x = Some b \<Longrightarrow> b \<noteq> []"

definition cell_enc :: "'a \<Rightarrow> 'a list option" where
  "cell_enc x = Some [x]"

fun cell_dec :: "'a list \<Rightarrow> 'a option" where
  "cell_dec [x] = Some x"
| "cell_dec _ = None"

interpretation cell: nonempty_codec cell_enc cell_dec
  by unfold_locales (auto simp: cell_enc_def)

end
