(* ===== verification/Entity.thy ===== *)
theory Entity
  imports Libs
begin

text \<open>
  Package \<open>internal/model\<close>: the rate-limiting identity \<open>Entity\<close>, its canonical text, its hash and its
  cache key. The hash function xxHash-64 is the parameter \<open>xx\<close>.
\<close>

record entity =
  IP :: string
  Path :: string
  Headers :: strmap

record blockedEntityInfo =
  bei_Key :: string
  bei_ExpiresAt :: gotime
  bei_Entity :: "entity option"

text \<open>The canonical form written by \<open>Entity.Hash\<close> before hashing: the header keys are sorted.\<close>

definition entityCanonical :: "entity \<Rightarrow> string" where
  "entityCanonical e =
     IP e @ ''|'' @ Path e @
     concat (map (\<lambda>k. ''|'' @ k @ '':'' @ mstr (Headers e) k) (sort (mkeys (Headers e))))"

definition Hash :: "(string \<Rightarrow> uint64) \<Rightarrow> entity \<Rightarrow> uint64" where
  "Hash xx e = xx (entityCanonical e)"

definition HashToEntityKey :: "uint64 \<Rightarrow> string" where
  "HashToEntityKey h = hexpad 16 (unat h)"

definition Key :: "(string \<Rightarrow> uint64) \<Rightarrow> entity \<Rightarrow> string" where
  "Key xx e = HashToEntityKey (Hash xx e)"

definition EntityKeyToHash :: "string \<Rightarrow> numError + uint64" where
  "EntityKeyToHash s = ParseUint16_64 s"

section \<open>Keys\<close>

lemma length_HashToEntityKey [simp]: "length (HashToEntityKey h) = 16"
  by (simp add: HashToEntityKey_def)

lemma HashToEntityKey_not_empty [simp]: "HashToEntityKey h \<noteq> []"
  by (metis length_HashToEntityKey list.size(3) zero_neq_numeral)

lemma Key_not_empty [simp]: "Key xx e \<noteq> []"
  by (simp add: Key_def)

lemma key_hash_roundtrip: "EntityKeyToHash (HashToEntityKey h) = Inr h"
proof -
  have "unat h < 2 ^ LENGTH(64)" by (rule unsigned_less)
  then have "unat h < 16 ^ 16" by simp
  then have "parse_hex_loop 0 (hexpad 16 (unat h)) = Inr (unat h)"
    by (rule parse_hex_loop_hexpad) simp
  moreover have "hexpad 16 (unat h) \<noteq> []"
    by (metis length_hexpad list.size(3) zero_neq_numeral)
  ultimately show ?thesis
    by (simp add: EntityKeyToHash_def HashToEntityKey_def ParseUint16_64_def)
qed

lemma HashToEntityKey_inject [simp]: "HashToEntityKey h = HashToEntityKey h' \<longleftrightarrow> h = h'"
  by (metis Inr_inject key_hash_roundtrip)

text \<open>
  Formatting an entity hash as a cache key and parsing the key back gives the same hash, and
  two hashes with the same key are equal: the hexadecimal key loses nothing.
\<close>

theorem entity_key_roundtrip:
  "EntityKeyToHash (HashToEntityKey h) = Inr h \<and> (HashToEntityKey h = HashToEntityKey h' \<longleftrightarrow> h = h')"
  by (simp add: key_hash_roundtrip)

section \<open>The hash does not depend on the order of the headers\<close>

lemma entityCanonical_perm:
  assumes "distinct (mkeys m)" and "distinct (mkeys m')" and "set m = set m'"
  shows "entityCanonical (e\<lparr>Headers := m\<rparr>) = entityCanonical (e\<lparr>Headers := m'\<rparr>)"
proof -
  have "map_of m = map_of m'" using assms by (rule map_of_perm)
  then have "mstr m = mstr m'" by (simp add: mstr_def fun_eq_iff)
  moreover have "sort (mkeys m) = sort (mkeys m')"
    using assms by (simp add: sorted_distinct_set_unique)
  ultimately show ?thesis by (simp add: entityCanonical_def)
qed

text \<open>
  \<open>Entity.Hash\<close> is order-independent: two header maps with the same pairs give the same hash
  and the same cache key, whatever order the map iteration visits them in.
\<close>

theorem hash_order_independent:
  assumes "distinct (mkeys m)" and "distinct (mkeys m')" and "set m = set m'"
  shows "Hash xx (e\<lparr>Headers := m\<rparr>) = Hash xx (e\<lparr>Headers := m'\<rparr>) \<and>
    Key xx (e\<lparr>Headers := m\<rparr>) = Key xx (e\<lparr>Headers := m'\<rparr>)"
  using entityCanonical_perm [OF assms] by (simp_all add: Hash_def Key_def)

theorem hash_order_independent_witness:
  "Hash (\<lambda>s. of_nat (length s)) \<lparr>IP = ''10.0.0.1'', Path = ''/api'', Headers = [(''b'', ''2''), (''a'', ''1'')]\<rparr>
   = Hash (\<lambda>s. of_nat (length s)) \<lparr>IP = ''10.0.0.1'', Path = ''/api'', Headers = [(''a'', ''1''), (''b'', ''2'')]\<rparr>"
  using hash_order_independent [of "[(''b'', ''2''), (''a'', ''1'')]" "[(''a'', ''1''), (''b'', ''2'')]"
      "\<lambda>s. of_nat (length s)" "\<lparr>IP = ''10.0.0.1'', Path = ''/api'', Headers = []\<rparr>"]
  by (simp add: insert_commute)

section \<open>The canonical form is ambiguous\<close>

text \<open>
  C36. The separators of the canonical form are not escaped, so it does not identify the entity: a
  header value holding \<open>|\<close> and \<open>:\<close> stands for two headers, and the two entities share one key
  (and so one counter and one block entry) under every hash function.
\<close>

theorem entity_key_collision:
  "\<exists>e e'. e \<noteq> e' \<and> Headers e \<noteq> Headers e' \<and> (\<forall>xx. Key xx e = Key xx e')"
proof -
  let ?e = "\<lparr>IP = ''10.0.0.1'', Path = ''/api'', Headers = [(''a'', ''1|b:2'')]\<rparr>"
  let ?e' = "\<lparr>IP = ''10.0.0.1'', Path = ''/api'', Headers = [(''a'', ''1''), (''b'', ''2'')]\<rparr>"
  have "entityCanonical ?e = entityCanonical ?e'"
    by (simp add: entityCanonical_def mstr_def)
  then have "\<forall>xx. Key xx ?e = Key xx ?e'" by (simp add: Key_def Hash_def)
  moreover have "?e \<noteq> ?e'" and "Headers ?e \<noteq> Headers ?e'" by simp_all
  ultimately show ?thesis by blast
qed

end
