(* ===== verification/Messages.thy ===== *)
theory Messages
  imports Entity
begin

text \<open>
  The messages nodes exchange (\<open>internal/proto/accounting.proto\<close> and \<open>channel.proto\<close>; the generated Go
  structs have these fields) and the effects the components have on the outside: packets handed to
  the transport and updates of the metrics registry (\<open>internal/metrics\<close>), in the order the code
  performs them. Bytes are abstract: \<open>'w\<close> is the alphabet of packets and \<open>'z\<close> that of the compressed
  body of a handover.
\<close>

record counterEntry =
  EntityHash :: uint64
  Hits :: uint64

record counterBatch =
  cb_SenderId :: uint64
  cb_Timestamp :: uint64
  cb_Entries :: "counterEntry list"

record blockEvent =
  ev_Key :: string
  ev_TtlNanos :: int
  ev_EntityIp :: string
  ev_EntityPath :: string
  ev_EntityHdrs :: strmap

record blockEventWithExpiresAt =
  ex_Key :: string
  ex_ExpiresAtNanos :: int
  ex_EntityIp :: string
  ex_EntityPath :: string
  ex_EntityHdrs :: strmap

record 'z handoverPayload =
  hp_SenderId :: uint64
  hp_Timestamp :: uint64
  hp_CompressedEntries :: "'z list"
  hp_EntityCount :: uint64

datatype 'z drlMessage =
    Counters counterBatch
  | BlockMsg blockEvent
  | UnblockMsg string
  | HandoverMsg "'z handoverPayload"
  | BlockWithExpiresAtMsg blockEventWithExpiresAt
  | NoContent

datatype channelMessage =
    Ch_BlockWithExpiresAt blockEventWithExpiresAt
  | Ch_Unblock string
  | Ch_Unknown

section \<open>Effects\<close>

datatype metricEvent =
    IncAccountingLocal | IncAccountingRemote | IncAccountingFlush | IncAccountingMsgRecv
  | IncMembershipBestEffort | IncMembershipReliable
  | IncAccountingBulkLoad string
  | IncRateLimitBlock string string | IncRateLimitBucketExhausted string | IncRateLimitTokensConsumed string
  | SetRateLimitTokensCurrent string real
  | ObserveSyncDuration duration
  | AddHandoverOut nat | ObserveHandoverDuration int | IncHandoverFailed | AddHandoverIn nat
  | IncEvent string | SetClusterSize nat
  | IncMembershipChannelMsgsRecv
  | IncGRPCCheck | IncGRPCResponseCode string
  | IncProxyRequest string string string | IncProxyError string string string | ObserveProxyLatency string string duration
  | IncOIDCRequest string string string | ObserveOIDCLatency string string duration
  | IncCacheHit string | IncCacheMiss string | IncCacheEviction string | SetCacheMemory string int64
  | IncMembershipChannelMsgsSent | IncMembershipChannelConnections | DecMembershipChannelConnections | IncMembershipChannelErrors
  | ObservePropagationLatency real

text \<open>
  \<open>SendBestEffort\<close> and \<open>SendReliable\<close> are memberlist's UDP and TCP sends to an address; \<open>ChannelSend\<close>
  queues a message on the persistent channel to a peer.
\<close>

datatype 'w effect =
    Metric metricEvent
  | SendBestEffort string "'w list"
  | SendReliable string "'w list"
  | ChannelSend string channelMessage

text \<open>The hits for one entity in a list of counter entries.\<close>

definition entry_hits :: "uint64 \<Rightarrow> counterEntry list \<Rightarrow> uint64" where
  "entry_hits h es = sum_list (map (\<lambda>e. if EntityHash e = h then Hits e else 0) es)"

definition toEntries :: "(uint64 \<times> uint64) list \<Rightarrow> counterEntry list" where
  "toEntries m = map (\<lambda>(h, n). \<lparr>EntityHash = h, Hits = n\<rparr>) m"

lemma entry_hits_append [simp]: "entry_hits h (xs @ ys) = entry_hits h xs + entry_hits h ys"
  by (simp add: entry_hits_def)

lemma entry_hits_none: "h \<notin> set (mkeys m) \<Longrightarrow> entry_hits h (toEntries m) = 0"
  by (induction m) (auto simp: entry_hits_def toEntries_def)

lemma entry_hits_toEntries: "distinct (mkeys m) \<Longrightarrow> entry_hits h (toEntries m) = mval m h"
proof (induction m)
  case (Cons e m)
  then show ?case using entry_hits_none [of h m]
    by (cases e) (auto simp: entry_hits_def toEntries_def mval_def)
qed (simp add: entry_hits_def toEntries_def mval_def)

end
