(* ===== verification/Channel.thy ===== *)
theory Channel
  imports Messages
begin

text \<open>
  Package \<open>internal/membership\<close>, file \<open>channel.go\<close>: the persistent channels between cluster members. The
  manager keeps a map from peer address to a pointer to a \<open>peerChannel\<close>; several goroutines hold such
  a pointer, so the model keeps the pointers (\<open>cm_peers\<close> maps to an address of \<open>cm_heap\<close>). The gRPC
  stream of a channel is the log \<open>pc_wire\<close> of the messages written to it. The goroutines are the
  transitions of the step relation \<open>cm_step\<close>; each transition is what one goroutine does under one lock
  or in one channel operation.
\<close>

record peerChannel =
  pc_addr :: string
  pc_sendCh :: "channelMessage list"
  pc_wire :: "channelMessage list"
  pc_dialer :: bool
  pc_closed :: bool

record channelManager =
  cm_localAddr :: string
  cm_port :: int
  cm_peers :: "(string \<times> nat) list"
  cm_heap :: "nat \<Rightarrow> peerChannel"
  cm_next :: nat
  cm_connections :: int

definition channelSendBuffer :: nat where
  "channelSendBuffer = 256"

definition NewChannelManager :: "string \<Rightarrow> int \<Rightarrow> channelManager" where
  "NewChannelManager localAddr port =
     \<lparr>cm_localAddr = localAddr, cm_port = port, cm_peers = [],
      cm_heap = (\<lambda>_. \<lparr>pc_addr = '''', pc_sendCh = [], pc_wire = [], pc_dialer = False, pc_closed = True\<rparr>),
      cm_next = 0, cm_connections = 0\<rparr>"

text \<open>\<open>EstablishForPeer\<close>: whether the local node starts a goroutine that dials the peer.\<close>

definition EstablishForPeer :: "string \<Rightarrow> channelManager \<Rightarrow> bool" where
  "EstablishForPeer remoteAddr cm =
     (if remoteAddr = '''' \<or> remoteAddr = cm_localAddr cm then False
      else if remoteAddr \<le> cm_localAddr cm then False
      else map_of (cm_peers cm) remoteAddr = None)"

definition registerPeer :: "string \<Rightarrow> bool \<Rightarrow> channelManager \<Rightarrow> nat option \<times> channelManager" where
  "registerPeer addr dialer cm =
     (if map_of (cm_peers cm) addr \<noteq> None then (None, cm)
      else let p = cm_next cm
           in (Some p, cm\<lparr>cm_peers := mput addr p (cm_peers cm),
                          cm_heap := (cm_heap cm)(p := \<lparr>pc_addr = addr, pc_sendCh = [], pc_wire = [],
                                                       pc_dialer = dialer, pc_closed = False\<rparr>),
                          cm_next := Suc p, cm_connections := cm_connections cm + 1\<rparr>))"

text \<open>\<open>teardownPeer\<close>: the body runs once per pointer (\<open>sync.Once\<close>).\<close>

definition teardownPeer :: "string \<Rightarrow> nat \<Rightarrow> channelManager \<Rightarrow> channelManager" where
  "teardownPeer addr p cm =
     (if pc_closed (cm_heap cm p) then cm
      else cm\<lparr>cm_peers := (if map_of (cm_peers cm) addr = Some p then mdel addr (cm_peers cm) else cm_peers cm),
              cm_heap := (cm_heap cm)(p := (cm_heap cm p)\<lparr>pc_closed := True\<rparr>),
              cm_connections := cm_connections cm - 1\<rparr>)"

text \<open>
  \<open>connect\<close>: dialling and opening the stream are gRPC calls; their outcome is an argument. The result is
  the pointer the receive loop runs on, and whether the error counter was incremented.
\<close>

datatype dialOutcome = DialError | StreamError | StreamOpen

definition connect :: "string \<Rightarrow> dialOutcome \<Rightarrow> channelManager \<Rightarrow> (nat option \<times> bool) \<times> channelManager" where
  "connect remoteAddr outcome cm =
     (case outcome of
        DialError \<Rightarrow> ((None, True), cm)
      | StreamError \<Rightarrow> ((None, True), cm)
      | StreamOpen \<Rightarrow> (case registerPeer remoteAddr True cm of (p, cm') \<Rightarrow> ((p, False), cm')))"

text \<open>\<open>extractPeerAddr\<close> and the entry of the acceptor side \<open>Stream\<close>.\<close>

definition extractPeerAddr :: "(string \<times> string list) list option \<Rightarrow> string" where
  "extractPeerAddr md =
     (case md of
        None \<Rightarrow> ''''
      | Some m \<Rightarrow> (case map_of m ''x-drl-node-addr'' of Some (v # _) \<Rightarrow> v | _ \<Rightarrow> ''''))"

datatype streamError = InvalidArgument | AlreadyExists

definition streamAccept ::
  "(string \<times> string list) list option \<Rightarrow> channelManager \<Rightarrow> (streamError + nat) \<times> channelManager" where
  "streamAccept md cm =
     (let remoteAddr = extractPeerAddr md
      in if remoteAddr = '''' then (Inl InvalidArgument, cm)
         else case registerPeer remoteAddr False cm of
                (None, cm') \<Rightarrow> (Inl AlreadyExists, cm')
              | (Some p, cm') \<Rightarrow> (Inr p, cm'))"

text \<open>
  \<open>Send\<close> looks the peer up under the lock, releases it, and then sends on the channel it found: two
  separate atomic actions. A send on a closed Go channel panics.
\<close>

datatype sendResult = SendOk | SendNoChannel | SendBufferFull | SendPanic

definition Send_lookup :: "string \<Rightarrow> channelManager \<Rightarrow> nat option" where
  "Send_lookup addr cm = map_of (cm_peers cm) addr"

definition Send_enqueue :: "nat \<Rightarrow> channelMessage \<Rightarrow> channelManager \<Rightarrow> sendResult \<times> channelManager" where
  "Send_enqueue p msg cm =
     (let pc = cm_heap cm p
      in if pc_closed pc then (SendPanic, cm)
         else if length (pc_sendCh pc) < channelSendBuffer
         then (SendOk, cm\<lparr>cm_heap := (cm_heap cm)(p := pc\<lparr>pc_sendCh := pc_sendCh pc @ [msg]\<rparr>)\<rparr>)
         else (SendBufferFull, cm))"

definition Send :: "string \<Rightarrow> channelMessage \<Rightarrow> channelManager \<Rightarrow> sendResult \<times> channelManager" where
  "Send addr msg cm =
     (case Send_lookup addr cm of
        None \<Rightarrow> (SendNoChannel, cm)
      | Some p \<Rightarrow> Send_enqueue p msg cm)"

text \<open>
  One round of \<open>writeLoop\<close>: take the next message and write it to the stream (\<open>ok\<close> says whether the write
  succeeds). A closed channel is still drained; a failed write tears the peer down.
\<close>

definition writeLoop_step :: "nat \<Rightarrow> bool \<Rightarrow> channelManager \<Rightarrow> channelManager" where
  "writeLoop_step p ok cm =
     (let pc = cm_heap cm p
      in case pc_sendCh pc of
           [] \<Rightarrow> cm
         | msg # rest \<Rightarrow>
             if ok then cm\<lparr>cm_heap := (cm_heap cm)(p := pc\<lparr>pc_sendCh := rest, pc_wire := pc_wire pc @ [msg]\<rparr>)\<rparr>
             else teardownPeer (pc_addr pc) p (cm\<lparr>cm_heap := (cm_heap cm)(p := pc\<lparr>pc_sendCh := rest\<rparr>)\<rparr>))"

definition IsConnected :: "string \<Rightarrow> channelManager \<Rightarrow> bool" where
  "IsConnected addr cm \<longleftrightarrow> map_of (cm_peers cm) addr \<noteq> None"

definition PeerCount :: "channelManager \<Rightarrow> nat" where
  "PeerCount cm = length (cm_peers cm)"

definition Close :: "string \<Rightarrow> channelManager \<Rightarrow> channelManager" where
  "Close addr cm =
     (case map_of (cm_peers cm) addr of
        None \<Rightarrow> cm
      | Some p \<Rightarrow> teardownPeer addr p cm)"

definition Stop :: "channelManager \<Rightarrow> channelManager" where
  "Stop cm = fold (\<lambda>(_, p) c. teardownPeer (pc_addr (cm_heap c p)) p c) (cm_peers cm) cm"

section \<open>The goroutines as a step relation\<close>

text \<open>
  \<open>StepConnect\<close> is the dialling goroutine, started in an earlier state \<open>cm0\<close>.
  \<open>StepRecvEnd\<close> is either receive loop ending (the peer closed, the connection dropped, or the close
  signal); it holds its pointer from registration on, so it may run late.
\<close>

inductive cm_step :: "channelManager \<Rightarrow> channelManager \<Rightarrow> bool" where
  StepConnect: "EstablishForPeer addr cm0 \<Longrightarrow> cm_step cm (snd (connect addr outcome cm))"
| StepAccept: "cm_step cm (snd (streamAccept md cm))"
| StepRecvEnd: "p < cm_next cm \<Longrightarrow> cm_step cm (teardownPeer (pc_addr (cm_heap cm p)) p cm)"
| StepSend: "p < cm_next cm \<Longrightarrow> cm_step cm (snd (Send_enqueue p msg cm))"
| StepWrite: "p < cm_next cm \<Longrightarrow> cm_step cm (writeLoop_step p ok cm)"
| StepClose: "cm_step cm (Close addr cm)"

inductive cm_reachable :: "channelManager \<Rightarrow> channelManager \<Rightarrow> bool" for cm0 where
  Init: "cm_reachable cm0 cm0"
| Step: "cm_reachable cm0 cm \<Longrightarrow> cm_step cm cm' \<Longrightarrow> cm_reachable cm0 cm'"

text \<open>
  The invariant: the map holds exactly the open channels, each under its own address; queues never
  exceed their capacity; the connection gauge counts the map.
\<close>

definition cm_inv :: "channelManager \<Rightarrow> bool" where
  "cm_inv cm \<longleftrightarrow>
     distinct (mkeys (cm_peers cm)) \<and>
     (\<forall>addr p. map_of (cm_peers cm) addr = Some p \<longleftrightarrow>
        p < cm_next cm \<and> \<not> pc_closed (cm_heap cm p) \<and> pc_addr (cm_heap cm p) = addr) \<and>
     (\<forall>p. length (pc_sendCh (cm_heap cm p)) \<le> channelSendBuffer) \<and>
     cm_connections cm = int (length (cm_peers cm))"

lemma cm_invD:
  assumes "cm_inv cm"
  shows "distinct (mkeys (cm_peers cm))"
    and "map_of (cm_peers cm) addr = Some p \<longleftrightarrow> p < cm_next cm \<and> \<not> pc_closed (cm_heap cm p) \<and> pc_addr (cm_heap cm p) = addr"
    and "length (pc_sendCh (cm_heap cm p)) \<le> channelSendBuffer"
    and "cm_connections cm = int (length (cm_peers cm))"
  using assms by (auto simp: cm_inv_def)

lemma cm_inv_New: "cm_inv (NewChannelManager a port)"
  by (simp add: cm_inv_def NewChannelManager_def)

lemma length_mput_new: "map_of m k = None \<Longrightarrow> length (mput k v m) = Suc (length m)"
  by (induction k v m rule: mput.induct) (auto split: if_splits)

lemma mdel_other: "k \<notin> set (mkeys m) \<Longrightarrow> mdel k m = m"
  by (induction m) (auto simp: mdel_def)

lemma length_mdel_old:
  "distinct (mkeys m) \<Longrightarrow> map_of m k = Some v \<Longrightarrow> Suc (length (mdel k m)) = length m"
proof (induction m)
  case (Cons e m)
  then show ?case using mdel_other [of k m] by (cases e) (auto simp: mdel_def split: if_splits)
qed simp

lemma registerPeer_inv:
  assumes "cm_inv cm"
  shows "cm_inv (snd (registerPeer addr d cm))"
proof (cases "map_of (cm_peers cm) addr")
  case None
  then have "\<not> (p < cm_next cm \<and> \<not> pc_closed (cm_heap cm p) \<and> pc_addr (cm_heap cm p) = addr)" for p
    using cm_invD(2) [OF assms, of addr p] by simp
  with None assms show ?thesis
    by (auto simp: registerPeer_def Let_def cm_inv_def length_mput_new less_Suc_eq channelSendBuffer_def)
qed (use assms in \<open>simp add: registerPeer_def\<close>)

lemma teardownPeer_inv:
  assumes inv: "cm_inv cm" and p: "p < cm_next cm"
  shows "cm_inv (teardownPeer (pc_addr (cm_heap cm p)) p cm)"
proof (cases "pc_closed (cm_heap cm p)")
  case False
  let ?a = "pc_addr (cm_heap cm p)"
  have m: "map_of (cm_peers cm) ?a = Some p" using cm_invD(2) [OF inv] p False by blast
  have other: "q = p" if "q < cm_next cm" "\<not> pc_closed (cm_heap cm q)" "pc_addr (cm_heap cm q) = ?a" for q
    using cm_invD(2) [OF inv, of ?a q] that m by simp
  have "Suc (length (mdel ?a (cm_peers cm))) = length (cm_peers cm)"
    by (rule length_mdel_old [OF cm_invD(1) [OF inv] m])
  then have "int (length (mdel ?a (cm_peers cm))) = int (length (cm_peers cm)) - 1" by linarith
  then show ?thesis
    using False m other inv unfolding cm_inv_def by (auto simp: teardownPeer_def)
qed (use inv in \<open>simp add: teardownPeer_def\<close>)

lemma heap_update_inv:
  assumes "cm_inv cm" and "pc_closed pc = pc_closed (cm_heap cm p)" and "pc_addr pc = pc_addr (cm_heap cm p)"
    and "length (pc_sendCh pc) \<le> channelSendBuffer"
  shows "cm_inv (cm\<lparr>cm_heap := (cm_heap cm)(p := pc)\<rparr>)"
  using assms by (simp add: cm_inv_def)

lemma Send_enqueue_inv: "cm_inv cm \<Longrightarrow> cm_inv (snd (Send_enqueue p msg cm))"
  by (auto simp: Send_enqueue_def Let_def intro!: heap_update_inv)

lemma writeLoop_inv:
  assumes "cm_inv cm" and "p < cm_next cm"
  shows "cm_inv (writeLoop_step p ok cm)"
proof (cases "pc_sendCh (cm_heap cm p)")
  case (Cons msg rest)
  let ?pc = "cm_heap cm p"
  have len: "length rest \<le> channelSendBuffer" using cm_invD(3) [OF assms(1), of p] Cons by simp
  have "cm_inv (cm\<lparr>cm_heap := (cm_heap cm)(p := ?pc\<lparr>pc_sendCh := rest, pc_wire := pc_wire ?pc @ [msg]\<rparr>)\<rparr>)"
    using assms len by (intro heap_update_inv) simp_all
  moreover have "cm_inv (cm\<lparr>cm_heap := (cm_heap cm)(p := ?pc\<lparr>pc_sendCh := rest\<rparr>)\<rparr>)"
    using assms len by (intro heap_update_inv) simp_all
  from teardownPeer_inv [OF this, of p] have "cm_inv (teardownPeer (pc_addr ?pc) p
      (cm\<lparr>cm_heap := (cm_heap cm)(p := ?pc\<lparr>pc_sendCh := rest\<rparr>)\<rparr>))" using assms(2) by simp
  ultimately show ?thesis by (simp add: writeLoop_step_def Let_def Cons)
qed (use assms in \<open>simp add: writeLoop_step_def Let_def\<close>)

lemma Close_inv: "cm_inv cm \<Longrightarrow> cm_inv (Close addr cm)"
proof (cases "map_of (cm_peers cm) addr")
  case (Some p)
  assume inv: "cm_inv cm"
  with Some have "p < cm_next cm" "pc_addr (cm_heap cm p) = addr" by (auto simp: cm_invD(2))
  with Some teardownPeer_inv [OF inv] show ?thesis by (auto simp: Close_def)
qed (simp add: Close_def)

lemma cm_step_inv: "cm_step cm cm' \<Longrightarrow> cm_inv cm \<Longrightarrow> cm_inv cm'"
proof (induction rule: cm_step.induct)
  case (StepConnect addr cm0 cm outcome)
  then show ?case using registerPeer_inv [of cm addr True]
    by (auto simp: connect_def split: dialOutcome.split prod.split)
next
  case (StepAccept cm md)
  then show ?case using registerPeer_inv [of cm "extractPeerAddr md" False]
    by (auto simp: streamAccept_def Let_def split: option.split prod.split)
qed (simp_all add: teardownPeer_inv Send_enqueue_inv writeLoop_inv Close_inv)

lemma cm_reachable_inv: "cm_reachable cm0 cm \<Longrightarrow> cm_inv cm0 \<Longrightarrow> cm_inv cm"
  by (induction rule: cm_reachable.induct) (auto intro: cm_step_inv)

section \<open>Properties\<close>

text \<open>
  C29. Exactly one side dials: of two nodes with different, non-empty addresses and no channel between
  them yet, exactly one starts a connection when each learns of the other.
\<close>

theorem exactly_one_dials:
  assumes "cm_localAddr cm \<noteq> cm_localAddr cm'" and "cm_localAddr cm \<noteq> ''''" and "cm_localAddr cm' \<noteq> ''''"
    and "\<not> IsConnected (cm_localAddr cm') cm" and "\<not> IsConnected (cm_localAddr cm) cm'"
  shows "EstablishForPeer (cm_localAddr cm') cm \<noteq> EstablishForPeer (cm_localAddr cm) cm'"
  using assms linorder_linear [of "cm_localAddr cm" "cm_localAddr cm'"] order.antisym
  by (auto simp: EstablishForPeer_def IsConnected_def)

theorem exactly_one_dials_witness:
  "EstablishForPeer ''10.0.0.2'' (NewChannelManager ''10.0.0.1'' 7956) \<noteq>
   EstablishForPeer ''10.0.0.1'' (NewChannelManager ''10.0.0.2'' 7956)"
  using exactly_one_dials [of "NewChannelManager ''10.0.0.1'' 7956" "NewChannelManager ''10.0.0.2'' 7956"]
  by (simp add: NewChannelManager_def IsConnected_def)



text \<open>
  Teardown runs once and never hits the wrong channel: repeating it changes nothing, and a late
  teardown of a channel that has been replaced leaves the new channel to the same peer in place.
\<close>

theorem teardown_once:
  assumes "cm_inv cm" and "p < cm_next cm"
  defines "cm1 \<equiv> teardownPeer (pc_addr (cm_heap cm p)) p cm"
  shows "teardownPeer addr p cm1 = cm1 \<and> \<not> IsConnected (pc_addr (cm_heap cm p)) cm1 \<or>
    (\<exists>q. q \<noteq> p \<and> Send_lookup (pc_addr (cm_heap cm p)) cm = Some q \<and> cm1 = cm)"
proof (cases "pc_closed (cm_heap cm p)")
  case True
  then have "cm1 = cm" by (simp add: cm1_def teardownPeer_def)
  with True show ?thesis
    using cm_invD(2) [OF assms(1), of "pc_addr (cm_heap cm p)"]
    by (cases "Send_lookup (pc_addr (cm_heap cm p)) cm") (auto simp: Send_lookup_def IsConnected_def teardownPeer_def)
next
  case False
  then have "map_of (cm_peers cm) (pc_addr (cm_heap cm p)) = Some p" using cm_invD(2) [OF assms(1)] assms(2) by blast
  with False show ?thesis by (simp add: cm1_def teardownPeer_def IsConnected_def)
qed

theorem teardown_once_witness:
  "let c1 = snd (connect ''10.0.0.2'' StreamOpen (NewChannelManager ''10.0.0.1'' 7956))
   in teardownPeer ''10.0.0.2'' 0 (teardownPeer ''10.0.0.2'' 0 c1) = teardownPeer ''10.0.0.2'' 0 c1"
proof -
  let ?c1 = "snd (connect ''10.0.0.2'' StreamOpen (NewChannelManager ''10.0.0.1'' 7956))"
  have "cm_inv ?c1"
    using registerPeer_inv [OF cm_inv_New, of "''10.0.0.2''" True "''10.0.0.1''" 7956]
    by (simp add: connect_def case_prod_unfold)
  moreover have "0 < cm_next ?c1" "pc_addr (cm_heap ?c1 0) = ''10.0.0.2''" "Send_lookup ''10.0.0.2'' ?c1 = Some 0"
    by (simp_all add: connect_def registerPeer_def NewChannelManager_def Send_lookup_def)
  ultimately show ?thesis using teardown_once [of ?c1 0 "''10.0.0.2''"] by (auto simp: Let_def)
qed

text \<open>
  The lookup and the send of \<open>Send\<close> are not one atomic step: between them the peer may be torn
  down, which closes the channel that was looked up, and the send then panics. For every open
  channel there is such a schedule of reachable steps.
\<close>

theorem send_after_teardown_panics:
  assumes "cm_inv cm" and "Send_lookup addr cm = Some p"
  shows "\<exists>cm'. cm_step cm cm' \<and> fst (Send_enqueue p msg cm') = SendPanic"
proof -
  have p: "p < cm_next cm" "pc_addr (cm_heap cm p) = addr" "\<not> pc_closed (cm_heap cm p)"
    using assms by (simp_all add: Send_lookup_def cm_invD(2))
  then have "cm_step cm (teardownPeer addr p cm)" using cm_step.StepRecvEnd [of p cm] by simp
  moreover have "fst (Send_enqueue p msg (teardownPeer addr p cm)) = SendPanic"
    using p by (simp add: Send_enqueue_def teardownPeer_def Let_def)
  ultimately show ?thesis by blast
qed

theorem send_after_teardown_panics_witness:
  "\<exists>cm'. cm_step (snd (connect ''10.0.0.2'' StreamOpen (NewChannelManager ''10.0.0.1'' 7956))) cm' \<and>
     fst (Send_enqueue 0 (Ch_Unblock ''k'') cm') = SendPanic"
proof -
  let ?c1 = "snd (connect ''10.0.0.2'' StreamOpen (NewChannelManager ''10.0.0.1'' 7956))"
  have "cm_inv ?c1"
    using registerPeer_inv [OF cm_inv_New, of "''10.0.0.2''" True "''10.0.0.1''" 7956]
    by (simp add: connect_def case_prod_unfold)
  moreover have "Send_lookup ''10.0.0.2'' ?c1 = Some 0"
    by (simp add: connect_def registerPeer_def NewChannelManager_def Send_lookup_def)
  ultimately show ?thesis by (rule send_after_teardown_panics)
qed

section \<open>Order of delivery\<close>

text \<open>The messages a sequence of sends and writes on one channel accepts.\<close>

datatype channelOp = OpSend channelMessage | OpWrite

fun chanStep :: "nat \<Rightarrow> channelOp \<Rightarrow> channelManager \<Rightarrow> sendResult option \<times> channelManager" where
  "chanStep p (OpSend m) cm = map_prod Some id (Send_enqueue p m cm)"
| "chanStep p OpWrite cm = (None, writeLoop_step p True cm)"

fun chanRun :: "nat \<Rightarrow> channelOp list \<Rightarrow> channelManager \<Rightarrow> channelMessage list \<times> channelManager" where
  "chanRun p [] cm = ([], cm)"
| "chanRun p (op # ops) cm =
     (case chanStep p op cm of (r, cm1) \<Rightarrow>
      case chanRun p ops cm1 of (acc, cm2) \<Rightarrow>
        ((case op of OpSend m \<Rightarrow> if r = Some SendOk then [m] else [] | OpWrite \<Rightarrow> []) @ acc, cm2))"

text \<open>
  First in, first out: while a channel stays open, what has been written to its stream followed by
  what is still queued is exactly what was there before followed by the accepted messages in the
  order they were sent. Nothing accepted is dropped, duplicated or reordered.
\<close>

theorem channel_fifo:
  "case chanRun p ops cm of (acc, cm') \<Rightarrow>
     pc_wire (cm_heap cm' p) @ pc_sendCh (cm_heap cm' p) = pc_wire (cm_heap cm p) @ pc_sendCh (cm_heap cm p) @ acc"
proof (induction p ops cm rule: chanRun.induct)
  case (2 p op ops cm)
  obtain r cm1 where s: "chanStep p op cm = (r, cm1)" by fastforce
  obtain acc cm2 where c: "chanRun p ops cm1 = (acc, cm2)" by fastforce
  have "pc_wire (cm_heap cm1 p) @ pc_sendCh (cm_heap cm1 p) = pc_wire (cm_heap cm p) @ pc_sendCh (cm_heap cm p) @
      (case op of OpSend m \<Rightarrow> if r = Some SendOk then [m] else [] | OpWrite \<Rightarrow> [])"
    using s by (cases op) (auto simp: Send_enqueue_def writeLoop_step_def Let_def split: if_splits list.splits)
  with 2 [OF s [symmetric]] s c show ?case by simp
qed simp

end
