(* ===== verification/Blocklist.thy ===== *)
theory Blocklist
  imports Entity
begin

text \<open>
  Package \<open>internal/cache\<close>, file \<open>blocklist.go\<close>: the replicated blocklist. Its store is an otter cache,
  passed as the operations record \<open>ot\<close>; \<open>now\<close> is the clock reading of the call (one reading per
  operation). The hit and miss callbacks are recorded in \<open>bc_calls\<close>. Log lines are dropped.
\<close>

record blocklistEntry =
  be_Key :: string
  be_ExpiresAt :: gotime
  be_EntityIP :: string
  be_EntityPath :: string
  be_EntityHdrs :: strmap

record blocklistEntryData =
  bd_expiresAt :: gotime
  bd_entity :: "entity option"

datatype cacheCall = OnHit | OnMiss | OnEvict

record 'b blocklistCache =
  bc_cache :: 'b
  bc_maxCost :: int
  bc_calls :: "cacheCall list"

type_synonym 'b bl_ops = "('b, blocklistEntryData) otter"

text \<open>\<open>NewBlocklistCache\<close>; \<open>mk\<close> stands for \<open>otter.New\<close> with the maximum weight.\<close>

definition NewBlocklistCache :: "(uint64 \<Rightarrow> 'b option) \<Rightarrow> int \<Rightarrow> 'b blocklistCache option" where
  "NewBlocklistCache mk maxSizeMB =
     (let maxCost = wrap64 (maxSizeMB * 1024 * 1024) in
      case mk (of_int maxCost) of
        None \<Rightarrow> None
      | Some cache \<Rightarrow> Some \<lparr>bc_cache = cache, bc_maxCost = maxCost, bc_calls = []\<rparr>)"

text \<open>The \<open>ExpiryCalculator\<close> configured for the cache.\<close>

definition blocklist_expiry :: "gotime \<Rightarrow> blocklistEntryData \<Rightarrow> duration" where
  "blocklist_expiry now d = (let ttl = bd_expiresAt d - now in if ttl \<le> 0 then Millisecond else ttl)"

definition bl_Set :: "'b bl_ops \<Rightarrow> gotime \<Rightarrow> string \<Rightarrow> blocklistEntryData \<Rightarrow> 'b blocklistCache \<Rightarrow> 'b blocklistCache" where
  "bl_Set ot now key d b = b\<lparr>bc_cache := otter_Set ot now (blocklist_expiry now d) key d (bc_cache b)\<rparr>"

text \<open>\<open>IsBlockedWithExpiration\<close>: \<open>None\<close> for \<open>found = false\<close>.\<close>

definition IsBlockedWithExpiration ::
  "'b bl_ops \<Rightarrow> gotime \<Rightarrow> string \<Rightarrow> 'b blocklistCache \<Rightarrow> gotime option \<times> 'b blocklistCache" where
  "IsBlockedWithExpiration ot now key b =
     (case otter_GetIfPresent ot now key (bc_cache b) of
        None \<Rightarrow> (None, b\<lparr>bc_calls := bc_calls b @ [OnMiss]\<rparr>)
      | Some data \<Rightarrow> (Some (bd_expiresAt data), b\<lparr>bc_calls := bc_calls b @ [OnHit]\<rparr>))"

definition IsBlocked :: "'b bl_ops \<Rightarrow> gotime \<Rightarrow> string \<Rightarrow> 'b blocklistCache \<Rightarrow> bool \<times> 'b blocklistCache" where
  "IsBlocked ot now key b =
     (case IsBlockedWithExpiration ot now key b of (r, b') \<Rightarrow> (r \<noteq> None, b'))"

definition BlockWithExpiresAt ::
  "'b bl_ops \<Rightarrow> gotime \<Rightarrow> string \<Rightarrow> gotime \<Rightarrow> entity option \<Rightarrow> 'b blocklistCache \<Rightarrow> 'b blocklistCache" where
  "BlockWithExpiresAt ot now key expiresAt entity b =
     (case otter_GetIfPresent ot now key (bc_cache b) of
        Some existing \<Rightarrow>
          if \<not> bd_expiresAt existing < expiresAt then b
          else bl_Set ot now key \<lparr>bd_expiresAt = expiresAt, bd_entity = entity\<rparr> b
      | None \<Rightarrow> bl_Set ot now key \<lparr>bd_expiresAt = expiresAt, bd_entity = entity\<rparr> b)"

definition Block ::
  "'b bl_ops \<Rightarrow> gotime \<Rightarrow> string \<Rightarrow> duration \<Rightarrow> entity option \<Rightarrow> 'b blocklistCache \<Rightarrow> 'b blocklistCache" where
  "Block ot now key ttl entity b =
     (let expiresAt = now + ttl in bl_Set ot now key \<lparr>bd_expiresAt = expiresAt, bd_entity = entity\<rparr> b)"

definition Unblock :: "'b bl_ops \<Rightarrow> gotime \<Rightarrow> string \<Rightarrow> 'b blocklistCache \<Rightarrow> 'b blocklistCache" where
  "Unblock ot now key b = b\<lparr>bc_cache := snd (otter_Invalidate ot now key (bc_cache b))\<rparr>"

definition ListEntries :: "'b bl_ops \<Rightarrow> gotime \<Rightarrow> 'b blocklistCache \<Rightarrow> blockedEntityInfo list" where
  "ListEntries ot now b =
     map (\<lambda>(key, data). \<lparr>bei_Key = key, bei_ExpiresAt = bd_expiresAt data, bei_Entity = bd_entity data\<rparr>)
       (filter (\<lambda>(key, data). now < bd_expiresAt data) (otter_All ot now (bc_cache b)))"

definition toEntry :: "string \<times> blocklistEntryData \<Rightarrow> blocklistEntry" where
  "toEntry kd =
     (case kd of (key, data) \<Rightarrow>
        let entry = \<lparr>be_Key = key, be_ExpiresAt = bd_expiresAt data, be_EntityIP = '''',
                     be_EntityPath = '''', be_EntityHdrs = []\<rparr>
        in case bd_entity data of
             None \<Rightarrow> entry
           | Some e \<Rightarrow> entry\<lparr>be_EntityIP := IP e, be_EntityPath := Path e, be_EntityHdrs := Headers e\<rparr>)"

definition Entries :: "'b bl_ops \<Rightarrow> gotime \<Rightarrow> 'b blocklistCache \<Rightarrow> blocklistEntry list" where
  "Entries ot now b =
     map toEntry (filter (\<lambda>(key, data). now < bd_expiresAt data) (otter_All ot now (bc_cache b)))"

text \<open>\<open>GetState\<close>; \<open>marshal\<close> stands for \<open>msgpack.Marshal\<close> and \<open>None\<close> for its error.\<close>

definition GetState ::
  "'b bl_ops \<Rightarrow> (blocklistEntry list \<Rightarrow> 'w list option) \<Rightarrow> gotime \<Rightarrow> 'b blocklistCache \<Rightarrow> 'w list option" where
  "GetState ot marshal now b =
     (let entries = map toEntry (filter (\<lambda>(key, data). now < bd_expiresAt data) (otter_All ot now (bc_cache b)))
      in marshal entries)"

text \<open>One iteration of the loop of \<open>MergeState\<close>.\<close>

definition receivedEntity :: "blocklistEntry \<Rightarrow> entity option" where
  "receivedEntity entry =
     (if be_EntityIP entry \<noteq> '''' \<or> be_EntityPath entry \<noteq> ''''
      then Some \<lparr>IP = be_EntityIP entry, Path = be_EntityPath entry, Headers = be_EntityHdrs entry\<rparr>
      else None)"

definition mergeEntry ::
  "(string \<Rightarrow> uint64) \<Rightarrow> 'b bl_ops \<Rightarrow> gotime \<Rightarrow> blocklistEntry \<Rightarrow> 'b blocklistCache \<Rightarrow> 'b blocklistCache" where
  "mergeEntry xx ot now entry b =
     (if \<not> now < be_ExpiresAt entry then b
      else case receivedEntity entry of
             None \<Rightarrow> b
           | Some e \<Rightarrow>
               let received = \<lparr>bd_expiresAt = be_ExpiresAt entry, bd_entity = Some e\<rparr>;
                   cacheKey = Key xx e
               in case otter_GetIfPresent ot now cacheKey (bc_cache b) of
                    None \<Rightarrow> bl_Set ot now cacheKey received b
                  | Some existing \<Rightarrow>
                      if bd_expiresAt existing < bd_expiresAt received
                      then bl_Set ot now cacheKey received b else b)"

definition MergeState ::
  "(string \<Rightarrow> uint64) \<Rightarrow> 'b bl_ops \<Rightarrow> ('w list \<Rightarrow> blocklistEntry list option) \<Rightarrow> gotime \<Rightarrow> 'w list \<Rightarrow>
   'b blocklistCache \<Rightarrow> bool \<times> 'b blocklistCache" where
  "MergeState xx ot unmarshal now data b =
     (if data = [] then (True, b)
      else case unmarshal data of
             None \<Rightarrow> (False, b)
           | Some entries \<Rightarrow> (True, fold (mergeEntry xx ot now) entries b))"

definition Count :: "'b bl_ops \<Rightarrow> 'b blocklistCache \<Rightarrow> nat" where
  "Count ot b = otter_EstimatedSize ot (bc_cache b)"

definition Clear :: "'b bl_ops \<Rightarrow> 'b blocklistCache \<Rightarrow> 'b blocklistCache" where
  "Clear ot b = b\<lparr>bc_cache := otter_InvalidateAll ot (bc_cache b)\<rparr>"

definition CostEstimate :: "'b bl_ops \<Rightarrow> gotime \<Rightarrow> 'b blocklistCache \<Rightarrow> int" where
  "CostEstimate ot now b = sum_list (map (\<lambda>e. 100) (Entries ot now b))"

section \<open>The contract of the blocklist\<close>

text \<open>
  What the engine, the gRPC server, the proxy and the admin API rely on (the Go interfaces
  \<open>BlocklistEnforcer\<close>, \<open>BlocklistChecker\<close> and \<open>BlocklistOperator\<close>): \<open>blk t k s\<close> is the expiry of the block
  of key \<open>k\<close> seen at time \<open>t\<close>, if any.
\<close>

locale blocklist_store =
  fixes blk :: "gotime \<Rightarrow> string \<Rightarrow> 's \<Rightarrow> gotime option"
    and block :: "gotime \<Rightarrow> string \<Rightarrow> duration \<Rightarrow> entity option \<Rightarrow> 's \<Rightarrow> 's"
    and blockAt :: "gotime \<Rightarrow> string \<Rightarrow> gotime \<Rightarrow> entity option \<Rightarrow> 's \<Rightarrow> 's"
    and unblock :: "gotime \<Rightarrow> string \<Rightarrow> 's \<Rightarrow> 's"
    and ok :: "nat \<Rightarrow> 's \<Rightarrow> bool"
  assumes block_same: "ok (Suc n) s \<Longrightarrow> blk t k (block t k ttl e s) = Some (t + ttl)"
    and block_fresh: "ok (Suc n) s \<Longrightarrow> blk t k s = None \<Longrightarrow> 0 < ttl \<Longrightarrow>
      blk t' k (block t k ttl e s) = (if t' < t + ttl then Some (t + ttl) else None)"
    and block_other: "ok (Suc n) s \<Longrightarrow> k' \<noteq> k \<Longrightarrow> t \<le> t' \<Longrightarrow> blk t' k' (block t k ttl e s) = blk t' k' s"
    and block_sound: "blk t' k' (block t k ttl e s) = Some x \<Longrightarrow> k' \<noteq> k \<Longrightarrow> blk t' k' s = Some x"
    and blockAt_same: "ok (Suc n) s \<Longrightarrow>
      blk t k (blockAt t k x e s) = Some (case blk t k s of None \<Rightarrow> x | Some y \<Rightarrow> max x y)"
    and blockAt_fresh: "ok (Suc n) s \<Longrightarrow> blk t k s = None \<Longrightarrow> t < x \<Longrightarrow>
      blk t' k (blockAt t k x e s) = (if t' < x then Some x else None)"
    and blockAt_other: "ok (Suc n) s \<Longrightarrow> k' \<noteq> k \<Longrightarrow> t \<le> t' \<Longrightarrow> blk t' k' (blockAt t k x e s) = blk t' k' s"
    and unblock_blk: "blk t' k' (unblock t k s) = (if k' = k then None else blk t' k' s)"
    and ok_less: "ok (Suc n) s \<Longrightarrow> ok n s"
    and ok_block: "ok (Suc n) s \<Longrightarrow> ok n (block t k ttl e s)"
    and ok_blockAt: "ok (Suc n) s \<Longrightarrow> ok n (blockAt t k x e s)"
    and ok_unblock: "ok n s \<Longrightarrow> ok n (unblock t k s)"
begin

text \<open>A sequence of absolute block events applied at one time.\<close>

definition applyAll :: "gotime \<Rightarrow> (string \<times> gotime \<times> entity option) list \<Rightarrow> 's \<Rightarrow> 's" where
  "applyAll t evs = fold (\<lambda>(k, x, e). blockAt t k x e) evs"

definition latest :: "gotime option \<Rightarrow> gotime set \<Rightarrow> gotime option" where
  "latest y xs = (if y = None \<and> xs = {} then None else Some (Max (set_option y \<union> xs)))"

lemma latest_insert: "finite xs \<Longrightarrow> latest (Some (case y of None \<Rightarrow> x | Some z \<Rightarrow> max x z)) xs = latest y (insert x xs)"
  by (cases y; cases "xs = {}") (auto simp: latest_def max.commute max.left_commute)

lemma blk_applyAll:
  "ok (length evs) s \<Longrightarrow> blk t k (applyAll t evs s) = latest (blk t k s) {x. \<exists>e. (k, x, e) \<in> set evs}"
proof (induction evs arbitrary: s)
  case Nil
  then show ?case by (auto simp: applyAll_def latest_def)
next
  case (Cons ev evs)
  obtain k1 x1 e1 where ev: "ev = (k1, x1, e1)" by (cases ev)
  let ?s' = "blockAt t k1 x1 e1 s"
  have fin: "finite {x. \<exists>e. (k, x, e) \<in> set evs}"
    by (rule finite_subset [of _ "(fst \<circ> snd) ` set evs"]) force+
  have "blk t k (applyAll t evs ?s') = latest (blk t k ?s') {x. \<exists>e. (k, x, e) \<in> set evs}"
    using Cons.prems by (intro Cons.IH ok_blockAt) simp
  also have "\<dots> = latest (blk t k s) {x. \<exists>e. (k, x, e) \<in> set (ev # evs)}"
  proof (cases "k = k1")
    case True
    then have "{x. \<exists>e. (k, x, e) \<in> set (ev # evs)} = insert x1 {x. \<exists>e. (k, x, e) \<in> set evs}"
      by (auto simp: ev)
    with True Cons.prems fin show ?thesis by (simp add: blockAt_same latest_insert)
  next
    case False
    then have "{x. \<exists>e. (k, x, e) \<in> set (ev # evs)} = {x. \<exists>e. (k, x, e) \<in> set evs}" by (auto simp: ev)
    moreover have "blk t k ?s' = blk t k s" using False Cons.prems by (intro blockAt_other) auto
    ultimately show ?thesis by simp
  qed
  finally show ?case by (simp add: applyAll_def ev)
qed

text \<open>Order and repetition of the events do not matter.\<close>

lemma applyAll_converges:
  "ok (length evs) s \<Longrightarrow> ok (length evs') s \<Longrightarrow> set evs = set evs' \<Longrightarrow>
     blk t k (applyAll t evs s) = blk t k (applyAll t evs' s)"
  by (simp add: blk_applyAll)

end

section \<open>The cache meets the contract\<close>

definition blocked_until :: "'b bl_ops \<Rightarrow> gotime \<Rightarrow> string \<Rightarrow> 'b blocklistCache \<Rightarrow> gotime option" where
  "blocked_until ot t k b = fst (IsBlockedWithExpiration ot t k b)"

lemma blocked_until_eq:
  "blocked_until ot t k b = map_option bd_expiresAt (otter_GetIfPresent ot t k (bc_cache b))"
  by (simp add: blocked_until_def IsBlockedWithExpiration_def split: option.split)

lemma IsBlocked_iff: "fst (IsBlocked ot t k b) \<longleftrightarrow> blocked_until ot t k b \<noteq> None"
  by (simp add: IsBlocked_def blocked_until_def split: prod.split)

lemma blocked_until_calls [simp]: "blocked_until ot t k (b\<lparr>bc_calls := cs\<rparr>) = blocked_until ot t k b"
  by (simp add: blocked_until_eq)

lemma IsBlockedWithExpiration_same:
  "IsBlockedWithExpiration ot t k b = (blocked_until ot t k b, b\<lparr>bc_calls := bc_calls b @
     [if blocked_until ot t k b = None then OnMiss else OnHit]\<rparr>)"
  by (simp add: blocked_until_eq IsBlockedWithExpiration_def split: option.split)

lemma bc_cache_bl_Set [simp]:
  "bc_cache (bl_Set ot t k d b) = otter_Set ot t (blocklist_expiry t d) k d (bc_cache b)"
  by (simp add: bl_Set_def)

lemma blocklist_expiry_pos [simp]: "0 < blocklist_expiry t d"
  by (simp add: blocklist_expiry_def Let_def Millisecond_def)

lemma blocklist_expiry_future: "t < bd_expiresAt d \<Longrightarrow> t + blocklist_expiry t d = bd_expiresAt d"
  by (simp add: blocklist_expiry_def Let_def)

lemma Block_eq: "Block ot t k ttl e b = bl_Set ot t k \<lparr>bd_expiresAt = t + ttl, bd_entity = e\<rparr> b"
  by (simp add: Block_def Let_def)

lemma BlockWithExpiresAt_eq:
  "BlockWithExpiresAt ot t k x e b =
     (if \<exists>y. blocked_until ot t k b = Some y \<and> x \<le> y then b
      else bl_Set ot t k \<lparr>bd_expiresAt = x, bd_entity = e\<rparr> b)"
  by (auto simp: BlockWithExpiresAt_def blocked_until_eq split: option.split)

locale blocklist_cache = otter_cache ot stored room
  for ot :: "'b bl_ops" and stored and room
begin

lemma until_set_same:
  "room (Suc n) (bc_cache b) \<Longrightarrow> blocked_until ot t k (bl_Set ot t k d b) = Some (bd_expiresAt d)"
  by (simp add: blocked_until_eq get_set_same)

lemma until_set_fresh:
  "room (Suc n) (bc_cache b) \<Longrightarrow> blocked_until ot t k b = None \<Longrightarrow> t < bd_expiresAt d \<Longrightarrow>
     blocked_until ot t' k (bl_Set ot t k d b) = (if t' < bd_expiresAt d then Some (bd_expiresAt d) else None)"
  by (simp add: blocked_until_eq get_set_new blocklist_expiry_future)

lemma until_set_other:
  "room (Suc n) (bc_cache b) \<Longrightarrow> k' \<noteq> k \<Longrightarrow> t \<le> t' \<Longrightarrow>
     blocked_until ot t' k' (bl_Set ot t k d b) = blocked_until ot t' k' b"
  by (simp add: blocked_until_eq get_set_other)

lemma until_set_sound:
  "blocked_until ot t' k' (bl_Set ot t k d b) = Some x \<Longrightarrow> k' \<noteq> k \<Longrightarrow> blocked_until ot t' k' b = Some x"
  by (auto simp: blocked_until_eq dest!: get_set_sound)

end

sublocale blocklist_cache \<subseteq> store: blocklist_store "blocked_until ot" "Block ot" "BlockWithExpiresAt ot"
  "Unblock ot" "\<lambda>n b. room n (bc_cache b)"
proof (unfold_locales, goal_cases)
  case (1 n s t k ttl e)
  then show ?case by (simp add: Block_eq until_set_same)
next
  case (2 n s t k ttl t' e)
  then show ?case by (simp add: Block_eq until_set_fresh)
next
  case (3 n s k' k t t' ttl e)
  then show ?case by (simp add: Block_eq until_set_other)
next
  case (4 t' k' t k ttl e s x)
  then show ?case unfolding Block_eq by (rule until_set_sound)
next
  case (5 n s t k x e)
  then show ?case by (auto simp: BlockWithExpiresAt_eq until_set_same split: option.split)
next
  case (6 n s t k x t' e)
  then show ?case by (simp add: BlockWithExpiresAt_eq until_set_fresh)
next
  case (7 n s k' k t t' x e)
  then show ?case by (simp add: BlockWithExpiresAt_eq until_set_other)
next
  case (8 t' k' t k s)
  show ?case by (simp add: blocked_until_eq Unblock_def get_inval)
next
  case (9 n s)
  then show ?case by (rule room_less)
next
  case (10 n s t k ttl e)
  then show ?case by (simp add: Block_eq room_set)
next
  case (11 n s t k x e)
  then show ?case by (simp add: BlockWithExpiresAt_eq room_set room_less)
next
  case (12 n s t k)
  then show ?case by (simp add: Unblock_def room_inval)
qed

interpretation blttl: blocklist_cache ttl_ops ttl_stored ttl_room
  by unfold_locales

section \<open>State exchange\<close>

text \<open>On an unexpired entry that carries its entity, a merge step is an absolute block of the entity's key.\<close>

lemma mergeEntry_eq:
  "mergeEntry xx ot t en b =
     (case receivedEntity en of
        Some e \<Rightarrow> if t < be_ExpiresAt en then BlockWithExpiresAt ot t (Key xx e) (be_ExpiresAt en) (Some e) b else b
      | None \<Rightarrow> b)"
  by (auto simp: mergeEntry_def BlockWithExpiresAt_def Let_def split: option.split)

text \<open>The block events a received state stands for.\<close>

definition stateEvents :: "(string \<Rightarrow> uint64) \<Rightarrow> gotime \<Rightarrow> blocklistEntry list \<Rightarrow> (string \<times> gotime \<times> entity option) list" where
  "stateEvents xx t ens =
     concat (map (\<lambda>en. case receivedEntity en of
                         Some e \<Rightarrow> if t < be_ExpiresAt en then [(Key xx e, be_ExpiresAt en, Some e)] else []
                       | None \<Rightarrow> []) ens)"

lemma length_stateEvents: "length (stateEvents xx t ens) \<le> length ens"
  by (induction ens) (auto simp: stateEvents_def split: option.split)

context blocklist_cache
begin

lemma fold_mergeEntry: "fold (mergeEntry xx ot t) ens b = store.applyAll t (stateEvents xx t ens) b"
  by (induction ens arbitrary: b)
     (auto simp: stateEvents_def store.applyAll_def mergeEntry_eq split: option.split)

lemma until_merge:
  assumes "room (length ens) (bc_cache b)"
  shows "blocked_until ot t k (fold (mergeEntry xx ot t) ens b) =
    store.latest (blocked_until ot t k b) {x. \<exists>e. (k, x, e) \<in> set (stateEvents xx t ens)}"
  unfolding fold_mergeEntry
  by (intro store.blk_applyAll room_le [OF assms] length_stateEvents)

end

section \<open>Properties\<close>

text \<open>A sequence of received block events.\<close>

definition deliver ::
  "'b bl_ops \<Rightarrow> gotime \<Rightarrow> (string \<times> gotime \<times> entity option) list \<Rightarrow> 'b blocklistCache \<Rightarrow> 'b blocklistCache" where
  "deliver ot t evs b = fold (\<lambda>(k, x, e). BlockWithExpiresAt ot t k x e) evs b"

context blocklist_cache
begin

lemma until_Block_exact:
  assumes "room (Suc n) (bc_cache b)" and "blocked_until ot t k b = None" and "0 < ttl" and "t \<le> t'"
  shows "blocked_until ot t' k' (Block ot t k ttl e b) =
      (if k' = k then if t' < t + ttl then Some (t + ttl) else None else blocked_until ot t' k' b) \<and>
    blocked_until ot t' k' (Unblock ot t'' k (Block ot t k ttl e b)) =
      (if k' = k then None else blocked_until ot t' k' b)"
  using assms store.block_fresh store.block_other store.unblock_blk by simp

lemma until_Block:
  assumes "room (Suc n) (bc_cache b)"
  shows "blocked_until ot t k' (Block ot t k ttl e b) = (if k' = k then Some (t + ttl) else blocked_until ot t k' b)"
  using store.block_same [OF assms] store.block_other [OF assms] by simp

lemma deliver_eq: "deliver ot t evs b = store.applyAll t evs b"
  by (simp add: deliver_def store.applyAll_def)

lemma until_deliver:
  assumes "room (length evs) (bc_cache b)"
  shows "blocked_until ot t k (deliver ot t evs b) =
    (let held = set_option (blocked_until ot t k b) \<union> (fst \<circ> snd) ` {ev \<in> set evs. fst ev = k}
     in if held = {} then None else Some (Max held))"
proof -
  have "(fst \<circ> snd) ` {ev \<in> set evs. fst ev = k} = {x. \<exists>e. (k, x, e) \<in> set evs}" by force
  then show ?thesis
    using store.blk_applyAll [OF assms] by (auto simp: deliver_eq store.latest_def Let_def)
qed

end

definition emptyBlocklist :: "blocklistEntryData ttl_map blocklistCache" where
  "emptyBlocklist = \<lparr>bc_cache = ttl_empty, bc_maxCost = 100, bc_calls = []\<rparr>"

declare emptyBlocklist_def [ref_eval]

lemma emptyBlocklist_room: "n \<le> 1000 \<Longrightarrow> ttl_room n (bc_cache emptyBlocklist)"
  by (simp add: ref_eval)

lemma emptyBlocklist_until: "blocked_until ttl_ops t k emptyBlocklist = None"
  by (simp add: ref_eval blocked_until_eq)

lemma blocklist_cacheI: "otter_cache ot stored room \<Longrightarrow> blocklist_cache ot stored room"
  by (rule blocklist_cache.intro)





text \<open>
  A node's blocklist can be sent to another node when every unexpired entry carries the entity it was
  computed from (its key is that entity's key and the entity has an address or a path).
\<close>

definition syncable :: "(string \<Rightarrow> uint64) \<Rightarrow> 'b bl_ops \<Rightarrow> gotime \<Rightarrow> 'b blocklistCache \<Rightarrow> bool" where
  "syncable xx ot t b =
     list_all (\<lambda>(k, d). t < bd_expiresAt d \<longrightarrow>
       (case bd_entity d of None \<Rightarrow> False | Some e \<Rightarrow> Key xx e = k \<and> (IP e \<noteq> '''' \<or> Path e \<noteq> '''')))
     (otter_All ot t (bc_cache b))"

lemma receivedEntity_toEntry:
  "bd_entity d = Some e \<Longrightarrow> IP e \<noteq> '''' \<or> Path e \<noteq> '''' \<Longrightarrow> receivedEntity (toEntry (k, d)) = Some e"
  by (simp add: receivedEntity_def toEntry_def)

lemma be_ExpiresAt_toEntry [simp]: "be_ExpiresAt (toEntry (k, d)) = bd_expiresAt d"
  by (simp add: toEntry_def Let_def split: option.split)

lemma stateEvents_syncable:
  assumes "syncable xx ot t b"
  shows "(k, x, e) \<in> set (stateEvents xx t (Entries ot t b)) \<longleftrightarrow>
    (k, \<lparr>bd_expiresAt = x, bd_entity = e\<rparr>) \<in> set (otter_All ot t (bc_cache b)) \<and> t < x"
    (is "?L \<longleftrightarrow> ?R")
proof
  assume ?L
  then obtain k' d where d: "(k', d) \<in> set (otter_All ot t (bc_cache b))" "t < bd_expiresAt d"
      "(k, x, e) \<in> set (stateEvents xx t [toEntry (k', d)])"
    by (auto simp: stateEvents_def Entries_def)
  moreover from d assms obtain e' where "bd_entity d = Some e'" "Key xx e' = k'" "IP e' \<noteq> '''' \<or> Path e' \<noteq> ''''"
    by (force simp: syncable_def list_all_iff split: option.splits)
  ultimately show ?R by (cases d) (auto simp: stateEvents_def receivedEntity_toEntry)
next
  assume R: ?R
  with assms obtain e' where e': "e = Some e'" "Key xx e' = k" "IP e' \<noteq> '''' \<or> Path e' \<noteq> ''''"
    by (force simp: syncable_def list_all_iff split: option.splits)
  let ?d = "\<lparr>bd_expiresAt = x, bd_entity = e\<rparr>"
  have "(k, x, e) \<in> set (stateEvents xx t [toEntry (k, ?d)])"
    using R e' by (simp add: stateEvents_def receivedEntity_toEntry)
  moreover from R have "toEntry (k, ?d) \<in> set (Entries ot t b)" by (force simp: Entries_def)
  ultimately show ?L by (force simp: stateEvents_def)
qed

context blocklist_cache
begin

lemma until_sync:
  assumes sy: "syncable xx ot t b" and r: "room (length (Entries ot t b)) (bc_cache c)"
  defines "c' \<equiv> fold (mergeEntry xx ot t) (Entries ot t b) c"
  shows "blocked_until ot t k b = Some x \<Longrightarrow> t < x \<Longrightarrow> \<exists>y\<ge>x. blocked_until ot t k c' = Some y"
    and "blocked_until ot t k c = Some x \<Longrightarrow> \<exists>y\<ge>x. blocked_until ot t k c' = Some y"
    and "blocked_until ot t k c' = Some y \<Longrightarrow> blocked_until ot t k c \<noteq> Some y \<Longrightarrow>
      \<exists>e. (k, \<lparr>bd_expiresAt = y, bd_entity = e\<rparr>) \<in> set (otter_All ot t (bc_cache b)) \<and> t < y"
proof -
  let ?xs = "{x. \<exists>e. (k, x, e) \<in> set (stateEvents xx t (Entries ot t b))}"
  have fin: "finite ?xs"
    by (rule finite_subset [of _ "(fst \<circ> snd) ` set (stateEvents xx t (Entries ot t b))"]) force+
  have c': "blocked_until ot t k c' = store.latest (blocked_until ot t k c) ?xs"
    unfolding c'_def using r by (rule until_merge)
  { assume "blocked_until ot t k b = Some x" "t < x"
    then obtain e where "(k, \<lparr>bd_expiresAt = x, bd_entity = e\<rparr>) \<in> set (otter_All ot t (bc_cache b))"
      by (auto simp: blocked_until_eq get) (metis all_complete blocklistEntryData.surjective old.unit.exhaust)
    with \<open>t < x\<close> have "x \<in> ?xs" using stateEvents_syncable [OF sy] by blast
    then show "\<exists>y\<ge>x. blocked_until ot t k c' = Some y"
      using fin by (auto simp: c' store.latest_def intro!: Max_ge) }
  { assume "blocked_until ot t k c = Some x"
    then show "\<exists>y\<ge>x. blocked_until ot t k c' = Some y" using fin by (auto simp: c' store.latest_def) }
  { assume y: "blocked_until ot t k c' = Some y" "blocked_until ot t k c \<noteq> Some y"
    then have ymax: "y = Max (set_option (blocked_until ot t k c) \<union> ?xs)"
        and ne: "set_option (blocked_until ot t k c) \<union> ?xs \<noteq> {}"
      by (auto simp: c' store.latest_def split: if_splits)
    have "finite (set_option (blocked_until ot t k c) \<union> ?xs)"
      using fin by (cases "blocked_until ot t k c") auto
    from Max_in [OF this ne] have "y \<in> set_option (blocked_until ot t k c) \<union> ?xs" unfolding ymax .
    with y(2) have "y \<in> ?xs" by auto
    then show "\<exists>e. (k, \<lparr>bd_expiresAt = y, bd_entity = e\<rparr>) \<in> set (otter_All ot t (bc_cache b)) \<and> t < y"
      using stateEvents_syncable [OF sy] by blast }
qed

end

lemma bd_collapse: "\<lparr>bd_expiresAt = bd_expiresAt d, bd_entity = bd_entity d\<rparr> = d"
  by simp

lemma mem_ListEntries:
  "\<lparr>bei_Key = k, bei_ExpiresAt = x, bei_Entity = e\<rparr> \<in> set (ListEntries ot t b) \<longleftrightarrow>
     (k, \<lparr>bd_expiresAt = x, bd_entity = e\<rparr>) \<in> set (otter_All ot t (bc_cache b)) \<and> t < x"
  by (auto simp: ListEntries_def image_iff bd_collapse)

lemma GetState_eq: "GetState ot marshal t b = marshal (Entries ot t b)"
  by (simp add: GetState_def Entries_def)



end
