(* ===== verification/Config.thy ===== *)
theory Config
  imports Prelude
begin

text \<open>
  Package \<open>internal/config\<close>: the configuration structs, the environment overrides that are code of
  the package (encryption keys, rules, proxy hosts), \<open>Validate\<close> with its defaults, and the small
  accessors. Reading KDL and flat environment variables is done by third-party packages and is not
  modelled; \<open>Validate\<close> works on whatever they filled in.

  Validation messages are constructors with the values the message prints. The regular-expression
  compiler is the parameter \<open>re_ok\<close>. \<open>refill-rate\<close> is a \<open>float64\<close> that is only compared with zero
  here; it is a \<open>real\<close>.
\<close>

record accountingRule =
  PathPrefix :: string
  RuleHeaders :: "string list"
  HeaderRedactions :: strmap
  Limit :: int64
  Per :: string

record accountingSettings =
  Algorithm :: string
  RetryAfterType :: string
  FlushInterval :: duration
  MaxBatchSize :: int
  Capacity :: int64
  RefillRate :: real
  UseXForwardedFor :: bool
  UseXForwardedForDirection :: string
  UseXForwardedForIndex :: int

record membershipConfig =
  ServiceName :: string
  Port :: int
  BindAddr :: string
  StartupDelay :: duration
  GossipInterval :: duration
  GossipNodes :: int
  SecretKeys :: "string list"
  UseHiPrioPersistentChannel :: bool
  HiPrioChannelPort :: int

record listenConfig =
  ListenGRPC :: string
  ListenMetrics :: string

record loggingConfig =
  LogLevel :: string
  LogFormat :: string

record internalAPIConfig =
  APIEnabled :: bool
  APIAddress :: string

record cacheConfig =
  BlocklistSizeMB :: int
  AccountingSizeMB :: int
  SyncTimeoutSeconds :: int
  BlocklistDefaultTTLSeconds :: int

record proxyOIDCConfig =
  Issuer :: string
  ClientID :: string
  Audience :: string
  ClaimsScopes :: string
  ClaimsRoles :: string
  JWKSCacheTTL :: duration

record proxyRouteConfig =
  Prefix :: string
  Upstream :: string
  BalanceStrategy :: string
  DNSRefreshInterval :: duration
  RequireAuth :: bool
  Scopes :: "string list"
  MaxIdleConnsPerHost :: int
  MaxConnsPerHost :: int
  IdleConnTimeout :: duration
  ResponseHeaderTimeout :: duration
  DialTimeout :: duration

record proxyHostConfig =
  Hostname :: string
  OIDC :: proxyOIDCConfig
  Routes :: "proxyRouteConfig list"

record embeddedProxyConfig =
  ProxyEnabled :: bool
  ProxyListen :: string
  TLSEnabled :: bool
  TLSCert :: string
  TLSKey :: string
  Hosts :: "proxyHostConfig list"

record config =
  Listen :: listenConfig
  Membership :: membershipConfig
  Logging :: loggingConfig
  InternalAPI :: internalAPIConfig
  Cache :: cacheConfig
  Settings :: accountingSettings
  Rules :: "(string \<times> accountingRule) list"
  EmbeddedProxy :: embeddedProxyConfig
  externalConfigFilePath :: string

definition WindowDuration :: "accountingRule \<Rightarrow> duration" where
  "WindowDuration r = (if ToLower (Per r) = ''second'' then Second else Minute)"

lemma WindowDuration_pos: "0 < WindowDuration r"
  by (simp add: WindowDuration_def duration_defs)

section \<open>Environment overrides\<close>

text \<open>
  \<open>applyEncryptionKeyEnvOverrides\<close>: \<open>getenv\<close> gives the empty string for an unset variable.
\<close>

definition secondary_keys :: "string \<Rightarrow> string list" where
  "secondary_keys s = filter (\<lambda>k. k \<noteq> '''') (map TrimSpace (Split (CHR '','') s))"

definition applyEncryptionKeyEnvOverrides :: "(string \<Rightarrow> string) \<Rightarrow> config \<Rightarrow> config" where
  "applyEncryptionKeyEnvOverrides getenv c =
     (let primaryKey = getenv ''DRL_MEMBERSHIP_PRIMARY_KEY'';
          secondary = getenv ''DRL_MEMBERSHIP_SECONDARY_KEYS''
      in if primaryKey = '''' then c
         else c\<lparr>Membership := (Membership c)\<lparr>SecretKeys :=
                primaryKey # (if secondary \<noteq> '''' then secondary_keys secondary else [])\<rparr>\<rparr>)"

text \<open>
  \<open>applyRuleJSONOverrides\<close>: the environment is a list of \<open>NAME=value\<close> texts; the JSON decoder is the
  parameter \<open>unmarshal\<close>.
\<close>

datatype config_error = InvalidJSON string

definition rule_env_name :: "string \<Rightarrow> string option" where
  "rule_env_name key =
     (let p = ''DRL_RULE_''; q = ''_JSON'';
          name = take (length key - length p - length q) (drop (length p) key)
      in if HasPrefix key p \<and> HasSuffix key q \<and> length p + length q < length key \<and> CHR 0x0A \<notin> set name
         then Some name else None)"

fun applyRuleJSONOverrides ::
  "(string \<Rightarrow> accountingRule option) \<Rightarrow> string list \<Rightarrow> config \<Rightarrow> config_error + config" where
  "applyRuleJSONOverrides unmarshal [] c = Inr c"
| "applyRuleJSONOverrides unmarshal (kv # env) c =
     (case SplitN2 (CHR ''='') kv of
        [key, val] \<Rightarrow>
          (case rule_env_name key of
             None \<Rightarrow> applyRuleJSONOverrides unmarshal env c
           | Some name \<Rightarrow>
               (case unmarshal val of
                  None \<Rightarrow> Inl (InvalidJSON key)
                | Some rule \<Rightarrow> applyRuleJSONOverrides unmarshal env (c\<lparr>Rules := mput name rule (Rules c)\<rparr>)))
      | _ \<Rightarrow> applyRuleJSONOverrides unmarshal env c)"

definition applyProxyHostsJSONOverride ::
  "(string \<Rightarrow> proxyHostConfig list option) \<Rightarrow> (string \<Rightarrow> string) \<Rightarrow> config \<Rightarrow> config_error + config" where
  "applyProxyHostsJSONOverride unmarshal getenv c =
     (let raw = getenv ''DRL_EMBEDDED_PROXY_HOSTS_JSON'' in
      if raw = '''' then Inr c
      else case unmarshal raw of
             None \<Rightarrow> Inl (InvalidJSON ''DRL_EMBEDDED_PROXY_HOSTS_JSON'')
           | Some hosts \<Rightarrow> Inr (c\<lparr>EmbeddedProxy := (EmbeddedProxy c)\<lparr>Hosts := hosts\<rparr>\<rparr>))"

definition GetConfigFilePath :: "config \<Rightarrow> string" where
  "GetConfigFilePath c =
     (if externalConfigFilePath c \<noteq> '''' then externalConfigFilePath c else ''resources/default.kdl'')"

section \<open>Validation\<close>

datatype validation_error =
    EServiceName | EPort int | EBindAddr
  | EKeyLength nat nat | EKeyMismatch nat nat nat
  | EListenGRPC | EListenMetrics
  | ELogLevel string | ELogFormat string
  | EBlocklistSize int | EAccountingSize int | ESyncTimeout int | EDefaultTTL int
  | EChannelPort int | EChannelPortClash int int
  | EAlgorithm string | ECapacity int | ERefillRate real | ERetryAfterType string
  | EXffDirection string | EXffIndex int
  | ERulePath string | ERuleLimit string int | ERulePer string string | ERuleRedaction string string

definition check :: "bool \<Rightarrow> validation_error \<Rightarrow> validation_error list" where
  "check bad e = (if bad then [e] else [])"

lemma check_Nil [simp]: "check b e = [] \<longleftrightarrow> \<not> b"
  by (simp add: check_def)

definition validate_secret_keys :: "string list \<Rightarrow> validation_error list" where
  "validate_secret_keys keys =
     concat (map (\<lambda>i. check (length (keys ! i) \<notin> set [16, 24, 32]) (EKeyLength i (length (keys ! i))))
                 [0..<length keys]) @
     (if length keys > 1
      then concat (map (\<lambda>i. check (length (keys ! i) \<noteq> length (keys ! 0))
                               (EKeyMismatch (length (keys ! 0)) i (length (keys ! i))))
                       [1..<length keys])
      else [])"

definition validate_membership :: "membershipConfig \<Rightarrow> validation_error list" where
  "validate_membership m =
     check (ServiceName m = '''') EServiceName @
     check (Port m < 1 \<or> Port m > 65535) (EPort (Port m)) @
     check (BindAddr m = '''') EBindAddr @
     validate_secret_keys (SecretKeys m)"

definition validate_listen_logging :: "listenConfig \<Rightarrow> loggingConfig \<Rightarrow> validation_error list" where
  "validate_listen_logging l g =
     check (ListenGRPC l = '''') EListenGRPC @
     check (ListenMetrics l = '''') EListenMetrics @
     check (ToLower (LogLevel g) \<notin> set [''debug'', ''info'', ''warn'', ''error'']) (ELogLevel (LogLevel g)) @
     check (ToLower (LogFormat g) \<notin> set [''json'', ''text'']) (ELogFormat (LogFormat g))"

definition validate_cache :: "cacheConfig \<Rightarrow> validation_error list" where
  "validate_cache c =
     check (BlocklistSizeMB c < 1) (EBlocklistSize (BlocklistSizeMB c)) @
     check (AccountingSizeMB c < 1) (EAccountingSize (AccountingSizeMB c)) @
     check (SyncTimeoutSeconds c < 1) (ESyncTimeout (SyncTimeoutSeconds c)) @
     check (BlocklistDefaultTTLSeconds c < 1) (EDefaultTTL (BlocklistDefaultTTLSeconds c))"

definition membership_defaults :: "membershipConfig \<Rightarrow> membershipConfig" where
  "membership_defaults m =
     (let m1 = (if GossipInterval m = 0 then m\<lparr>GossipInterval := 50 * Millisecond\<rparr> else m);
          m2 = (if GossipNodes m1 = 0 then m1\<lparr>GossipNodes := 5\<rparr> else m1)
      in if HiPrioChannelPort m2 = 0 then m2\<lparr>HiPrioChannelPort := 7956\<rparr> else m2)"

definition validate_channel_port :: "membershipConfig \<Rightarrow> validation_error list" where
  "validate_channel_port m =
     check (HiPrioChannelPort m < 1 \<or> HiPrioChannelPort m > 65535) (EChannelPort (HiPrioChannelPort m)) @
     check (UseHiPrioPersistentChannel m \<and> HiPrioChannelPort m = Port m)
       (EChannelPortClash (HiPrioChannelPort m) (Port m))"

definition settings_defaults :: "accountingSettings \<Rightarrow> accountingSettings" where
  "settings_defaults s =
     (let s1 = (if Algorithm s = '''' then s\<lparr>Algorithm := ''sliding-window''\<rparr> else s);
          s2 = (if RetryAfterType s1 = '''' then s1\<lparr>RetryAfterType := ''delay-seconds''\<rparr> else s1);
          s3 = (if FlushInterval s2 = 0 then s2\<lparr>FlushInterval := 200 * Millisecond\<rparr> else s2)
      in if MaxBatchSize s3 = 0 then s3\<lparr>MaxBatchSize := 1000\<rparr> else s3)"

definition validate_settings :: "accountingSettings \<Rightarrow> validation_error list" where
  "validate_settings s =
     check (ToLower (Algorithm s) \<notin> set [''sliding-window'', ''token-bucket'']) (EAlgorithm (Algorithm s)) @
     (if ToLower (Algorithm s) = ''token-bucket''
      then check (sint (Capacity s) \<le> 0) (ECapacity (sint (Capacity s))) @
           check (RefillRate s \<le> 0) (ERefillRate (RefillRate s))
      else []) @
     check (ToLower (RetryAfterType s) \<notin> set [''delay-seconds'', ''http-date''])
       (ERetryAfterType (RetryAfterType s))"

definition xff_defaults :: "accountingSettings \<Rightarrow> accountingSettings" where
  "xff_defaults s =
     (if UseXForwardedFor s \<and> UseXForwardedForDirection s = ''''
      then s\<lparr>UseXForwardedForDirection := ''left''\<rparr> else s)"

definition validate_xff :: "accountingSettings \<Rightarrow> validation_error list" where
  "validate_xff s =
     (if UseXForwardedFor s
      then check (ToLower (UseXForwardedForDirection s) \<notin> set [''left'', ''right''])
             (EXffDirection (UseXForwardedForDirection s)) @
           check (UseXForwardedForIndex s < 0) (EXffIndex (UseXForwardedForIndex s))
      else [])"

definition validate_rule :: "(string \<Rightarrow> bool) \<Rightarrow> string \<times> accountingRule \<Rightarrow> validation_error list" where
  "validate_rule re_ok kr =
     (case kr of (key, rule) \<Rightarrow>
        check (PathPrefix rule = '''') (ERulePath key) @
        check (sint (Limit rule) < 1) (ERuleLimit key (sint (Limit rule))) @
        check (ToLower (Per rule) \<notin> set [''second'', ''minute'']) (ERulePer key (Per rule)) @
        concat (map (\<lambda>(k, v). check (\<not> re_ok v) (ERuleRedaction key k)) (HeaderRedactions rule)))"

text \<open>
  \<open>Config.Validate\<close>: checks and defaults in the order of the source. It updates the configuration in
  place also when it reports errors; the result is the error list and the updated configuration.
\<close>

definition Validate :: "(string \<Rightarrow> bool) \<Rightarrow> config \<Rightarrow> validation_error list \<times> config" where
  "Validate re_ok c =
     (let errs1 = validate_membership (Membership c) @ validate_listen_logging (Listen c) (Logging c) @
                  validate_cache (Cache c);
          m = membership_defaults (Membership c);
          errs2 = errs1 @ validate_channel_port m;
          s = settings_defaults (Settings c);
          errs3 = errs2 @ validate_settings s;
          s' = xff_defaults s;
          errs4 = errs3 @ validate_xff s';
          errs5 = errs4 @ concat (map (validate_rule re_ok) (Rules c))
      in (errs5, c\<lparr>Membership := m, Settings := s'\<rparr>))"

text \<open>\<open>MetricsPort\<close>; the decimal parser \<open>strconv.Atoi\<close> is the parameter \<open>atoi\<close>.\<close>

definition MetricsPort :: "(string \<Rightarrow> int option) \<Rightarrow> config \<Rightarrow> int" where
  "MetricsPort atoi c =
     (case split_last (CHR '':'') (ListenMetrics (Listen c)) of
        None \<Rightarrow> 9091
      | Some (_, p) \<Rightarrow> (case atoi p of Some port \<Rightarrow> port | None \<Rightarrow> 9091))"

datatype apikey_error = EKeyNotSet | EKeyTooShort nat

definition ValidatePrivateAPIKey :: "(string \<Rightarrow> string) \<Rightarrow> apikey_error option" where
  "ValidatePrivateAPIKey getenv =
     (let key = getenv ''DRL_PRIVATE_API_KEY'' in
      if key = '''' then Some EKeyNotSet
      else if length key < 16 then Some (EKeyTooShort (length key)) else None)"

section \<open>Loading\<close>

text \<open>
  \<open>Load\<close>: embedded defaults, then the user's file, then the environment, then \<open>Validate\<close>. The KDL
  decoder (\<open>kdl\<close>, which overwrites what the text mentions), the flat environment decoder (\<open>envParse\<close>),
  the JSON decoders and the file reads are parameters.
\<close>

datatype load_error =
    EReadDefault | EParseKDL | EReadUser string | EParseEnv | EOverride config_error
  | EValidation "validation_error list"

record loader =
  ld_default :: "string option"
  ld_readFile :: "string \<Rightarrow> string option"
  ld_kdl :: "string \<Rightarrow> config \<Rightarrow> config option"
  ld_envParse :: "config \<Rightarrow> config option"
  ld_getenv :: "string \<Rightarrow> string"
  ld_environ :: "string list"
  ld_ruleJSON :: "string \<Rightarrow> accountingRule option"
  ld_hostsJSON :: "string \<Rightarrow> proxyHostConfig list option"
  ld_reOk :: "string \<Rightarrow> bool"

definition NewConfig :: config where
  "NewConfig =
     \<lparr>Listen = \<lparr>ListenGRPC = '''', ListenMetrics = ''''\<rparr>,
      Membership = \<lparr>ServiceName = '''', Port = 0, BindAddr = '''', StartupDelay = 0, GossipInterval = 0,
        GossipNodes = 0, SecretKeys = [], UseHiPrioPersistentChannel = False, HiPrioChannelPort = 0\<rparr>,
      Logging = \<lparr>LogLevel = '''', LogFormat = ''''\<rparr>,
      InternalAPI = \<lparr>APIEnabled = False, APIAddress = ''''\<rparr>,
      Cache = \<lparr>BlocklistSizeMB = 0, AccountingSizeMB = 0, SyncTimeoutSeconds = 0, BlocklistDefaultTTLSeconds = 0\<rparr>,
      Settings = \<lparr>Algorithm = '''', RetryAfterType = '''', FlushInterval = 0, MaxBatchSize = 0, Capacity = 0,
        RefillRate = 0, UseXForwardedFor = False, UseXForwardedForDirection = '''', UseXForwardedForIndex = 0\<rparr>,
      Rules = [],
      EmbeddedProxy = \<lparr>ProxyEnabled = False, ProxyListen = '''', TLSEnabled = False, TLSCert = '''', TLSKey = '''',
        Hosts = []\<rparr>,
      externalConfigFilePath = ''''\<rparr>"

definition load_user :: "loader \<Rightarrow> string \<Rightarrow> config \<Rightarrow> load_error + config" where
  "load_user ld configPath c =
     (if configPath = '''' then Inr c
      else case ld_readFile ld configPath of
             None \<Rightarrow> Inl (EReadUser configPath)
           | Some data \<Rightarrow>
               (case ld_kdl ld data (c\<lparr>externalConfigFilePath := configPath\<rparr>) of
                  None \<Rightarrow> Inl EParseKDL | Some c' \<Rightarrow> Inr c'))"

definition load_env :: "loader \<Rightarrow> config \<Rightarrow> load_error + config" where
  "load_env ld c =
     (case ld_envParse ld c of
        None \<Rightarrow> Inl EParseEnv
      | Some c1 \<Rightarrow>
          (case applyRuleJSONOverrides (ld_ruleJSON ld) (ld_environ ld) (applyEncryptionKeyEnvOverrides (ld_getenv ld) c1) of
             Inl e \<Rightarrow> Inl (EOverride e)
           | Inr c2 \<Rightarrow>
               (case applyProxyHostsJSONOverride (ld_hostsJSON ld) (ld_getenv ld) c2 of
                  Inl e \<Rightarrow> Inl (EOverride e) | Inr c3 \<Rightarrow> Inr c3)))"

definition Load :: "loader \<Rightarrow> string \<Rightarrow> load_error + config" where
  "Load ld configPath =
     (case ld_default ld of
        None \<Rightarrow> Inl EReadDefault
      | Some data \<Rightarrow>
          (case ld_kdl ld data NewConfig of
             None \<Rightarrow> Inl EParseKDL
           | Some c0 \<Rightarrow>
               (case load_user ld configPath c0 of
                  Inl e \<Rightarrow> Inl e
                | Inr c1 \<Rightarrow>
                    (case load_env ld c1 of
                       Inl e \<Rightarrow> Inl e
                     | Inr c2 \<Rightarrow>
                         (case Validate (ld_reOk ld) c2 of (errs, c3) \<Rightarrow>
                            if errs \<noteq> [] then Inl (EValidation errs) else Inr c3)))))"

section \<open>What a validated configuration guarantees\<close>

text \<open>
  The specification the rest of the program relies on, stated on the configuration that \<open>Validate\<close>
  leaves behind (after its defaults).
\<close>

definition aes_keys_ok :: "string list \<Rightarrow> bool" where
  "aes_keys_ok keys \<longleftrightarrow>
     (\<forall>k \<in> set keys. length k = 16 \<or> length k = 24 \<or> length k = 32) \<and>
     (\<forall>k \<in> set keys. length k = length (hd keys))"

definition rule_ok :: "(string \<Rightarrow> bool) \<Rightarrow> accountingRule \<Rightarrow> bool" where
  "rule_ok re_ok r \<longleftrightarrow>
     PathPrefix r \<noteq> '''' \<and> 1 \<le> sint (Limit r) \<and> ToLower (Per r) \<in> {''second'', ''minute''} \<and>
     (\<forall>(k, v) \<in> set (HeaderRedactions r). re_ok v)"

definition settings_ok :: "accountingSettings \<Rightarrow> bool" where
  "settings_ok s \<longleftrightarrow>
     ToLower (Algorithm s) \<in> {''sliding-window'', ''token-bucket''} \<and>
     (ToLower (Algorithm s) = ''token-bucket'' \<longrightarrow> 0 < sint (Capacity s) \<and> 0 < RefillRate s) \<and>
     ToLower (RetryAfterType s) \<in> {''delay-seconds'', ''http-date''} \<and>
     FlushInterval s \<noteq> 0 \<and> MaxBatchSize s \<noteq> 0 \<and>
     (UseXForwardedFor s \<longrightarrow>
        ToLower (UseXForwardedForDirection s) \<in> {''left'', ''right''} \<and> 0 \<le> UseXForwardedForIndex s)"

definition membership_ok :: "membershipConfig \<Rightarrow> bool" where
  "membership_ok m \<longleftrightarrow>
     ServiceName m \<noteq> '''' \<and> BindAddr m \<noteq> '''' \<and> Port m \<in> {1..65535} \<and> aes_keys_ok (SecretKeys m) \<and>
     GossipInterval m \<noteq> 0 \<and> GossipNodes m \<noteq> 0 \<and> HiPrioChannelPort m \<in> {1..65535} \<and>
     (UseHiPrioPersistentChannel m \<longrightarrow> HiPrioChannelPort m \<noteq> Port m)"

definition config_ok :: "(string \<Rightarrow> bool) \<Rightarrow> config \<Rightarrow> bool" where
  "config_ok re_ok c \<longleftrightarrow>
     membership_ok (Membership c) \<and> settings_ok (Settings c) \<and>
     ListenGRPC (Listen c) \<noteq> '''' \<and> ListenMetrics (Listen c) \<noteq> '''' \<and>
     ToLower (LogLevel (Logging c)) \<in> {''debug'', ''info'', ''warn'', ''error''} \<and>
     ToLower (LogFormat (Logging c)) \<in> {''json'', ''text''} \<and>
     1 \<le> BlocklistSizeMB (Cache c) \<and> 1 \<le> AccountingSizeMB (Cache c) \<and>
     1 \<le> SyncTimeoutSeconds (Cache c) \<and> 1 \<le> BlocklistDefaultTTLSeconds (Cache c) \<and>
     (\<forall>(name, r) \<in> set (Rules c). rule_ok re_ok r)"

lemma validate_secret_keys_iff: "validate_secret_keys keys = [] \<longleftrightarrow> aes_keys_ok keys"
proof (cases keys)
  case Nil
  then show ?thesis by (simp add: validate_secret_keys_def aes_keys_ok_def)
next
  case (Cons k ks)
  have len: "(\<forall>i < length keys. length (keys ! i) \<in> {16, 24, 32}) \<longleftrightarrow>
      (\<forall>k \<in> set keys. length k = 16 \<or> length k = 24 \<or> length k = 32)"
    by (auto simp: all_set_conv_all_nth)
  have same: "(\<forall>i \<in> {1..<length keys}. length (keys ! i) = length (keys ! 0)) \<longleftrightarrow>
      (\<forall>k \<in> set keys. length k = length (hd keys))"
  proof
    assume L: "\<forall>i \<in> {1..<length keys}. length (keys ! i) = length (keys ! 0)"
    have "length (keys ! i) = length (hd keys)" if "i < length keys" for i
      using bspec [OF L, of i] that Cons by (cases i) auto
    then show "\<forall>k \<in> set keys. length k = length (hd keys)" by (auto simp: in_set_conv_nth)
  next
    assume "\<forall>k \<in> set keys. length k = length (hd keys)"
    then show "\<forall>i \<in> {1..<length keys}. length (keys ! i) = length (keys ! 0)"
      by (metis Cons atLeastLessThan_iff hd_conv_nth list.distinct(1) nth_mem)
  qed
  show ?thesis
    using Cons len same
    by (auto simp: validate_secret_keys_def aes_keys_ok_def simp del: upt_Suc)
qed

lemma validate_rule_iff: "validate_rule re_ok (name, r) = [] \<longleftrightarrow> rule_ok re_ok r"
  by (auto simp: validate_rule_def rule_ok_def not_less)

lemma membership_defaults_fields [simp]:
  "ServiceName (membership_defaults m) = ServiceName m"
  "BindAddr (membership_defaults m) = BindAddr m"
  "Port (membership_defaults m) = Port m"
  "SecretKeys (membership_defaults m) = SecretKeys m"
  "UseHiPrioPersistentChannel (membership_defaults m) = UseHiPrioPersistentChannel m"
  "GossipInterval (membership_defaults m) \<noteq> 0"
  "GossipNodes (membership_defaults m) \<noteq> 0"
  "HiPrioChannelPort (membership_defaults m) \<noteq> 0"
  by (simp_all add: membership_defaults_def Let_def duration_defs)

lemma membership_defaults_id:
  "GossipInterval m \<noteq> 0 \<Longrightarrow> GossipNodes m \<noteq> 0 \<Longrightarrow> HiPrioChannelPort m \<noteq> 0 \<Longrightarrow> membership_defaults m = m"
  by (simp add: membership_defaults_def)

lemma settings_defaults_fields [simp]:
  "Algorithm (settings_defaults s) \<noteq> ''''"
  "RetryAfterType (settings_defaults s) \<noteq> ''''"
  "FlushInterval (settings_defaults s) \<noteq> 0"
  "MaxBatchSize (settings_defaults s) \<noteq> 0"
  by (simp_all add: settings_defaults_def Let_def duration_defs)

lemma settings_defaults_id:
  "Algorithm s \<noteq> '''' \<Longrightarrow> RetryAfterType s \<noteq> '''' \<Longrightarrow> FlushInterval s \<noteq> 0 \<Longrightarrow> MaxBatchSize s \<noteq> 0 \<Longrightarrow>
     settings_defaults s = s"
  by (simp add: settings_defaults_def)

lemma xff_defaults_fields [simp]:
  "Algorithm (xff_defaults s) = Algorithm s"
  "RetryAfterType (xff_defaults s) = RetryAfterType s"
  "FlushInterval (xff_defaults s) = FlushInterval s"
  "MaxBatchSize (xff_defaults s) = MaxBatchSize s"
  "Capacity (xff_defaults s) = Capacity s"
  "RefillRate (xff_defaults s) = RefillRate s"
  "UseXForwardedFor (xff_defaults s) = UseXForwardedFor s"
  "UseXForwardedForIndex (xff_defaults s) = UseXForwardedForIndex s"
  "xff_defaults (xff_defaults s) = xff_defaults s"
  by (simp_all add: xff_defaults_def)

lemma validate_settings_xff [simp]: "validate_settings (xff_defaults s) = validate_settings s"
  by (simp add: validate_settings_def)

lemma settings_ok_iff:
  "FlushInterval s \<noteq> 0 \<Longrightarrow> MaxBatchSize s \<noteq> 0 \<Longrightarrow>
     settings_ok s \<longleftrightarrow> validate_settings s = [] \<and> validate_xff s = []"
  unfolding settings_ok_def validate_settings_def validate_xff_def
  by (simp only: append_is_Nil_conv check_Nil if_split [of "\<lambda>x. x = []"] not_not list.set insert_iff
      empty_iff not_le not_less simp_thms) blast

lemma membership_ok_iff:
  "membership_ok (membership_defaults m) \<longleftrightarrow>
     validate_membership m = [] \<and> validate_channel_port (membership_defaults m) = []"
  unfolding membership_ok_def validate_membership_def validate_channel_port_def
  by (simp add: validate_secret_keys_iff not_less) blast

lemma validate_rules_iff:
  "concat (map (validate_rule re_ok) rs) = [] \<longleftrightarrow> (\<forall>(name, r) \<in> set rs. rule_ok re_ok r)"
  by (auto simp: validate_rule_iff)

lemma validate_rest_iff:
  "validate_listen_logging (Listen c) (Logging c) = [] \<and> validate_cache (Cache c) = [] \<longleftrightarrow>
     ListenGRPC (Listen c) \<noteq> '''' \<and> ListenMetrics (Listen c) \<noteq> '''' \<and>
     ToLower (LogLevel (Logging c)) \<in> {''debug'', ''info'', ''warn'', ''error''} \<and>
     ToLower (LogFormat (Logging c)) \<in> {''json'', ''text''} \<and>
     1 \<le> BlocklistSizeMB (Cache c) \<and> 1 \<le> AccountingSizeMB (Cache c) \<and>
     1 \<le> SyncTimeoutSeconds (Cache c) \<and> 1 \<le> BlocklistDefaultTTLSeconds (Cache c)"
  unfolding validate_listen_logging_def validate_cache_def
  by (simp only: append_is_Nil_conv check_Nil not_not list.set not_less) blast

lemma Validate_snd_fields:
  "Membership (snd (Validate re_ok c)) = membership_defaults (Membership c)"
  "Settings (snd (Validate re_ok c)) = xff_defaults (settings_defaults (Settings c))"
  "Rules (snd (Validate re_ok c)) = Rules c" "Listen (snd (Validate re_ok c)) = Listen c"
  "Logging (snd (Validate re_ok c)) = Logging c" "Cache (snd (Validate re_ok c)) = Cache c"
  by (simp_all add: Validate_def Let_def)

lemma Validate_Nil_iff:
  "fst (Validate re_ok c) = [] \<longleftrightarrow> config_ok re_ok (snd (Validate re_ok c))"
proof -
  let ?m = "membership_defaults (Membership c)" and ?s = "xff_defaults (settings_defaults (Settings c))"
  have "fst (Validate re_ok c) = [] \<longleftrightarrow>
      (validate_membership (Membership c) = [] \<and> validate_channel_port ?m = []) \<and>
      (validate_settings ?s = [] \<and> validate_xff ?s = []) \<and>
      (validate_listen_logging (Listen c) (Logging c) = [] \<and> validate_cache (Cache c) = []) \<and>
      concat (map (validate_rule re_ok) (Rules c)) = []"
    by (simp only: Validate_def Let_def fst_conv append_is_Nil_conv validate_settings_xff) blast
  moreover have "settings_ok ?s \<longleftrightarrow> validate_settings ?s = [] \<and> validate_xff ?s = []"
    by (rule settings_ok_iff) simp_all
  ultimately show ?thesis
    by (simp only: membership_ok_iff validate_rules_iff validate_rest_iff config_ok_def Validate_snd_fields)
       blast
qed


text \<open>
  Validating twice is validating once: the defaults are stable, and the second run reports the
  same errors and leaves the configuration as it is.
\<close>

theorem Validate_idempotent:
  "Validate re_ok (snd (Validate re_ok c)) = (fst (Validate re_ok c), snd (Validate re_ok c))"
proof -
  let ?m = "membership_defaults (Membership c)" and ?s = "xff_defaults (settings_defaults (Settings c))"
  have m: "membership_defaults ?m = ?m" by (simp add: membership_defaults_id)
  have s: "settings_defaults ?s = ?s" by (simp add: settings_defaults_id)
  have v: "validate_membership ?m = validate_membership (Membership c)"
    by (simp add: validate_membership_def)
  show ?thesis by (simp add: Validate_def Let_def m s v)
qed

lemma TrimSpace_ends:
  "TrimSpace s \<noteq> '''' \<Longrightarrow> \<not> is_space (hd (TrimSpace s)) \<and> \<not> is_space (last (TrimSpace s))"
proof -
  assume ne: "TrimSpace s \<noteq> ''''"
  let ?u = "dropWhile is_space s"
  have l: "\<not> is_space (last (TrimSpace s))"
    using ne hd_dropWhile [of is_space "rev ?u"] by (auto simp: TrimSpace_def last_rev dropWhile_eq_Nil_conv)
  obtain pre where "rev ?u = pre @ rev (TrimSpace s)"
    by (metis TrimSpace_def rev_rev_ident takeWhile_dropWhile_id)
  then have "?u = TrimSpace s @ rev pre" by (metis rev_append rev_rev_ident)
  with ne have "hd (TrimSpace s) = hd ?u" and "?u \<noteq> []" by auto
  then have "\<not> is_space (hd (TrimSpace s))" using hd_dropWhile [of is_space s] by (metis dropWhile_eq_Nil_conv)
  with l show ?thesis by blast
qed

text \<open>
  When the primary-key variable is set, the environment replaces the key list: the primary key
  comes first and every secondary key is non-empty and carries no surrounding white space; when it
  is unset the configuration is untouched.
\<close>

theorem encryption_override:
  "if getenv ''DRL_MEMBERSHIP_PRIMARY_KEY'' = ''''
   then applyEncryptionKeyEnvOverrides getenv c = c
   else \<exists>ks. SecretKeys (Membership (applyEncryptionKeyEnvOverrides getenv c)) =
          getenv ''DRL_MEMBERSHIP_PRIMARY_KEY'' # ks \<and>
        list_all (\<lambda>k. k \<noteq> '''' \<and> \<not> is_space (hd k) \<and> \<not> is_space (last k)) ks"
  using TrimSpace_ends
  by (auto simp: applyEncryptionKeyEnvOverrides_def Let_def secondary_keys_def list_all_iff)

lemma rule_env_name_ok:
  "name \<noteq> '''' \<Longrightarrow> CHR 0x0A \<notin> set name \<Longrightarrow>
     rule_env_name (''DRL_RULE_'' @ name @ ''_JSON'') = Some name"
  by (simp add: rule_env_name_def HasSuffix_def HasPrefix_def)


text \<open>A loader that reads a valid file, for the witness.\<close>

definition demo_config :: config where
  "demo_config = NewConfig
     \<lparr>Listen := \<lparr>ListenGRPC = '':8081'', ListenMetrics = '':9091''\<rparr>,
      Membership := (Membership NewConfig)\<lparr>ServiceName := ''drl'', Port := 7946, BindAddr := ''0.0.0.0''\<rparr>,
      Logging := \<lparr>LogLevel = ''info'', LogFormat = ''json''\<rparr>,
      Cache := \<lparr>BlocklistSizeMB = 64, AccountingSizeMB = 64, SyncTimeoutSeconds = 5, BlocklistDefaultTTLSeconds = 60\<rparr>\<rparr>"

definition demo_rule :: accountingRule where
  "demo_rule = \<lparr>PathPrefix = ''/api'', RuleHeaders = [], HeaderRedactions = [], Limit = 10, Per = ''minute''\<rparr>"

definition demo_loader :: loader where
  "demo_loader =
     \<lparr>ld_default = Some ''file'', ld_readFile = (\<lambda>_. None), ld_kdl = (\<lambda>_ _. Some demo_config), ld_envParse = Some,
      ld_getenv = (\<lambda>_. ''''), ld_environ = [''DRL_RULE_api_JSON=r''], ld_ruleJSON = (\<lambda>_. Some demo_rule),
      ld_hostsJSON = (\<lambda>_. None), ld_reOk = (\<lambda>_. True)\<rparr>"


end
