(* ===== verification/AccountingCache.thy ===== *)
theory AccountingCache
  imports Blocklist Config
begin

text \<open>
  Package \<open>internal/cache\<close>, files \<open>accounting.go\<close> and \<open>manager.go\<close>: the request counters of a node and
  the consistent-hash ring that says which node owns a key.

  The otter cache of the source holds pointers to atomic counters. The model keeps that: the cache
  maps a key to an address, \<open>ac_heap\<close> gives the counter at an address, and \<open>ac_next\<close> is the next
  fresh address. Each operation takes the clock reading \<open>now\<close> that the cache sees during the call.
\<close>

type_synonym transferable = "(uint64 \<times> uint64) list"

record ('c, 'r) accountingCache =
  ac_cache :: 'c
  ac_heap :: "nat \<Rightarrow> int64"
  ac_next :: nat
  ac_ring :: 'r
  ac_localNode :: string
  ac_maxCost :: int
  ac_windowSize :: duration
  ac_transferable :: "(string \<times> transferable) list"
  ac_calls :: "cacheCall list"

type_synonym 'c ac_ops = "('c, nat) otter"

text \<open>\<open>NewAccountingCache\<close>; \<open>mk\<close> stands for \<open>otter.New\<close> with the maximum weight and \<open>ring0\<close> for the empty ring.\<close>

definition NewAccountingCache ::
  "'r ring \<Rightarrow> (uint64 \<Rightarrow> 'c option) \<Rightarrow> 'r \<Rightarrow> int \<Rightarrow> string \<Rightarrow> duration \<Rightarrow> ('c, 'r) accountingCache option" where
  "NewAccountingCache rg mk ring0 maxSizeMB localNode window =
     (let maxCost = wrap64 (maxSizeMB * 1024 * 1024);
          windowSize = (if window = 0 then Minute else window)
      in case mk (of_int maxCost) of
           None \<Rightarrow> None
         | Some cache \<Rightarrow>
             Some \<lparr>ac_cache = cache, ac_heap = (\<lambda>_. 0), ac_next = 0,
                   ac_ring = (if localNode \<noteq> '''' then ring_Add rg localNode ring0 else ring0),
                   ac_localNode = localNode, ac_maxCost = maxCost, ac_windowSize = windowSize,
                   ac_transferable = [], ac_calls = []\<rparr>)"

section \<open>Ownership\<close>

definition getOwnerLockedForKey :: "'r ring \<Rightarrow> string \<Rightarrow> ('c, 'r) accountingCache \<Rightarrow> string" where
  "getOwnerLockedForKey rg key a =
     (if ring_GetMembers rg (ac_ring a) = [] then ac_localNode a
      else case ring_LocateKey rg (ac_ring a) key of
             None \<Rightarrow> ac_localNode a
           | Some owner \<Rightarrow> owner)"

definition IsOwner :: "'r ring \<Rightarrow> string \<Rightarrow> ('c, 'r) accountingCache \<Rightarrow> bool" where
  "IsOwner rg key a \<longleftrightarrow> getOwnerLockedForKey rg key a = ac_localNode a"

definition GetOwner :: "'r ring \<Rightarrow> string \<Rightarrow> ('c, 'r) accountingCache \<Rightarrow> string" where
  "GetOwner rg key a = getOwnerLockedForKey rg key a"

definition GetNodes :: "'r ring \<Rightarrow> ('c, 'r) accountingCache \<Rightarrow> string list" where
  "GetNodes rg a = ring_GetMembers rg (ac_ring a)"

section \<open>Counters\<close>

text \<open>
  \<open>Increment\<close>: a present counter is added to in place (\<open>atomic.Int64.Add\<close> wraps); otherwise a new
  counter is stored under the configured window.
\<close>

definition Increment ::
  "'c ac_ops \<Rightarrow> gotime \<Rightarrow> string \<Rightarrow> int64 \<Rightarrow> ('c, 'r) accountingCache \<Rightarrow> int64 \<times> ('c, 'r) accountingCache" where
  "Increment ot now key delta a =
     (case otter_GetIfPresent ot now key (ac_cache a) of
        Some counter \<Rightarrow>
          (ac_heap a counter + delta,
           a\<lparr>ac_heap := (ac_heap a)(counter := ac_heap a counter + delta), ac_calls := ac_calls a @ [OnHit]\<rparr>)
      | None \<Rightarrow>
          let newCounter = ac_next a
          in (delta,
              a\<lparr>ac_heap := (ac_heap a)(newCounter := delta), ac_next := Suc newCounter,
                ac_cache := otter_Set ot now (ac_windowSize a) key newCounter (ac_cache a),
                ac_calls := ac_calls a @ [OnMiss]\<rparr>))"

definition Get ::
  "'c ac_ops \<Rightarrow> gotime \<Rightarrow> string \<Rightarrow> ('c, 'r) accountingCache \<Rightarrow> int64 \<times> ('c, 'r) accountingCache" where
  "Get ot now key a =
     (case otter_GetIfPresent ot now key (ac_cache a) of
        None \<Rightarrow> (0, a\<lparr>ac_calls := ac_calls a @ [OnMiss]\<rparr>)
      | Some counter \<Rightarrow> (ac_heap a counter, a\<lparr>ac_calls := ac_calls a @ [OnHit]\<rparr>))"

definition Reset :: "'c ac_ops \<Rightarrow> gotime \<Rightarrow> string \<Rightarrow> ('c, 'r) accountingCache \<Rightarrow> ('c, 'r) accountingCache" where
  "Reset ot now key a = a\<lparr>ac_cache := snd (otter_Invalidate ot now key (ac_cache a))\<rparr>"

definition SnapshotAll :: "'c ac_ops \<Rightarrow> gotime \<Rightarrow> ('c, 'r) accountingCache \<Rightarrow> (string \<times> int64) list" where
  "SnapshotAll ot now a =
     concat (map (\<lambda>(k, _). case otter_GetIfPresent ot now k (ac_cache a) of
                             Some counter \<Rightarrow> [(k, ac_heap a counter)]
                           | None \<Rightarrow> [])
                 (otter_All ot now (ac_cache a)))"

definition GetEstimatedEntities :: "'c ac_ops \<Rightarrow> ('c, 'r) accountingCache \<Rightarrow> nat" where
  "GetEstimatedEntities ot a = otter_EstimatedSize ot (ac_cache a)"

section \<open>Changes of the ring\<close>

text \<open>
  \<open>getTransferableLocked\<close>: the second loop takes each collected key out of the cache. The keys of
  the cache are the first components of its entries.
\<close>

fun takeCounters ::
  "'c ac_ops \<Rightarrow> gotime \<Rightarrow> string list \<Rightarrow> transferable \<Rightarrow> ('c, 'r) accountingCache \<Rightarrow>
   transferable \<times> ('c, 'r) accountingCache" where
  "takeCounters ot now [] transfer a = (transfer, a)"
| "takeCounters ot now (k # ks) transfer a =
     (case EntityKeyToHash k of
        Inl err \<Rightarrow> takeCounters ot now ks transfer a
      | Inr hash \<Rightarrow>
          (case otter_Invalidate ot now k (ac_cache a) of
             (Some v, c) \<Rightarrow> takeCounters ot now ks (mput hash (ac_heap a v) transfer) (a\<lparr>ac_cache := c\<rparr>)
           | (None, c) \<Rightarrow> takeCounters ot now ks transfer (a\<lparr>ac_cache := c\<rparr>)))"

definition getTransferableLocked ::
  "'c ac_ops \<Rightarrow> 'r ring \<Rightarrow> gotime \<Rightarrow> string \<Rightarrow> ('c, 'r) accountingCache \<Rightarrow> transferable \<times> ('c, 'r) accountingCache" where
  "getTransferableLocked ot rg now ownerAddr a =
     (let toTransfer = filter (\<lambda>k. getOwnerLockedForKey rg k a = ownerAddr) (map fst (otter_All ot now (ac_cache a)))
      in takeCounters ot now toTransfer [] a)"

fun updateTransferableLocked ::
  "'c ac_ops \<Rightarrow> 'r ring \<Rightarrow> gotime \<Rightarrow> string list \<Rightarrow> ('c, 'r) accountingCache \<Rightarrow> ('c, 'r) accountingCache" where
  "updateTransferableLocked ot rg now [] a = a"
| "updateTransferableLocked ot rg now (m # members) a =
     (case getTransferableLocked ot rg now m a of
        (t, a') \<Rightarrow> updateTransferableLocked ot rg now members
                     (a'\<lparr>ac_transferable := mput m t (ac_transferable a')\<rparr>))"

definition otherNodes :: "'r ring \<Rightarrow> ('c, 'r) accountingCache \<Rightarrow> string list" where
  "otherNodes rg a = filter (\<lambda>n. n \<noteq> ac_localNode a) (ring_GetMembers rg (ac_ring a))"

definition AddNode ::
  "'c ac_ops \<Rightarrow> 'r ring \<Rightarrow> gotime \<Rightarrow> string \<Rightarrow> ('c, 'r) accountingCache \<Rightarrow> ('c, 'r) accountingCache" where
  "AddNode ot rg now node a =
     (let a1 = a\<lparr>ac_ring := ring_Add rg node (ac_ring a)\<rparr>
      in updateTransferableLocked ot rg now (otherNodes rg a1) a1)"

definition RemoveNode ::
  "'c ac_ops \<Rightarrow> 'r ring \<Rightarrow> gotime \<Rightarrow> string \<Rightarrow> ('c, 'r) accountingCache \<Rightarrow> ('c, 'r) accountingCache" where
  "RemoveNode ot rg now node a =
     (let a1 = a\<lparr>ac_ring := ring_Remove rg node (ac_ring a)\<rparr>
      in updateTransferableLocked ot rg now (otherNodes rg a1) a1)"

definition updateRing :: "'r ring \<Rightarrow> string list \<Rightarrow> 'r \<Rightarrow> 'r" where
  "updateRing rg nodes r =
     (let currentMembers = ring_GetMembers rg r;
          newMembers = remdups nodes;
          r1 = fold (ring_Remove rg) (filter (\<lambda>m. m \<notin> set newMembers) currentMembers) r
      in fold (ring_Add rg) (filter (\<lambda>n. n \<notin> set currentMembers) newMembers) r1)"

definition UpdateNodes ::
  "'c ac_ops \<Rightarrow> 'r ring \<Rightarrow> gotime \<Rightarrow> string list \<Rightarrow> ('c, 'r) accountingCache \<Rightarrow> ('c, 'r) accountingCache" where
  "UpdateNodes ot rg now nodes a =
     (let a1 = a\<lparr>ac_ring := updateRing rg nodes (ac_ring a)\<rparr>
      in updateTransferableLocked ot rg now (otherNodes rg a1) a1)"

definition ConsumeTransferable ::
  "string \<Rightarrow> ('c, 'r) accountingCache \<Rightarrow> transferable option \<times> ('c, 'r) accountingCache" where
  "ConsumeTransferable ownerAddr a =
     (map_of (ac_transferable a) ownerAddr, a\<lparr>ac_transferable := mdel ownerAddr (ac_transferable a)\<rparr>)"

definition SetLocalNode :: "'r ring \<Rightarrow> string \<Rightarrow> ('c, 'r) accountingCache \<Rightarrow> ('c, 'r) accountingCache" where
  "SetLocalNode rg node a =
     (let r1 = (if ac_localNode a \<noteq> '''' \<and> ac_localNode a \<noteq> node
                then ring_Remove rg (ac_localNode a) (ac_ring a) else ac_ring a)
      in a\<lparr>ac_localNode := node, ac_ring := (if node \<noteq> '''' then ring_Add rg node r1 else r1)\<rparr>)"

section \<open>The manager\<close>

record ('b, 'c, 'r) manager =
  mg_Blocklist :: "'b blocklistCache"
  mg_Accounting :: "('c, 'r) accountingCache"

definition NewManager ::
  "'r ring \<Rightarrow> (uint64 \<Rightarrow> 'b option) \<Rightarrow> (uint64 \<Rightarrow> 'c option) \<Rightarrow> 'r \<Rightarrow> int \<Rightarrow> int \<Rightarrow> string \<Rightarrow> duration \<Rightarrow>
   ('b, 'c, 'r) manager option" where
  "NewManager rg mkB mkA ring0 blocklistSizeMB accountingSizeMB localNode window =
     (case NewBlocklistCache mkB blocklistSizeMB of
        None \<Rightarrow> None
      | Some blocklist \<Rightarrow>
          (case NewAccountingCache rg mkA ring0 accountingSizeMB localNode window of
             None \<Rightarrow> None
           | Some accounting \<Rightarrow> Some \<lparr>mg_Blocklist = blocklist, mg_Accounting = accounting\<rparr>))"

text \<open>\<open>newCache\<close> of \<open>internal/cmd/cache.go\<close>: the window is one minute whatever the rules say.\<close>

definition newCache ::
  "'r ring \<Rightarrow> (uint64 \<Rightarrow> 'b option) \<Rightarrow> (uint64 \<Rightarrow> 'c option) \<Rightarrow> 'r \<Rightarrow> cacheConfig \<Rightarrow> string \<Rightarrow>
   ('b, 'c, 'r) manager option" where
  "newCache rg mkB mkA ring0 cfg localIP =
     NewManager rg mkB mkA ring0 (BlocklistSizeMB cfg) (AccountingSizeMB cfg) localIP Minute"

definition Manager_UpdateNodes ::
  "'c ac_ops \<Rightarrow> 'r ring \<Rightarrow> gotime \<Rightarrow> string list \<Rightarrow> ('b, 'c, 'r) manager \<Rightarrow> ('b, 'c, 'r) manager" where
  "Manager_UpdateNodes ot rg now nodes m = m\<lparr>mg_Accounting := UpdateNodes ot rg now nodes (mg_Accounting m)\<rparr>"

definition Manager_SetLocalNode :: "'r ring \<Rightarrow> string \<Rightarrow> ('b, 'c, 'r) manager \<Rightarrow> ('b, 'c, 'r) manager" where
  "Manager_SetLocalNode rg node m = m\<lparr>mg_Accounting := SetLocalNode rg node (mg_Accounting m)\<rparr>"

section \<open>Specification: a table of counters with deadlines\<close>

text \<open>
  The contract of \<open>Increment\<close> and \<open>Get\<close>: a fixed window that opens at the first increment. \<open>tick\<close> adds
  to a live counter and keeps its deadline, or starts a new one.
\<close>

type_synonym counters = "string \<Rightarrow> (int64 \<times> gotime) option"

definition tick :: "duration \<Rightarrow> gotime \<Rightarrow> string \<Rightarrow> int64 \<Rightarrow> counters \<Rightarrow> counters" where
  "tick w t k \<delta> m =
     m(k \<mapsto> (case live t (m k) of Some n \<Rightarrow> (n + \<delta>, snd (the (m k))) | None \<Rightarrow> (\<delta>, t + w)))"

definition reading :: "gotime \<Rightarrow> string \<Rightarrow> counters \<Rightarrow> int64" where
  "reading t k m = (case live t (m k) of Some n \<Rightarrow> n | None \<Rightarrow> 0)"

text \<open>Two tables are equal from time \<open>t\<close> on when no reader at \<open>t\<close> or later can tell them apart.\<close>

definition eq_from :: "gotime \<Rightarrow> counters \<Rightarrow> counters \<Rightarrow> bool" where
  "eq_from t m m' \<longleftrightarrow> (\<forall>k t'. t \<le> t' \<longrightarrow> live t' (m k) = live t' (m' k))"

lemma eq_from_refl [simp]: "eq_from t m m"
  by (simp add: eq_from_def)

lemma eq_from_trans: "eq_from t m m' \<Longrightarrow> eq_from t m' m'' \<Longrightarrow> eq_from t m m''"
  by (simp add: eq_from_def)

lemma eq_from_mono: "eq_from t m m' \<Longrightarrow> t \<le> t' \<Longrightarrow> eq_from t' m m'"
  by (simp add: eq_from_def)

lemma eq_from_deadline:
  assumes "eq_from t m m'" and "live t (m k) = Some n"
  shows "m k = m' k"
proof -
  obtain d where m: "m k = Some (n, d)" "t < d" using assms(2) by (auto simp: live_Some_iff)
  have *: "live t' (m k) = live t' (m' k)" if "t \<le> t'" for t' using assms(1) that by (simp add: eq_from_def)
  have "live t (m' k) = Some n" using * [of t] assms(2) by simp
  then obtain d' where m': "m' k = Some (n, d')" "t < d'" by (auto simp: live_Some_iff)
  have "d' \<le> d" using * [of d] m m' by (simp split: if_splits)
  moreover have "d \<le> d'" using * [of d'] m m' by (simp split: if_splits)
  ultimately show ?thesis using m m' by simp
qed

lemma eq_from_tick:
  assumes "eq_from t m m'"
  shows "eq_from t (tick w t k \<delta> m) (tick w t k \<delta> m')"
proof -
  have l: "live t (m k) = live t (m' k)" using assms by (simp add: eq_from_def)
  have "tick w t k \<delta> m k = tick w t k \<delta> m' k"
  proof (cases "live t (m k)")
    case None
    with l show ?thesis by (simp add: tick_def)
  next
    case (Some n)
    with eq_from_deadline [OF assms Some] l show ?thesis by (simp add: tick_def)
  qed
  moreover have "live t' (tick w t k \<delta> m k') = live t' (tick w t k \<delta> m' k')" if "k' \<noteq> k" "t \<le> t'" for k' t'
    using that assms by (simp add: tick_def eq_from_def)
  ultimately show ?thesis unfolding eq_from_def by (metis (no_types))
qed

lemma reading_eq_from: "eq_from t m m' \<Longrightarrow> t \<le> t' \<Longrightarrow> reading t' k m = reading t' k m'"
  by (simp add: reading_def eq_from_def)

lemma reading_tick:
  "0 < w \<Longrightarrow> reading t k' (tick w t k \<delta> m) = reading t k' m + (if k' = k then \<delta> else 0)"
  by (cases "(t, m k)" rule: live.cases) (auto simp: reading_def tick_def)

text \<open>Within one window the increments of a key add up, modulo \<open>2 ^ 64\<close>.\<close>

definition ticks :: "duration \<Rightarrow> (gotime \<times> string \<times> int64) list \<Rightarrow> counters \<Rightarrow> counters" where
  "ticks w evs = fold (\<lambda>(t, k, \<delta>). tick w t k \<delta>) evs"

lemma tick_live:
  assumes "m k = Some (n, d)" and "t < d"
  shows "tick w t k' \<delta> m k = (if k' = k then Some (n + \<delta>, d) else m k)"
  using assms by (simp add: tick_def)

lemma ticks_window:
  assumes "m k = Some (n, d)" and "list_all (\<lambda>(t, _, _). t < d) evs"
  shows "ticks w evs m k = Some (n + sum_list (map (\<lambda>(_, k', \<delta>). if k' = k then \<delta> else 0) evs), d)"
  using assms
proof (induction evs arbitrary: m n)
  case Nil
  then show ?case by (simp add: ticks_def)
next
  case (Cons ev evs)
  obtain t k' \<delta> where ev: "ev = (t, k', \<delta>)" by (cases ev)
  have "tick w t k' \<delta> m k = Some (n + (if k' = k then \<delta> else 0), d)"
    using Cons.prems tick_live [of m k n d t w k' \<delta>] by (simp add: ev)
  with Cons.prems Cons.IH [of "tick w t k' \<delta> m"] show ?case by (simp add: ticks_def ev algebra_simps)
qed

text \<open>Increments at one moment add up for a reader at that moment.\<close>

lemma reading_ticks_now:
  assumes "0 < w" and "list_all (\<lambda>(t', _, _). t' = t) evs"
  shows "reading t k (ticks w evs m) = reading t k m + sum_list (map (\<lambda>(_, k', \<delta>). if k' = k then \<delta> else 0) evs)"
  using assms(2)
proof (induction evs arbitrary: m)
  case (Cons ev evs)
  then show ?case by (cases ev) (simp add: ticks_def reading_tick [OF assms(1)] add.assoc)
qed (simp add: ticks_def)

section \<open>The cache of atomic cells implements the specification\<close>

definition Increments ::
  "'c ac_ops \<Rightarrow> (gotime \<times> string \<times> int64) list \<Rightarrow> ('c, 'r) accountingCache \<Rightarrow> ('c, 'r) accountingCache" where
  "Increments ot evs = fold (\<lambda>(t, k, \<delta>) a. snd (Increment ot t k \<delta> a)) evs"

text \<open>The invariant: stored addresses are allocated, and no two keys share a cell.\<close>

definition ac_wf :: "('c \<Rightarrow> string \<Rightarrow> (nat \<times> gotime) option) \<Rightarrow> ('c, 'r) accountingCache \<Rightarrow> bool" where
  "ac_wf stored a \<longleftrightarrow>
     (\<forall>k p d. stored (ac_cache a) k = Some (p, d) \<longrightarrow> p < ac_next a) \<and>
     (\<forall>k k' p d d'. stored (ac_cache a) k = Some (p, d) \<and> stored (ac_cache a) k' = Some (p, d') \<longrightarrow> k = k')"

definition counter :: "('c \<Rightarrow> string \<Rightarrow> (nat \<times> gotime) option) \<Rightarrow> ('c, 'r) accountingCache \<Rightarrow> counters" where
  "counter stored a k = map_option (map_prod (ac_heap a) id) (stored (ac_cache a) k)"

lemma live_map: "live t (map_option (map_prod f id) e) = map_option f (live t e)"
  by (cases "(t, e)" rule: live.cases) auto

lemma live_counter: "live t (counter stored a k) = map_option (ac_heap a) (live t (stored (ac_cache a) k))"
  by (simp add: counter_def live_map)

lemma counter_calls [simp]: "counter stored (a\<lparr>ac_calls := cs\<rparr>) = counter stored a"
  by (simp add: counter_def fun_eq_iff)

lemma updateRing_set:
  assumes "consistent_ring rg"
  shows "set (ring_GetMembers rg (updateRing rg nodes r)) = set nodes"
proof -
  have rem: "set (ring_GetMembers rg (fold (ring_Remove rg) ms r)) = set (ring_GetMembers rg r) - set ms" for ms r
    by (induction ms arbitrary: r) (auto simp: consistent_ring.members_remove [OF assms])
  have add: "set (ring_GetMembers rg (fold (ring_Add rg) ms r)) = set (ring_GetMembers rg r) \<union> set ms" for ms r
    by (induction ms arbitrary: r) (auto simp: consistent_ring.members_add [OF assms])
  show ?thesis by (auto simp: updateRing_def Let_def rem add)
qed

locale accounting_cache = otter_cache ot stored room + consistent_ring rg
  for ot :: "'c ac_ops" and stored room and rg :: "'r ring"
begin

lemma Get_reading: "fst (Get ot t k a) = reading t k (counter stored a)"
  by (simp add: Get_def reading_def live_counter get split: option.split)

lemma Increment_value:
  "fst (Increment ot t k \<delta> a) = reading t k (counter stored a) + \<delta>"
  by (simp add: Increment_def reading_def live_counter get Let_def split: option.split)

lemma Increment_window [simp]: "ac_windowSize (snd (Increment ot t k \<delta> a)) = ac_windowSize a"
  by (simp add: Increment_def Let_def split: option.split)

lemma Increment_frame:
  "ac_ring (snd (Increment ot t k \<delta> a)) = ac_ring a" "ac_localNode (snd (Increment ot t k \<delta> a)) = ac_localNode a"
  "ac_transferable (snd (Increment ot t k \<delta> a)) = ac_transferable a"
  by (simp_all add: Increment_def Let_def split: option.split)

lemma Increment_room: "room (Suc n) (ac_cache a) \<Longrightarrow> room n (ac_cache (snd (Increment ot t k \<delta> a)))"
  by (simp add: Increment_def Let_def room_set room_less split: option.split)

lemma Increment_wf:
  assumes "ac_wf stored a"
  shows "ac_wf stored (snd (Increment ot t k \<delta> a))"
proof (cases "otter_GetIfPresent ot t k (ac_cache a)")
  case (Some p)
  with assms show ?thesis by (simp add: Increment_def ac_wf_def)
next
  case None
  let ?c = "otter_Set ot t (ac_windowSize a) k (ac_next a) (ac_cache a)"
  have live: "live t (stored (ac_cache a) k) = None" using None by (simp add: get)
  have old: "stored (ac_cache a) k' = Some (p, d)" if "stored ?c k' = Some (p, d)" "k' \<noteq> k" for k' p d
    using set_sound_other that by blast
  have new: "p = ac_next a" if "stored ?c k = Some (p, d)" for p d
    using set_sound_same that by blast
  have lt: "p < ac_next a" if "stored (ac_cache a) k' = Some (p, d)" for k' p d
    using assms that by (auto simp: ac_wf_def)
  have "p < Suc (ac_next a)" if "stored ?c k' = Some (p, d)" for k' p d
    using old [OF that] new lt that by (cases "k' = k") (auto simp: less_Suc_eq)
  moreover have "k1 = k2" if "stored ?c k1 = Some (p, d)" "stored ?c k2 = Some (p, d')" for k1 k2 p d d'
    using old [OF that(1)] old [OF that(2)] new that lt assms unfolding ac_wf_def
    by (cases "k1 = k"; cases "k2 = k") (force | blast)+
  ultimately show ?thesis using None by (simp add: Increment_def Let_def ac_wf_def)
qed

text \<open>One \<open>Increment\<close> is one \<open>tick\<close>, for every reader from then on.\<close>

lemma Increment_tick:
  assumes wf: "ac_wf stored a" and r: "room (Suc n) (ac_cache a)"
  shows "eq_from t (counter stored (snd (Increment ot t k \<delta> a))) (tick (ac_windowSize a) t k \<delta> (counter stored a))"
proof (cases "otter_GetIfPresent ot t k (ac_cache a)")
  case (Some p)
  then obtain d where p: "stored (ac_cache a) k = Some (p, d)" "t < d" by (auto simp: get live_Some_iff)
  let ?a' = "snd (Increment ot t k \<delta> a)"
  have "counter stored ?a' k' = tick (ac_windowSize a) t k \<delta> (counter stored a) k'" for k'
  proof (cases "k' = k")
    case True
    with Some p show ?thesis by (simp add: Increment_def counter_def tick_def)
  next
    case False
    then have "fst e \<noteq> p" if "stored (ac_cache a) k' = Some e" for e
      using wf p(1) that unfolding ac_wf_def by (metis prod.collapse)
    with False Some show ?thesis
      by (cases "stored (ac_cache a) k'") (auto simp: Increment_def counter_def tick_def)
  qed
  then have "counter stored ?a' = tick (ac_windowSize a) t k \<delta> (counter stored a)" ..
  then show ?thesis by simp
next
  case None
  let ?a' = "snd (Increment ot t k \<delta> a)"
  let ?c = "otter_Set ot t (ac_windowSize a) k (ac_next a) (ac_cache a)"
  have live: "live t (stored (ac_cache a) k) = None" using None by (simp add: get)
  then have ck: "live t (counter stored a k) = None" by (simp add: live_counter)
  have a': "ac_cache ?a' = ?c" "ac_heap ?a' = (ac_heap a)(ac_next a := \<delta>)"
    using None by (simp_all add: Increment_def Let_def)
  have "live t' (counter stored ?a' k') = live t' (tick (ac_windowSize a) t k \<delta> (counter stored a) k')"
    if "t \<le> t'" for k' t'
  proof (cases "k' = k")
    case True
    with live ck show ?thesis using set_new [OF r live] by (simp add: live_counter a' tick_def)
  next
    case False
    have "live t' (counter stored ?a' k') = map_option (ac_heap ?a') (live t' (stored (ac_cache a) k'))"
      using set_other [OF r False that] by (simp add: live_counter a')
    also have "\<dots> = live t' (counter stored a k')"
    proof (cases "live t' (stored (ac_cache a) k')")
      case (Some p)
      then have "p < ac_next a" using wf by (auto simp: ac_wf_def live_Some_iff)
      with Some show ?thesis by (simp add: live_counter a')
    qed (simp add: live_counter)
    finally show ?thesis using False by (simp add: tick_def)
  qed
  then show ?thesis by (simp add: eq_from_def)
qed

end

context accounting_cache
begin

lemma Increments_ticks:
  assumes "ac_wf stored a" and "room (length evs) (ac_cache a)" and "sorted (map fst evs)"
    and "list_all (\<lambda>(t, _). t \<le> t') evs"
  shows "eq_from t' (counter stored (Increments ot evs a)) (ticks (ac_windowSize a) evs (counter stored a))"
proof -
  have "eq_from t' (counter stored (Increments ot evs a)) (ticks (ac_windowSize a) evs m)"
    if "eq_from t0 (counter stored a) m" "t0 \<le> t'" "list_all (\<lambda>(t, _). t0 \<le> t) evs" for t0 m
    using assms that
  proof (induction evs arbitrary: a m t0)
    case Nil
    then show ?case using eq_from_mono by (simp add: Increments_def ticks_def)
  next
    case (Cons ev evs)
    obtain t k \<delta> where ev: "ev = (t, k, \<delta>)" by (cases ev)
    let ?a = "snd (Increment ot t k \<delta> a)" and ?m = "tick (ac_windowSize a) t k \<delta> m"
    have "eq_from t (counter stored ?a) ?m"
    proof (rule eq_from_trans)
      show "eq_from t (counter stored ?a) (tick (ac_windowSize a) t k \<delta> (counter stored a))"
        using Cons.prems(2) by (intro Increment_tick [OF Cons.prems(1)]) simp
      have "eq_from t (counter stored a) m" using Cons.prems(7) by (intro eq_from_mono [OF Cons.prems(5)]) (simp add: ev)
      then show "eq_from t (tick (ac_windowSize a) t k \<delta> (counter stored a)) ?m" by (rule eq_from_tick)
    qed
    moreover have "list_all (\<lambda>(s, _). t \<le> s) evs" using Cons.prems(3) by (auto simp: ev list_all_iff)
    moreover have "room (length evs) (ac_cache ?a)" using Cons.prems(2) by (simp add: Increment_room)
    moreover have "sorted (map fst evs)" "list_all (\<lambda>(s, _). s \<le> t') evs" "t \<le> t'"
      using Cons.prems(3,4) by (simp_all add: ev)
    ultimately have "eq_from t' (counter stored (Increments ot evs ?a)) (ticks (ac_windowSize ?a) evs ?m)"
      using Increment_wf [OF Cons.prems(1)] by (blast intro: Cons.IH)
    then show ?case by (simp add: Increments_def ticks_def ev)
  qed
  note * = this
  show ?thesis
  proof (cases evs)
    case Nil
    then show ?thesis using * [of t' "counter stored a"] by simp
  next
    case (Cons ev evs')
    then have "list_all (\<lambda>(t, _). fst ev \<le> t) evs" "fst ev \<le> t'" using assms(3,4) by (auto simp: list_all_iff)
    then show ?thesis using * [of "fst ev" "counter stored a"] by simp
  qed
qed

section \<open>Ownership\<close>

lemma owner_eq:
  "ring_GetMembers rg (ac_ring a) \<noteq> [] \<Longrightarrow> ring_LocateKey rg (ac_ring a) k = Some (getOwnerLockedForKey rg k a)"
  using locate_total [of "ac_ring a" k] by (auto simp: getOwnerLockedForKey_def)

lemma owner_member:
  "ring_GetMembers rg (ac_ring a) \<noteq> [] \<Longrightarrow> getOwnerLockedForKey rg k a \<in> set (ring_GetMembers rg (ac_ring a))"
  using owner_eq locate_member by blast

lemma updateRing_members: "set (ring_GetMembers rg (updateRing rg nodes r)) = set nodes"
  by (rule updateRing_set [OF consistent_ring_axioms])

section \<open>Handing counters over\<close>

lemma takeCounters_frame: "snd (takeCounters ot t ks tr a) = a\<lparr>ac_cache := ac_cache (snd (takeCounters ot t ks tr a))\<rparr>"
  by (induction ot t ks tr a rule: takeCounters.induct)
     (auto split: sum.split option.split prod.split)

lemma takeCounters_room: "room n (ac_cache a) \<Longrightarrow> room n (ac_cache (snd (takeCounters ot t ks tr a)))"
proof (induction ks arbitrary: tr a)
  case (Cons k ks)
  then show ?case using room_inval [OF Cons.prems, of t k]
    by (auto split: sum.split option.split prod.split)
qed simp

text \<open>On the keys of entities, taking counters moves each live count under its hash.\<close>

lemma takeCounters_step:
  assumes "otter_Invalidate ot t (HashToEntityKey h) (ac_cache a) = (v, c)"
  shows "takeCounters ot t (HashToEntityKey h # ks) tr a =
    takeCounters ot t ks (case v of Some p \<Rightarrow> mput h (ac_heap a p) tr | None \<Rightarrow> tr) (a\<lparr>ac_cache := c\<rparr>)"
  using assms by (simp add: key_hash_roundtrip split: option.split)

lemma key_eq_iff [simp]: "HashToEntityKey h = HashToEntityKey h' \<longleftrightarrow> h = h'"
  using key_hash_roundtrip by (metis sum.inject(2))

lemma takeCounters_moves:
  assumes "distinct hs" and "takeCounters ot t (map HashToEntityKey hs) tr a = (tr', a')"
  shows "stored (ac_cache a') = (\<lambda>k. if k \<in> HashToEntityKey ` set hs then None else stored (ac_cache a) k) \<and>
    (\<forall>h. map_of tr' h = (if h \<in> set hs \<and> live t (counter stored a (HashToEntityKey h)) \<noteq> None
       then live t (counter stored a (HashToEntityKey h)) else map_of tr h)) \<and>
    (distinct (mkeys tr) \<longrightarrow> distinct (mkeys tr'))"
  using assms
proof (induction hs arbitrary: tr a)
  case Nil
  then show ?case by simp
next
  case (Cons h1 hs)
  let ?k = "HashToEntityKey h1"
  obtain v c where inv: "otter_Invalidate ot t ?k (ac_cache a) = (v, c)" by fastforce
  then have v: "v = live t (stored (ac_cache a) ?k)" and c: "stored c = (stored (ac_cache a))(?k := None)"
    using inval_value [of t ?k "ac_cache a"] inval_stored [of t ?k "ac_cache a"] by simp_all
  let ?tr = "case v of Some p \<Rightarrow> mput h1 (ac_heap a p) tr | None \<Rightarrow> tr" and ?a = "a\<lparr>ac_cache := c\<rparr>"
  have cnt: "counter stored ?a = (counter stored a)(?k := None)" by (auto simp: counter_def c)
  have trh: "map_of ?tr h = (if h = h1 \<and> live t (counter stored a ?k) \<noteq> None
      then live t (counter stored a ?k) else map_of tr h)" for h
    by (auto simp: v live_counter split: option.split)
  have dis: "distinct (mkeys tr) \<longrightarrow> distinct (mkeys ?tr)" by (simp split: option.split)
  have "takeCounters ot t (map HashToEntityKey hs) ?tr ?a = (tr', a')"
    using Cons.prems(2) takeCounters_step [OF inv] by simp
  from Cons.IH [OF _ this] Cons.prems(1) dis show ?case
    unfolding trh cnt by (auto simp: c fun_eq_iff)
qed

end

text \<open>The keys the engine and the cluster put into the cache are keys of entities.\<close>

definition canonical_keys :: "('c \<Rightarrow> string \<Rightarrow> (nat \<times> gotime) option) \<Rightarrow> ('c, 'r) accountingCache \<Rightarrow> bool" where
  "canonical_keys stored a \<longleftrightarrow> (\<forall>k. stored (ac_cache a) k \<noteq> None \<longrightarrow> k \<in> range HashToEntityKey)"

context accounting_cache
begin

lemma owner_cache [simp]: "getOwnerLockedForKey rg k (a\<lparr>ac_cache := c\<rparr>) = getOwnerLockedForKey rg k a"
  "getOwnerLockedForKey rg k (a\<lparr>ac_transferable := tr\<rparr>) = getOwnerLockedForKey rg k a"
  by (simp_all add: getOwnerLockedForKey_def split: option.split)

lemma getTransferable_moves:
  assumes can: "canonical_keys stored a" and g: "getTransferableLocked ot rg t m a = (tr, a')"
  shows "map_of tr h = (if getOwnerLockedForKey rg (HashToEntityKey h) a = m
      then live t (counter stored a (HashToEntityKey h)) else None)"
    and "t \<le> t' \<Longrightarrow> live t' (counter stored a' k) =
      (if getOwnerLockedForKey rg k a = m then None else live t' (counter stored a k))"
    and "distinct (mkeys tr)" and "a' = a\<lparr>ac_cache := ac_cache a'\<rparr>"
    and "stored (ac_cache a') k = None \<or> stored (ac_cache a') k = stored (ac_cache a) k"
proof -
  let ?all = "map fst (otter_All ot t (ac_cache a))"
  let ?ks = "filter (\<lambda>k. getOwnerLockedForKey rg k a = m) ?all"
  have "set ?ks \<subseteq> range HashToEntityKey"
    using can all_sound by (fastforce simp: canonical_keys_def)
  then obtain hs where ks: "?ks = map HashToEntityKey hs" by (meson ex_map_conv subset_iff rangeE)
  have dis: "distinct hs" using all_distinct [of t "ac_cache a"] ks by (metis distinct_filter distinct_map)
  have tk: "takeCounters ot t (map HashToEntityKey hs) [] a = (tr, a')"
    using g by (simp only: getTransferableLocked_def Let_def ks)
  note mv = takeCounters_moves [OF dis tk]
  have mem: "k \<in> HashToEntityKey ` set hs \<longleftrightarrow> getOwnerLockedForKey rg k a = m \<and> k \<in> set ?all" for k
    using ks by (metis (mono_tags, lifting) image_set mem_Collect_eq set_filter)
  have lv: "k \<in> set ?all" if "live t' (stored (ac_cache a) k) = Some v" "t \<le> t'" for k v t'
  proof -
    have "live t (stored (ac_cache a) k) = Some v" using that by (auto simp: live_Some_iff)
    then show ?thesis using all_complete by force
  qed
  have "h \<in> set hs \<longleftrightarrow> HashToEntityKey h \<in> HashToEntityKey ` set hs" by auto
  then show "map_of tr h = (if getOwnerLockedForKey rg (HashToEntityKey h) a = m
      then live t (counter stored a (HashToEntityKey h)) else None)"
    using mv mem [of "HashToEntityKey h"] lv [of t "HashToEntityKey h"] by (auto simp: live_counter)
  have a': "a' = a\<lparr>ac_cache := ac_cache a'\<rparr>"
    using takeCounters_frame [of t "map HashToEntityKey hs" "[]" a] by (simp add: tk)
  then show "a' = a\<lparr>ac_cache := ac_cache a'\<rparr>" .
  have heap: "ac_heap a' = ac_heap a" by (subst a') simp
  show "live t' (counter stored a' k) =
      (if getOwnerLockedForKey rg k a = m then None else live t' (counter stored a k))" if "t \<le> t'"
    using mv mem [of k] lv [OF _ that, of k] by (auto simp: live_counter heap)
  show "distinct (mkeys tr)" using mv by simp
  show "stored (ac_cache a') k = None \<or> stored (ac_cache a') k = stored (ac_cache a) k"
    using mv by simp
qed

end

text \<open>
  What a change of the ring does to the counters, for the other members \<open>ms\<close>: each member gets the
  live counts of the keys it owns, the cache forgets those and keeps the rest.
\<close>

definition owned_by ::
  "'r ring \<Rightarrow> ('c \<Rightarrow> string \<Rightarrow> (nat \<times> gotime) option) \<Rightarrow> gotime \<Rightarrow> ('c, 'r) accountingCache \<Rightarrow> string \<Rightarrow> transferable \<Rightarrow> bool" where
  "owned_by rg stored t a m tr \<longleftrightarrow> distinct (mkeys tr) \<and>
     (\<forall>h. map_of tr h = (if getOwnerLockedForKey rg (HashToEntityKey h) a = m
        then live t (counter stored a (HashToEntityKey h)) else None))"

definition handed_over ::
  "'r ring \<Rightarrow> ('c \<Rightarrow> string \<Rightarrow> (nat \<times> gotime) option) \<Rightarrow> gotime \<Rightarrow> string list \<Rightarrow>
   ('c, 'r) accountingCache \<Rightarrow> ('c, 'r) accountingCache \<Rightarrow> bool" where
  "handed_over rg stored t ms a a' \<longleftrightarrow>
     (\<forall>m \<in> set ms. \<exists>tr. map_of (ac_transferable a') m = Some tr \<and> owned_by rg stored t a m tr) \<and>
     (\<forall>m. m \<notin> set ms \<longrightarrow> map_of (ac_transferable a') m = map_of (ac_transferable a) m) \<and>
     (\<forall>t' k. t \<le> t' \<longrightarrow> live t' (counter stored a' k) =
        (if getOwnerLockedForKey rg k a \<in> set ms then None else live t' (counter stored a k))) \<and>
     (\<forall>k. stored (ac_cache a') k = None \<or> stored (ac_cache a') k = stored (ac_cache a) k) \<and>
     ac_ring a' = ac_ring a \<and> ac_localNode a' = ac_localNode a \<and> ac_windowSize a' = ac_windowSize a \<and>
     ac_next a' = ac_next a"

lemma handed_overD:
  assumes "handed_over rg stored t ms a a'"
  shows "m \<in> set ms \<Longrightarrow> \<exists>tr. map_of (ac_transferable a') m = Some tr \<and> owned_by rg stored t a m tr"
    and "m \<notin> set ms \<Longrightarrow> map_of (ac_transferable a') m = map_of (ac_transferable a) m"
    and "t \<le> t' \<Longrightarrow> live t' (counter stored a' k) =
        (if getOwnerLockedForKey rg k a \<in> set ms then None else live t' (counter stored a k))"
    and "stored (ac_cache a') k = None \<or> stored (ac_cache a') k = stored (ac_cache a) k"
    and "ac_ring a' = ac_ring a" and "ac_localNode a' = ac_localNode a" and "ac_windowSize a' = ac_windowSize a"
    and "ac_next a' = ac_next a"
  using assms unfolding handed_over_def by blast+

lemma handed_over_owner:
  "handed_over rg stored t ms a a' \<Longrightarrow> getOwnerLockedForKey rg k a' = getOwnerLockedForKey rg k a"
  by (simp add: handed_over_def getOwnerLockedForKey_def split: option.split)

lemma handed_over_canonical:
  "handed_over rg stored t ms a a' \<Longrightarrow> canonical_keys stored a \<Longrightarrow> canonical_keys stored a'"
  unfolding handed_over_def canonical_keys_def by metis

lemma handed_over_wf: "handed_over rg stored t ms a a' \<Longrightarrow> ac_wf stored a \<Longrightarrow> ac_wf stored a'"
  unfolding handed_over_def ac_wf_def by (metis option.distinct(1))

lemma handed_over_Cons:
  assumes 1: "handed_over rg stored t [m1] a a1" and 2: "handed_over rg stored t ms a1 a'" and "m1 \<notin> set ms"
  shows "handed_over rg stored t (m1 # ms) a a'"
proof -
  have ob: "owned_by rg stored t a m tr" if "owned_by rg stored t a1 m tr" "m \<in> set ms" for m tr
    using that assms(3) handed_overD(3) [OF 1, of t] unfolding owned_by_def handed_over_owner [OF 1] by auto
  show ?thesis
    unfolding handed_over_def
  proof (intro conjI ballI allI impI)
    fix m assume "m \<in> set (m1 # ms)"
    then show "\<exists>tr. map_of (ac_transferable a') m = Some tr \<and> owned_by rg stored t a m tr"
      using handed_overD(1) [OF 1, of m] handed_overD(1,2) [OF 2, of m] ob assms(3) by fastforce
  next
    fix t' k assume "t \<le> t'"
    then show "live t' (counter stored a' k) =
        (if getOwnerLockedForKey rg k a \<in> set (m1 # ms) then None else live t' (counter stored a k))"
      using handed_overD(3) [OF 1, of t' k] handed_overD(3) [OF 2, of t' k] by (simp add: handed_over_owner [OF 1])
  next
    fix k show "stored (ac_cache a') k = None \<or> stored (ac_cache a') k = stored (ac_cache a) k"
      using handed_overD(4) [OF 1, of k] handed_overD(4) [OF 2, of k] by metis
  qed (use handed_overD(2,5-8) [OF 1] handed_overD(2,5-8) [OF 2] in auto)
qed

context accounting_cache
begin

lemma updateTransferable_moves:
  "canonical_keys stored a \<Longrightarrow> distinct ms \<Longrightarrow> handed_over rg stored t ms a (updateTransferableLocked ot rg t ms a)"
proof (induction ms arbitrary: a)
  case Nil
  then show ?case by (simp add: handed_over_def)
next
  case (Cons m1 ms)
  obtain tr a1 where g: "getTransferableLocked ot rg t m1 a = (tr, a1)" by fastforce
  note mv = getTransferable_moves [OF Cons.prems(1) g]
  let ?a2 = "a1\<lparr>ac_transferable := mput m1 tr (ac_transferable a1)\<rparr>"
  have cnt: "counter stored (a1\<lparr>ac_transferable := x\<rparr>) = counter stored a1" for x
    by (simp add: counter_def fun_eq_iff)
  have fr: "ac_transferable a1 = ac_transferable a" "ac_ring a1 = ac_ring a" "ac_localNode a1 = ac_localNode a"
      "ac_windowSize a1 = ac_windowSize a" "ac_next a1 = ac_next a"
    by (subst mv(4), simp)+
  have 1: "handed_over rg stored t [m1] a ?a2"
    using mv(1,2,3,5) by (simp add: handed_over_def owned_by_def cnt fr)
  from Cons.IH [OF handed_over_canonical [OF 1 Cons.prems(1)]] Cons.prems(2)
  show ?case by (simp add: g handed_over_Cons [OF 1])
qed

lemma UpdateNodes_moves:
  fixes a :: "('c, 'r) accountingCache" and nodes
  assumes "canonical_keys stored a"
  defines "a1 \<equiv> a\<lparr>ac_ring := updateRing rg nodes (ac_ring a)\<rparr>"
  shows "handed_over rg stored t (otherNodes rg a1) a1 (UpdateNodes ot rg t nodes a)"
  unfolding UpdateNodes_def a1_def [symmetric] Let_def
  using assms(1) members_distinct
  by (intro updateTransferable_moves) (simp_all add: a1_def canonical_keys_def otherNodes_def)

lemma counter_ring [simp]: "counter stored (a\<lparr>ac_ring := r\<rparr>) = counter stored a"
  by (simp add: counter_def fun_eq_iff)

text \<open>After a change of membership every count is either kept or waiting for its new owner.\<close>

lemma UpdateNodes_conserves:
  fixes a :: "('c, 'r) accountingCache" and t nodes h
  assumes can: "canonical_keys stored a" and local: "ac_localNode a \<in> set nodes"
  defines "a' \<equiv> UpdateNodes ot rg t nodes a" and "k \<equiv> HashToEntityKey h"
  shows "if GetOwner rg k a' = ac_localNode a then fst (Get ot t k a') = fst (Get ot t k a)
    else fst (Get ot t k a') = 0 \<and>
      (\<exists>tr. map_of (ac_transferable a') (GetOwner rg k a') = Some tr \<and> mval tr h = fst (Get ot t k a))"
proof -
  let ?a1 = "a\<lparr>ac_ring := updateRing rg nodes (ac_ring a)\<rparr>"
  note ho = UpdateNodes_moves [OF can, of t nodes, folded a'_def]
  let ?o = "getOwnerLockedForKey rg k ?a1"
  have o: "GetOwner rg k a' = ?o" unfolding GetOwner_def by (rule handed_over_owner [OF ho])
  have "ring_GetMembers rg (ac_ring ?a1) \<noteq> []"
    using local updateRing_members [of nodes "ac_ring a"] by auto
  then have mem: "?o \<in> set (otherNodes rg ?a1) \<longleftrightarrow> ?o \<noteq> ac_localNode a"
    using owner_member [of ?a1 k] by (auto simp: otherNodes_def)
  have cnt: "live t (counter stored a' k) = (if ?o \<noteq> ac_localNode a then None else live t (counter stored a k))"
    using handed_overD(3) [OF ho, of t k] by (simp add: mem)
  have "\<exists>tr. map_of (ac_transferable a') ?o = Some tr \<and> mval tr h = reading t k (counter stored a)"
    if "?o \<noteq> ac_localNode a"
    using handed_overD(1) [OF ho, of ?o] mem that
    by (auto simp: owned_by_def mval_def reading_def k_def)
  then show ?thesis by (auto simp: o Get_reading cnt reading_def)
qed

end

section \<open>Properties\<close>

lemma takeCounters_keeps:
  "ac_ring (snd (takeCounters ot t ks tr a)) = ac_ring a \<and> ac_localNode (snd (takeCounters ot t ks tr a)) = ac_localNode a"
  by (induction ot t ks tr a rule: takeCounters.induct) (auto split: sum.split option.split prod.split)

lemma updateTransferable_keeps:
  "ac_ring (updateTransferableLocked ot rg t ms a) = ac_ring a \<and>
   ac_localNode (updateTransferableLocked ot rg t ms a) = ac_localNode a"
proof (induction ms arbitrary: a)
  case (Cons m ms)
  then show ?case
    using takeCounters_keeps [of ot t _ "[]" a] by (auto simp: getTransferableLocked_def Let_def split: prod.split)
       (metis snd_conv)+
qed simp

lemma UpdateNodes_keeps:
  "ac_ring (UpdateNodes ot rg t ns a) = updateRing rg ns (ac_ring a)" "ac_localNode (UpdateNodes ot rg t ns a) = ac_localNode a"
  by (simp_all add: UpdateNodes_def Let_def updateTransferable_keeps)

text \<open>
  C7. One owner per key: when every node of the cluster has been told the same member list (in any
  order, from any earlier ring), all of them name the same owner for a key, it is a member, and
  exactly one node takes itself for the owner.
\<close>

theorem unique_owner:
  assumes rg: "consistent_ring rg" and ns: "ns \<noteq> []"
    and A: "list_all (\<lambda>n. ac_localNode (A n) = n \<and> set (M n) = set ns) ns"
  shows "\<exists>o1 \<in> set ns. \<forall>n \<in> set ns.
    GetOwner rg k (UpdateNodes ot rg t (M n) (A n)) = o1 \<and>
    (IsOwner rg k (UpdateNodes ot rg t (M n) (A n)) \<longleftrightarrow> n = o1) \<and>
    set (GetNodes rg (UpdateNodes ot rg t (M n) (A n))) = set ns"
proof -
  let ?B = "\<lambda>n. UpdateNodes ot rg t (M n) (A n)"
  have mem: "set (ring_GetMembers rg (ac_ring (?B n))) = set ns" if "n \<in> set ns" for n
    using A that by (simp add: UpdateNodes_keeps updateRing_set [OF rg] list_all_iff)
  have ne: "ring_GetMembers rg (ac_ring (?B n)) \<noteq> []" if "n \<in> set ns" for n
    using mem [OF that] ns by auto
  let ?o = "the (ring_LocateKey rg (ac_ring (?B (hd ns))) k)"
  have loc: "ring_LocateKey rg (ac_ring (?B n)) k = Some ?o" if "n \<in> set ns" for n
    using consistent_ring.locate_members [OF rg, of "ac_ring (?B n)" "ac_ring (?B (hd ns))" k]
      consistent_ring.locate_total [OF rg ne, of "hd ns" k] mem that ns by auto
  have own: "getOwnerLockedForKey rg k (?B n) = ?o" if "n \<in> set ns" for n
    using ne loc that by (simp add: getOwnerLockedForKey_def)
  have "?o \<in> set ns" using consistent_ring.locate_member [OF rg loc] mem ns by (metis hd_in_set)
  moreover have "ac_localNode (?B n) = n" if "n \<in> set ns" for n
    using A that by (simp add: UpdateNodes_keeps list_all_iff)
  ultimately show ?thesis
    using own mem by (intro bexI [of _ ?o]) (auto simp: GetOwner_def IsOwner_def GetNodes_def)
qed

definition emptyAccounting :: "string \<Rightarrow> string list \<Rightarrow> (nat ttl_map, string list) accountingCache" where
  "emptyAccounting node ns =
     \<lparr>ac_cache = ttl_empty, ac_heap = (\<lambda>_. 0), ac_next = 0, ac_ring = ns, ac_localNode = node, ac_maxCost = 100,
      ac_windowSize = Minute, ac_transferable = [], ac_calls = []\<rparr>"

declare emptyAccounting_def [ref_eval]

theorem unique_owner_witness:
  "\<exists>o1 \<in> {''n1'', ''n2''}. \<forall>n \<in> {''n1'', ''n2''}.
     IsOwner list_ring ''k'' (UpdateNodes ttl_ops list_ring 0 [''n1'', ''n2''] (emptyAccounting n [n])) \<longleftrightarrow> n = o1"
  using unique_owner [OF lring.consistent_ring_axioms, of "[''n1'', ''n2'']" "\<lambda>n. emptyAccounting n [n]" "\<lambda>_. [''n1'', ''n2'']"]
  unfolding list.set by (auto simp: emptyAccounting_def simp del: bex_simps)

lemma emptyAccounting_room: "n \<le> 1000 \<Longrightarrow> ttl_room n (ac_cache (emptyAccounting x ns))"
  by (simp add: ref_eval)

lemma emptyAccounting_counter [simp]: "counter ttl_stored (emptyAccounting x ns) k = None"
  by (simp add: ref_eval counter_def)

lemma emptyAccounting_wf: "ac_wf ttl_stored (emptyAccounting x ns)"
  by (simp add: ref_eval ac_wf_def)

lemma accounting_cacheI:
  "otter_cache ot stored room \<Longrightarrow> consistent_ring rg \<Longrightarrow> accounting_cache ot stored room rg"
  by (rule accounting_cache.intro)

interpretation acttl: accounting_cache ttl_ops ttl_stored ttl_room list_ring
  by unfold_locales

text \<open>
  C8. Refinement: a sequence of \<open>Increment\<close> calls at non-decreasing times, on any keys, reads from
  then on like the table of fixed-window counters. The shared atomic cells of two keys never
  alias, and a counter never outlives its window.
\<close>

theorem increments_refine:
  assumes ot: "otter_cache ot stored room" and rg: "consistent_ring rg" and wf: "ac_wf stored (a :: ('c, 'r) accountingCache)"
    and r: "room (length evs) (ac_cache a)" and sorted: "sorted (map fst evs)" "list_all (\<lambda>(t, _). t \<le> t') evs"
  shows "fst (Get ot t' k (Increments ot evs a)) = reading t' k (ticks (ac_windowSize a) evs (counter stored a)) \<and>
    fst (Increment ot t' k \<delta> (Increments ot evs a)) = reading t' k (ticks (ac_windowSize a) evs (counter stored a)) + \<delta>"
proof -
  note ac = accounting_cacheI [OF ot rg]
  have "eq_from t' (counter stored (Increments ot evs a)) (ticks (ac_windowSize a) evs (counter stored a))"
    using wf r sorted by (rule accounting_cache.Increments_ticks [OF ac])
  then show ?thesis
    by (simp add: accounting_cache.Get_reading [OF ac] accounting_cache.Increment_value [OF ac] reading_eq_from)
qed

theorem increments_refine_witness:
  "fst (Get ttl_ops 20 ''k'' (Increments ttl_ops [(1, ''k'', 2), (5, ''j'', 1), (9, ''k'', 3)] (emptyAccounting ''n1'' [''n1'']))) = 5"
  using increments_refine [OF ttl.otter_cache_axioms lring.consistent_ring_axioms 
        emptyAccounting_wf [of "''n1''" "[''n1'']"] emptyAccounting_room,
      where evs = "[(1, ''k'', 2), (5, ''j'', 1), (9, ''k'', 3)]" and t' = 20 and k = "''k''" and \<delta> = 0]
  by (simp add: ticks_def tick_def reading_def emptyAccounting_def Minute_def)
     (simp add: counter_def ref_eval)

text \<open>
  The window is fixed at the first increment: the increments of a key within one window of it
  add up (modulo \<open>2 ^ 64\<close>), other keys do not count, and at the end of the window the count reads zero.
\<close>

theorem window_count:
  assumes ot: "otter_cache ot stored room" and rg: "consistent_ring rg" and wf: "ac_wf stored (a :: ('c, 'r) accountingCache)"
    and r: "room (Suc (length evs)) (ac_cache a)" and fresh: "fst (Get ot t0 k a) = 0 \<and> otter_GetIfPresent ot t0 k (ac_cache a) = None"
    and sorted: "sorted (t0 # map fst evs)" and win: "list_all (\<lambda>(t, _). t < t0 + ac_windowSize a \<and> t \<le> t') evs"
    and t': "t0 \<le> t'"
  shows "fst (Get ot t' k (Increments ot ((t0, k, \<delta>) # evs) a)) =
    (if t' < t0 + ac_windowSize a then \<delta> + sum_list (map (\<lambda>(_, k', \<delta>'). if k' = k then \<delta>' else 0) evs) else 0)"
proof -
  note ac = accounting_cacheI [OF ot rg]
  let ?m = "counter stored a" and ?w = "ac_windowSize a"
  have "live t0 (?m k) = None"
    using fresh otter_cache.get [OF ot, of t0 k "ac_cache a"] by (simp add: live_counter)
  then have "tick ?w t0 k \<delta> ?m k = Some (\<delta>, t0 + ?w)" by (simp add: tick_def)
  moreover have "list_all (\<lambda>(t, _, _). t < t0 + ?w) evs" using win by (auto simp: list_all_iff)
  ultimately have "ticks ?w ((t0, k, \<delta>) # evs) ?m k =
      Some (\<delta> + sum_list (map (\<lambda>(_, k', \<delta>'). if k' = k then \<delta>' else 0) evs), t0 + ?w)"
    using ticks_window [of "tick ?w t0 k \<delta> ?m" k \<delta> "t0 + ?w" evs ?w] by (simp add: ticks_def)
  moreover have "eq_from t' (counter stored (Increments ot ((t0, k, \<delta>) # evs) a)) (ticks ?w ((t0, k, \<delta>) # evs) ?m)"
    using wf r sorted win t' by (intro accounting_cache.Increments_ticks [OF ac]) (auto simp: list_all_iff)
  ultimately show ?thesis
    by (simp add: accounting_cache.Get_reading [OF ac] reading_eq_from) (simp add: reading_def)
qed

theorem window_count_witness:
  "fst (Get ttl_ops 60000000004 ''k'' (Increments ttl_ops [(5, ''k'', 2), (7, ''k'', 3)] (emptyAccounting ''n1'' [''n1'']))) = 5"
  using window_count [OF ttl.otter_cache_axioms lring.consistent_ring_axioms 
        emptyAccounting_wf [of "''n1''" "[''n1'']"] emptyAccounting_room,
      where evs = "[(7, ''k'', 3)]" and ?t0.0 = 5 and t' = 60000000004 and k = "''k''" and \<delta> = 2]
  by (simp add: ref_eval Minute_def Get_def)


definition k7 :: string where
  "k7 = HashToEntityKey 7"

definition ownedAccounting :: "(nat ttl_map, string list) accountingCache" where
  "ownedAccounting = snd (Increment ttl_ops 0 k7 5 (emptyAccounting ''n1'' [''n1'']))"

lemma ownedAccounting_canonical: "canonical_keys ttl_stored ownedAccounting"
  by (auto simp: canonical_keys_def ownedAccounting_def Increment_def ref_eval
      k7_def split: if_splits)

text \<open>
  C37. The transferable counts of an owner are overwritten, not merged: whatever is waiting for a
  member when the ring is updated again is dropped when the cache no longer holds a key of that
  member. Two membership events before the next enqueue therefore lose the counts.
\<close>

theorem transferable_overwritten:
  assumes ot: "otter_cache ot stored room" and rg: "consistent_ring rg"
    and can: "canonical_keys stored (a :: ('c, 'r) accountingCache)"
    and m: "m \<in> set nodes" "m \<noteq> ac_localNode a"
    and gone: "list_all (\<lambda>(k, _). getOwnerLockedForKey rg k (a\<lparr>ac_ring := updateRing rg nodes (ac_ring a)\<rparr>) \<noteq> m)
                 (otter_All ot t (ac_cache a))"
  shows "fst (ConsumeTransferable m (UpdateNodes ot rg t nodes a)) = Some []"
proof -
  let ?a1 = "a\<lparr>ac_ring := updateRing rg nodes (ac_ring a)\<rparr>"
  note ac = accounting_cacheI [OF ot rg]
  note ho = accounting_cache.UpdateNodes_moves [OF ac can, of t nodes]
  have "m \<in> set (otherNodes rg ?a1)" using m by (simp add: otherNodes_def updateRing_set [OF rg])
  then obtain tr where tr: "map_of (ac_transferable (UpdateNodes ot rg t nodes a)) m = Some tr" "owned_by rg stored t ?a1 m tr"
    using handed_overD(1) [OF ho] by blast
  have "map_of tr h = None" for h
  proof (rule ccontr)
    let ?k = "HashToEntityKey h"
    assume "map_of tr h \<noteq> None"
    with tr(2) have own: "getOwnerLockedForKey rg ?k ?a1 = m" and "live t (counter stored a ?k) \<noteq> None"
      by (auto simp: owned_by_def accounting_cache.counter_ring [OF ac] split: if_splits)
    then obtain v where "live t (stored (ac_cache a) ?k) = Some v" by (auto simp: live_counter)
    then have "(?k, v) \<in> set (otter_All ot t (ac_cache a))" by (rule otter_cache.all_complete [OF ot])
    with gone own show False by (auto simp: list_all_iff)
  qed
  then have "tr = []" by (metis map_of_eq_empty_iff)
  with tr(1) show ?thesis by (simp add: ConsumeTransferable_def)
qed

lemma k7_eq: "k7 = ''0000000000000007''"
proof -
  have "hexpad 16 7 = ''0000000000000007''" by code_simp
  then show ?thesis by (simp add: k7_def HashToEntityKey_def)
qed

lemma ownedAccounting_eq:
  "ownedAccounting = emptyAccounting ''n1'' [''n1'']\<lparr>ac_cache := (1000, [(k7, (0, 60000000000))]),
     ac_heap := (\<lambda>_. 0)(0 := 5), ac_next := 1, ac_calls := [OnMiss]\<rparr>"
  by (simp add: ownedAccounting_def Increment_def ref_eval Minute_def)

lemma list_ring_eval:
  "ring_GetMembers list_ring [''n1'', ''n2''] = [''n1'', ''n2'']"
  "ring_LocateKey list_ring [''n1'', ''n2''] k7 = Some ''n2''"
  "updateRing list_ring [''n1'', ''n2''] [''n1''] = [''n1'', ''n2'']"
  "updateRing list_ring [''n1'', ''n2''] [''n1'', ''n2''] = [''n1'', ''n2'']"
  unfolding k7_eq by code_simp+

lemma movedAccounting:
  "UpdateNodes ttl_ops list_ring 1 [''n1'', ''n2''] ownedAccounting =
     emptyAccounting ''n1'' [''n1'', ''n2'']\<lparr>ac_cache := (1000, []), ac_heap := (\<lambda>_. 0)(0 := 5), ac_next := 1,
       ac_transferable := [(''n2'', [(7, 5)])], ac_calls := [OnMiss]\<rparr>"
  using key_hash_roundtrip [of 7, folded k7_def]
  by (simp add: UpdateNodes_def Let_def ownedAccounting_eq list_ring_eval otherNodes_def emptyAccounting_def
      getTransferableLocked_def getOwnerLockedForKey_def)
     (simp add: ttl_ops_def mdel_def list_ring_eval)


theorem transferable_overwritten_witness:
  "let a = UpdateNodes ttl_ops list_ring 1 [''n1'', ''n2''] ownedAccounting
   in fst (ConsumeTransferable ''n2'' a) = Some [(7, 5)] \<and>
      fst (ConsumeTransferable ''n2'' (UpdateNodes ttl_ops list_ring 2 [''n1'', ''n2''] a)) = Some []"
proof -
  let ?a = "UpdateNodes ttl_ops list_ring 1 [''n1'', ''n2''] ownedAccounting"
  have "canonical_keys ttl_stored ?a" and "ac_localNode ?a = ''n1''" and "otter_All ttl_ops 2 (ac_cache ?a) = []"
      and "fst (ConsumeTransferable ''n2'' ?a) = Some [(7, 5)]"
    unfolding movedAccounting
    by (simp_all add: canonical_keys_def ref_eval ConsumeTransferable_def)
  then show ?thesis
    using transferable_overwritten [OF ttl.otter_cache_axioms lring.consistent_ring_axioms, of ?a "''n2''" "[''n1'', ''n2'']" 2]
    by (simp add: Let_def)
qed

end
