(* ===== verification/Flusher.thy ===== *)
theory Flusher
  imports AccountingCache Messages
begin

text \<open>
  Package \<open>internal/accounting\<close>, file \<open>flusher.go\<close>: increments for keys that other nodes own are
  buffered per owner and sent in batches. \<open>marshal\<close> stands for \<open>proto.Marshal\<close>; \<open>send\<close> says whether
  \<open>SendAccountingMsg\<close> to an address succeeds. The object pool of the source only recycles memory.
\<close>

record flusher =
  fl_buffers :: "(string \<times> (uint64 \<times> uint64) list) list"
  fl_hasSender :: bool
  fl_senderID :: uint64
  fl_flushInterval :: duration
  fl_maxBatchSize :: int

definition NewFlusher :: "uint64 \<Rightarrow> duration \<Rightarrow> int \<Rightarrow> bool \<Rightarrow> flusher" where
  "NewFlusher senderID flushInterval maxBatchSize hasSender =
     \<lparr>fl_buffers = [], fl_hasSender = hasSender, fl_senderID = senderID,
      fl_flushInterval = (if flushInterval = 0 then 200 * Millisecond else flushInterval),
      fl_maxBatchSize = (if maxBatchSize = 0 then 1000 else maxBatchSize)\<rparr>"

definition buffer :: "string \<Rightarrow> flusher \<Rightarrow> (uint64 \<times> uint64) list" where
  "buffer addr f = (case map_of (fl_buffers f) addr of None \<Rightarrow> [] | Some b \<Rightarrow> b)"

definition setBuffer :: "string \<Rightarrow> (uint64 \<times> uint64) list \<Rightarrow> flusher \<Rightarrow> flusher" where
  "setBuffer addr b f = f\<lparr>fl_buffers := mput addr b (fl_buffers f)\<rparr>"

text \<open>\<open>uint64(time.Now().UnixMilli())\<close>.\<close>

definition unixMilli :: "gotime \<Rightarrow> uint64" where
  "unixMilli now = of_int (now div 1000000)"

definition flushNode ::
  "('z drlMessage \<Rightarrow> 'w list option) \<Rightarrow> (string \<Rightarrow> 'w list \<Rightarrow> bool) \<Rightarrow> gotime \<Rightarrow> string \<Rightarrow> flusher \<Rightarrow>
   flusher \<times> 'w effect list" where
  "flushNode marshal send now addr f =
     (let batch = \<lparr>cb_SenderId = fl_senderID f, cb_Timestamp = unixMilli now,
                   cb_Entries = toEntries (buffer addr f)\<rparr>;
          f' = setBuffer addr [] f
      in case marshal (Counters batch) of
           None \<Rightarrow> (f', [])
         | Some data \<Rightarrow>
             if \<not> fl_hasSender f then (f', [])
             else (f', SendBestEffort addr data #
                       (if send addr data then [Metric IncAccountingFlush, Metric IncMembershipBestEffort] else [])))"

definition Enqueue ::
  "('z drlMessage \<Rightarrow> 'w list option) \<Rightarrow> (string \<Rightarrow> 'w list \<Rightarrow> bool) \<Rightarrow> gotime \<Rightarrow> string \<Rightarrow> uint64 \<Rightarrow> uint64 \<Rightarrow>
   ('c, 'r) accountingCache \<Rightarrow> flusher \<Rightarrow> (flusher \<times> 'w effect list) \<times> ('c, 'r) accountingCache" where
  "Enqueue marshal send now ownerAddr entityHash hits a f =
     (let entries = madd entityHash hits (buffer ownerAddr f);
          (t, a') = ConsumeTransferable ownerAddr a;
          entries' = (case t of None \<Rightarrow> entries | Some entities \<Rightarrow> fold (\<lambda>(k, v). madd k v) entities entries);
          f' = setBuffer ownerAddr entries' f
      in (if fl_maxBatchSize f \<le> int (length entries') then flushNode marshal send now ownerAddr f' else (f', []), a'))"

definition PendingCount :: "flusher \<Rightarrow> int" where
  "PendingCount f = sum_list (map (\<lambda>(_, b). int (length b)) (fl_buffers f))"

fun flush_loop ::
  "('z drlMessage \<Rightarrow> 'w list option) \<Rightarrow> (string \<Rightarrow> 'w list \<Rightarrow> bool) \<Rightarrow> gotime \<Rightarrow> string list \<Rightarrow> flusher \<Rightarrow>
   flusher \<times> 'w effect list" where
  "flush_loop marshal send now [] f = (f, [])"
| "flush_loop marshal send now (addr # addrs) f =
     (if buffer addr f = [] then flush_loop marshal send now addrs f
      else case flushNode marshal send now addr f of (f1, out1) \<Rightarrow>
           case flush_loop marshal send now addrs f1 of (f2, out2) \<Rightarrow> (f2, out1 @ out2))"

definition flush ::
  "('z drlMessage \<Rightarrow> 'w list option) \<Rightarrow> (string \<Rightarrow> 'w list \<Rightarrow> bool) \<Rightarrow> gotime \<Rightarrow> flusher \<Rightarrow> flusher \<times> 'w effect list" where
  "flush marshal send now f = flush_loop marshal send now (mkeys (fl_buffers f)) f"

text \<open>
  \<open>flushLoop\<close>: the goroutine selects between the stop channel and the ticker; a tick flushes, the stop
  flushes a last time and ends the loop. The argument is the sequence of selected cases.
\<close>

datatype wakeup = Tick | StopCh

fun flushLoop ::
  "('z drlMessage \<Rightarrow> 'w list option) \<Rightarrow> (string \<Rightarrow> 'w list \<Rightarrow> bool) \<Rightarrow> (gotime \<times> wakeup) list \<Rightarrow> flusher \<Rightarrow>
   flusher \<times> 'w effect list" where
  "flushLoop marshal send [] f = (f, [])"
| "flushLoop marshal send ((now, StopCh) # ws) f = flush marshal send now f"
| "flushLoop marshal send ((now, Tick) # ws) f =
     (case flush marshal send now f of (f1, out1) \<Rightarrow>
      case flushLoop marshal send ws f1 of (f2, out2) \<Rightarrow> (f2, out1 @ out2))"

section \<open>Buffers\<close>

definition flusher_wf :: "flusher \<Rightarrow> bool" where
  "flusher_wf f \<longleftrightarrow> distinct (mkeys (fl_buffers f)) \<and> list_all (\<lambda>(_, b). distinct (mkeys b)) (fl_buffers f)"

lemma buffer_setBuffer [simp]: "buffer a (setBuffer addr b f) = (if a = addr then b else buffer a f)"
  by (simp add: buffer_def setBuffer_def)

lemma setBuffer_fields [simp]: "fl_hasSender (setBuffer addr b f) = fl_hasSender f"
  "fl_maxBatchSize (setBuffer addr b f) = fl_maxBatchSize f" "fl_senderID (setBuffer addr b f) = fl_senderID f"
  by (simp_all add: setBuffer_def)

lemma buffer_wf: "flusher_wf f \<Longrightarrow> distinct (mkeys (buffer addr f))"
  by (auto simp: flusher_wf_def buffer_def list_all_iff dest: map_of_SomeD split: option.split)

lemma set_mput_sub: "set (mput k v m) \<subseteq> insert (k, v) (set m)"
  by (induction k v m rule: mput.induct) auto

lemma setBuffer_wf: "flusher_wf f \<Longrightarrow> distinct (mkeys b) \<Longrightarrow> flusher_wf (setBuffer addr b f)"
  using set_mput_sub [of addr b "fl_buffers f"] by (auto simp: flusher_wf_def setBuffer_def list_all_iff)

lemma distinct_fold_madd: "distinct (mkeys m) \<Longrightarrow> distinct (mkeys (fold (\<lambda>(k, v). madd k v) es m))"
  by (induction es arbitrary: m) auto

lemma mval_Cons: "mval ((k, v) # m) h = (if h = k then v else mval m h)"
  by (simp add: mval_def)

lemma mval_fold_madd: "distinct (mkeys es) \<Longrightarrow> mval (fold (\<lambda>(k, v). madd k v) es m) h = mval m h + mval es h"
proof (induction es arbitrary: m)
  case (Cons e es)
  obtain k v where e: "e = (k, v)" by (cases e)
  have "map_of es k = None" using Cons.prems by (simp add: e map_of_eq_None_iff)
  then have "mval es k = 0" by (simp add: mval_def)
  with Cons show ?case by (simp add: e mval_Cons)
qed (simp add: mval_def)

text \<open>Enqueueing only updates metrics and sends counter batches.\<close>

lemma Enqueue_effects:
  "list_all (\<lambda>x. case x of Metric _ \<Rightarrow> True | SendBestEffort _ _ \<Rightarrow> True | _ \<Rightarrow> False)
     (snd (fst (Enqueue marshal send now addr h n a f)))"
  by (auto simp: Enqueue_def flushNode_def Let_def split: option.split prod.split)

section \<open>Conservation of hits\<close>

text \<open>The hits for an entity that a list of effects hands to the transport for an address.\<close>

fun handed1 :: "('w list \<Rightarrow> 'z drlMessage option) \<Rightarrow> string \<Rightarrow> uint64 \<Rightarrow> 'w effect \<Rightarrow> uint64" where
  "handed1 unmarshal addr h (SendBestEffort a data) =
     (if a = addr then (case unmarshal data of Some (Counters b) \<Rightarrow> entry_hits h (cb_Entries b) | _ \<Rightarrow> 0) else 0)"
| "handed1 unmarshal addr h _ = 0"

definition handed :: "('w list \<Rightarrow> 'z drlMessage option) \<Rightarrow> string \<Rightarrow> uint64 \<Rightarrow> 'w effect list \<Rightarrow> uint64" where
  "handed unmarshal addr h effs = sum_list (map (handed1 unmarshal addr h) effs)"

definition pending :: "string \<Rightarrow> uint64 \<Rightarrow> flusher \<Rightarrow> uint64" where
  "pending addr h f = mval (buffer addr f) h"

definition waiting :: "string \<Rightarrow> uint64 \<Rightarrow> ('c, 'r) accountingCache \<Rightarrow> uint64" where
  "waiting addr h a = (case map_of (ac_transferable a) addr of None \<Rightarrow> 0 | Some t \<Rightarrow> mval t h)"

definition transferable_wf :: "('c, 'r) accountingCache \<Rightarrow> bool" where
  "transferable_wf a \<longleftrightarrow> list_all (\<lambda>(_, t). distinct (mkeys t)) (ac_transferable a)"

lemma handed_append [simp]: "handed u addr h (xs @ ys) = handed u addr h xs + handed u addr h ys"
  by (simp add: handed_def)

lemma flushNode_wf: "flusher_wf f \<Longrightarrow> flusher_wf (fst (flushNode marshal send now addr f))"
  by (simp add: flushNode_def Let_def setBuffer_wf split: option.split)

lemma flushNode_buffer:
  "buffer a (fst (flushNode marshal send now addr f)) = (if a = addr then [] else buffer a f)"
  "fl_maxBatchSize (fst (flushNode marshal send now addr f)) = fl_maxBatchSize f"
  "fl_hasSender (fst (flushNode marshal send now addr f)) = fl_hasSender f"
  by (simp_all add: flushNode_def Let_def split: option.split)

lemma transferable_wf_mdel: "transferable_wf a \<Longrightarrow> transferable_wf (snd (ConsumeTransferable addr a))"
  by (auto simp: transferable_wf_def ConsumeTransferable_def list_all_iff mdel_def)

text \<open>
  The protobuf codec of the envelope: counter batches have no string field, so they always marshal
  (a string that is not UTF-8 is an error), and a message with content set is not empty.
\<close>

locale message_codec = codec enc dec
  for enc :: "'z drlMessage \<Rightarrow> 'w list option" and dec +
  assumes enc_counters: "enc (Counters b) \<noteq> None"
    and enc_content: "m \<noteq> NoContent \<Longrightarrow> enc m = Some data \<Longrightarrow> data \<noteq> []"
begin

lemma flushNode_conserves:
  assumes "flusher_wf f" and "fl_hasSender f"
  shows "handed dec a h (snd (flushNode enc send now addr f)) + pending a h (fst (flushNode enc send now addr f)) = pending a h f"
proof -
  obtain data where e: "enc (Counters \<lparr>cb_SenderId = fl_senderID f, cb_Timestamp = unixMilli now,
      cb_Entries = toEntries (buffer addr f)\<rparr>) = Some data" (is "enc ?m = _") using enc_counters by blast
  then have "dec data = Some ?m" by (rule dec_enc)
  with assms e show ?thesis
    by (simp add: flushNode_def Let_def handed_def pending_def entry_hits_toEntries buffer_wf mval_def)
qed

lemma Enqueue_conserves:
  assumes "flusher_wf f" and "fl_hasSender f" and "transferable_wf a"
    and "Enqueue enc send now addr h n a f = ((f', out), a')"
  shows "handed dec x k out + pending x k f' + waiting x k a' =
    pending x k f + waiting x k a + (if x = addr \<and> k = h then n else 0)"
    and "flusher_wf f'" and "fl_hasSender f'" and "transferable_wf a'"
proof -
  let ?es = "madd h n (buffer addr f)"
  let ?es' = "case map_of (ac_transferable a) addr of None \<Rightarrow> ?es | Some t \<Rightarrow> fold (\<lambda>(k, v). madd k v) t ?es"
  let ?f = "setBuffer addr ?es' f"
  have d: "distinct (mkeys t)" if "map_of (ac_transferable a) addr = Some t" for t
    using assms(3) map_of_SomeD [OF that] by (auto simp: transferable_wf_def list_all_iff)
  have wf: "flusher_wf ?f"
    using assms(1) by (intro setBuffer_wf) (simp_all add: distinct_fold_madd buffer_wf split: option.split)
  have a': "a' = snd (ConsumeTransferable addr a)"
    and fo: "(f', out) = (if fl_maxBatchSize f \<le> int (length ?es') then flushNode enc send now addr ?f else (?f, []))"
    using assms(4) by (auto simp: Enqueue_def ConsumeTransferable_def Let_def)
  have "pending x k ?f = pending x k f + (if x = addr then waiting x k a else 0) + (if x = addr \<and> k = h then n else 0)"
    using d by (auto simp: pending_def waiting_def mval_fold_madd split: option.split)
  moreover have "waiting x k a' = (if x = addr then 0 else waiting x k a)"
    by (simp add: a' waiting_def ConsumeTransferable_def)
  moreover have "handed dec x k out + pending x k f' = pending x k ?f"
  proof (cases "fl_maxBatchSize f \<le> int (length ?es')")
    case True
    then have "flushNode enc send now addr ?f = (f', out)" using fo by (simp only: if_True)
    then show ?thesis using flushNode_conserves [OF wf, of x k send now addr] assms(2) by simp
  next
    case False
    then have "f' = ?f" "out = []" using fo by (simp_all only: if_False prod.inject)
    then show ?thesis by (simp add: handed_def)
  qed
  ultimately show "handed dec x k out + pending x k f' + waiting x k a' =
      pending x k f + waiting x k a + (if x = addr \<and> k = h then n else 0)" by auto
  show "flusher_wf f'" using wf flushNode_wf [OF wf, of enc send now addr] by (metis fo fst_conv)
  show "fl_hasSender f'" using assms(2) flushNode_buffer(3) [of enc send now addr ?f] by (metis fo fst_conv setBuffer_fields(1))
  show "transferable_wf a'" using assms(3) by (simp add: a' transferable_wf_mdel)
qed

lemma flush_loop_conserves:
  assumes "flusher_wf f" and "fl_hasSender f" and "flush_loop enc send now addrs f = (f', out)"
  shows "handed dec x k out + pending x k f' = pending x k f \<and> flusher_wf f' \<and> fl_hasSender f'"
  using assms
proof (induction addrs arbitrary: f f' out)
  case (Cons addr addrs)
  show ?case
  proof (cases "buffer addr f = []")
    case False
    obtain f1 out1 where 1: "flushNode enc send now addr f = (f1, out1)" by fastforce
    obtain f2 out2 where 2: "flush_loop enc send now addrs f1 = (f2, out2)" by fastforce
    have "flusher_wf f1" "fl_hasSender f1"
      using flushNode_wf [OF Cons.prems(1), of enc send now addr] flushNode_buffer(3) [of enc send now addr f] 1 Cons.prems(2) by auto
    from Cons.IH [OF this 2] flushNode_conserves [OF Cons.prems(1,2), of x k send now addr] 1 2 Cons.prems(3) False
    show ?thesis by (auto simp: add.assoc)
  next
    case True
    then have "flush_loop enc send now addrs f = (f', out)" using Cons.prems(3) by simp
    then show ?thesis by (rule Cons.IH [OF Cons.prems(1,2)])
  qed
qed (simp add: handed_def)

end

lemma flush_loop_empties:
  "buffer x (fst (flush_loop marshal send now addrs f)) = (if x \<in> set addrs then [] else buffer x f)"
proof (induction addrs arbitrary: f)
  case (Cons addr addrs)
  then show ?case
    using flushNode_buffer(1) [of x marshal send now addr f] by (auto split: prod.split) (metis fst_conv)+
qed simp

lemma flush_empties: "buffer x (fst (flush marshal send now f)) = []"
proof (cases "x \<in> set (mkeys (fl_buffers f))")
  case False
  then have "map_of (fl_buffers f) x = None" by (simp add: map_of_eq_None_iff)
  then have "buffer x f = []" by (simp add: buffer_def)
  with False show ?thesis by (simp add: flush_def flush_loop_empties)
qed (simp add: flush_def flush_loop_empties)

section \<open>Properties\<close>

text \<open>A run of the flusher: calls of \<open>Enqueue\<close> and ticks of the loop, each at its time.\<close>

datatype flusherOp = OpEnqueue string uint64 uint64 | OpFlush

fun flusherStep ::
  "('z drlMessage \<Rightarrow> 'w list option) \<Rightarrow> (gotime \<Rightarrow> string \<Rightarrow> 'w list \<Rightarrow> bool) \<Rightarrow> gotime \<times> flusherOp \<Rightarrow>
   flusher \<times> ('c, 'r) accountingCache \<times> 'w effect list \<Rightarrow> flusher \<times> ('c, 'r) accountingCache \<times> 'w effect list" where
  "flusherStep marshal send (now, OpEnqueue addr h n) (f, a, out) =
     (case Enqueue marshal (send now) now addr h n a f of ((f', out'), a') \<Rightarrow> (f', a', out @ out'))"
| "flusherStep marshal send (now, OpFlush) (f, a, out) =
     (case flush marshal (send now) now f of (f', out') \<Rightarrow> (f', a, out @ out'))"

fun enqueued :: "string \<Rightarrow> uint64 \<Rightarrow> gotime \<times> flusherOp \<Rightarrow> uint64" where
  "enqueued x k (_, OpEnqueue addr h n) = (if x = addr \<and> k = h then n else 0)"
| "enqueued x k (_, OpFlush) = 0"

context message_codec
begin

lemma flusherStep_conserves:
  assumes "flusher_wf f" and "fl_hasSender f" and "transferable_wf a"
    and "flusherStep enc send op (f, a, out) = (f', a', out')"
  shows "handed dec x k out' + pending x k f' + waiting x k a' =
      handed dec x k out + pending x k f + waiting x k a + enqueued x k op \<and>
    flusher_wf f' \<and> fl_hasSender f' \<and> transferable_wf a'"
proof -
  obtain now o1 where op: "op = (now, o1)" by (cases op)
  show ?thesis
  proof (cases o1)
    case (OpEnqueue addr h n)
    obtain f1 out1 a1 where e: "Enqueue enc (send now) now addr h n a f = ((f1, out1), a1)" by (metis prod.exhaust)
    with assms(4) have "f' = f1" "a' = a1" "out' = out @ out1" by (auto simp: op OpEnqueue)
    with Enqueue_conserves(1) [OF assms(1-3) e, of x k] Enqueue_conserves(2-) [OF assms(1-3) e]
    show ?thesis by (simp add: op OpEnqueue add.assoc)
  next
    case OpFlush
    obtain f1 out1 where e: "flush enc (send now) now f = (f1, out1)" by fastforce
    with assms(4) have "f' = f1" "a' = a" "out' = out @ out1" by (auto simp: op OpFlush)
    with flush_loop_conserves [OF assms(1,2) e [unfolded flush_def], of x k] assms(3)
    show ?thesis by (auto simp: op OpFlush add.assoc add.left_commute)
  qed
qed

lemma run_conserves:
  assumes "flusher_wf f" and "fl_hasSender f" and "transferable_wf a"
    and "fold (flusherStep enc send) ops (f, a, out) = (f', a', out')"
  shows "handed dec x k out' + pending x k f' + waiting x k a' =
      handed dec x k out + pending x k f + waiting x k a + sum_list (map (enqueued x k) ops)"
  using assms
proof (induction ops arbitrary: f a out)
  case (Cons op ops)
  obtain f1 a1 out1 where s: "flusherStep enc send op (f, a, out) = (f1, a1, out1)" by (metis prod.exhaust)
  from flusherStep_conserves [OF Cons.prems(1-3) s, of x k] Cons.IH [of f1 a1 out1] Cons.prems(4) s
  show ?case by (simp add: add.assoc)
qed simp

end

text \<open>
  C10. No hit is lost or counted twice on its way out: over any run of \<open>Enqueue\<close> calls and flushes, for
  every owner and entity, the hits handed to the transport plus those still buffered plus those
  waiting for the owner equal the hits enqueued plus what was there at the start (modulo \<open>2 ^ 64\<close>).
  A final flush leaves nothing buffered.
\<close>

theorem flusher_conserves:
  assumes co: "message_codec marshal unmarshal" and wf: "flusher_wf f" and s: "fl_hasSender f" and tr: "transferable_wf a"
    and run: "fold (flusherStep marshal send) ops (f, a, []) = (f', a', out)"
  shows "handed unmarshal addr h out + pending addr h f' + waiting addr h a' =
      pending addr h f + waiting addr h a + sum_list (map (enqueued addr h) ops) \<and>
    pending addr h (fst (flush marshal send' now f')) = 0"
  using message_codec.run_conserves [OF co wf s tr run, of addr h]
  by (simp add: handed_def pending_def flush_empties mval_def)

interpretation mcell: message_codec cell_enc cell_dec
  by unfold_locales (auto simp: cell_enc_def)

theorem flusher_conserves_witness:
  "\<exists>f' a' out. fold (flusherStep (cell_enc :: unit drlMessage \<Rightarrow> _) (\<lambda>_ _ _. True)) [(0, OpEnqueue ''n2'' 7 2), (1, OpFlush), (2, OpEnqueue ''n2'' 7 3)]
       (NewFlusher 1 0 0 True, emptyAccounting ''n1'' [''n1'', ''n2''], []) = (f', a', out) \<and>
     handed cell_dec ''n2'' 7 out + pending ''n2'' 7 f' + waiting ''n2'' 7 a' = 5"
proof -
  obtain f' a' out where run: "fold (flusherStep (cell_enc :: unit drlMessage \<Rightarrow> _) (\<lambda>_ _ _. True))
      [(0, OpEnqueue ''n2'' 7 2), (1, OpFlush), (2, OpEnqueue ''n2'' 7 3)]
      (NewFlusher 1 0 0 True, emptyAccounting ''n1'' [''n1'', ''n2''], []) = (f', a', out)" by (metis prod.exhaust)
  have "flusher_wf (NewFlusher 1 0 0 True)" "fl_hasSender (NewFlusher 1 0 0 True)"
      "transferable_wf (emptyAccounting ''n1'' [''n1'', ''n2''])"
    by (simp_all add: flusher_wf_def NewFlusher_def transferable_wf_def emptyAccounting_def)
  from flusher_conserves [OF mcell.message_codec_axioms this run, of "''n2''" 7, THEN conjunct1]
  have "handed cell_dec ''n2'' 7 out + pending ''n2'' 7 f' + waiting ''n2'' 7 a' = 5"
    unfolding pending_def [of _ _ "NewFlusher 1 0 0 True"] waiting_def [of _ _ "emptyAccounting _ _"]
    by (simp add: buffer_def NewFlusher_def emptyAccounting_def mval_def)
  with run show ?thesis by blast
qed

text \<open>
  Buffers are bounded: after every \<open>Enqueue\<close> the buffer of each owner holds fewer entries than the
  configured batch size (when that is positive), whatever was transferred into it.
\<close>

theorem enqueue_bounded:
  assumes "0 < fl_maxBatchSize f" and "int (length (buffer x f)) < fl_maxBatchSize f"
  shows "int (length (buffer x (fst (fst (Enqueue marshal send now addr h n a f))))) < fl_maxBatchSize f"
proof -
  obtain t a' where c: "ConsumeTransferable addr a = (t, a')" by fastforce
  show ?thesis using assms by (simp add: Enqueue_def c Let_def flushNode_buffer)
qed

theorem enqueue_bounded_witness:
  "int (length (buffer ''n2'' (fst (fst (Enqueue (cell_enc :: unit drlMessage \<Rightarrow> _) (\<lambda>_ _. True) 0 ''n2'' 7 1 (emptyAccounting ''n1'' [])
     (NewFlusher 1 0 1 True)))))) < 1"
  using enqueue_bounded [of "NewFlusher 1 0 1 True" "''n2''" "cell_enc :: unit drlMessage \<Rightarrow> _" "\<lambda>_ _. True" 0 "''n2''" 7 1
      "emptyAccounting ''n1'' []"]
  by (simp add: NewFlusher_def buffer_def)

end
