(* ===== verification/Handover.thy ===== *)
theory Handover
  imports Flusher
begin

text \<open>
  Package \<open>internal/membership\<close>, file \<open>handover.go\<close>: a node that shuts down sends its counters to one
  other member, which hands each of them to its new owner. The cluster's address list, the reliable
  transport (\<open>send\<close>), protobuf (\<open>marshalB\<close>, \<open>unmarshalB\<close>, \<open>marshal\<close>) and zstd (\<open>compress\<close>, \<open>decompress\<close>) are
  parameters; \<open>clk\<close> is the clock reading before the attempt on an address.
\<close>

record handover =
  ho_shutdown :: bool
  ho_hasFlusher :: bool
  ho_settling :: duration
  ho_timeout :: duration

datatype handoverError =
    ENoAccounting | ENoCluster | ENoMetrics | ENoLogger
  | EMarshalBatch | EMarshalMsg | EHandoverTimeout | ENoAdopter

definition NewHandover ::
  "bool \<Rightarrow> bool \<Rightarrow> bool \<Rightarrow> bool \<Rightarrow> bool \<Rightarrow> duration \<Rightarrow> duration \<Rightarrow> handoverError + handover" where
  "NewHandover hasAccounting hasCluster hasMetrics hasLogger hasFlusher settling timeout =
     (if \<not> hasAccounting then Inl ENoAccounting
      else if \<not> hasCluster then Inl ENoCluster
      else if \<not> hasMetrics then Inl ENoMetrics
      else if \<not> hasLogger then Inl ENoLogger
      else Inr \<lparr>ho_shutdown = False, ho_hasFlusher = hasFlusher,
                ho_settling = (if settling = 0 then 2 * Second else settling),
                ho_timeout = (if timeout = 0 then 10 * Second else timeout)\<rparr>)"

definition IsShuttingDown :: "handover \<Rightarrow> bool" where
  "IsShuttingDown h = ho_shutdown h"

section \<open>Leaving\<close>

definition snapshotEntries :: "(string \<times> int64) list \<Rightarrow> counterEntry list" where
  "snapshotEntries snapshot =
     concat (map (\<lambda>(key, count). case EntityKeyToHash key of
                                   Inl err \<Rightarrow> []
                                 | Inr entityHash \<Rightarrow> [\<lparr>EntityHash = entityHash, Hits = count\<rparr>]) snapshot)"

text \<open>The loop over the adopters: \<open>deadline\<close> is when the context expires.\<close>

fun tryAdopters ::
  "(string \<Rightarrow> 'w list \<Rightarrow> bool) \<Rightarrow> (string \<Rightarrow> gotime) \<Rightarrow> gotime \<Rightarrow> gotime \<Rightarrow> nat \<Rightarrow> 'w list \<Rightarrow> string list \<Rightarrow>
   handoverError option \<times> 'w effect list" where
  "tryAdopters send clk start deadline n msgData [] = (Some ENoAdopter, [Metric IncHandoverFailed])"
| "tryAdopters send clk start deadline n msgData (addr # addrs) =
     (if deadline \<le> clk addr then (Some EHandoverTimeout, [Metric IncHandoverFailed])
      else if send addr msgData
      then (None, [SendReliable addr msgData, Metric (AddHandoverOut n),
                   Metric (ObserveHandoverDuration ((clk addr - start) div Millisecond))])
      else case tryAdopters send clk start deadline n msgData addrs of
             (r, out) \<Rightarrow> (r, SendReliable addr msgData # out))"

text \<open>
  \<open>Evacuate\<close>: the outer \<open>None\<close> is the panic of closing the shutdown channel twice; the inner one is a
  nil error.
\<close>

definition Evacuate ::
  "'c ac_ops \<Rightarrow> (string \<Rightarrow> uint64) \<Rightarrow> (counterBatch \<Rightarrow> 'z list option) \<Rightarrow> ('z list \<Rightarrow> 'z list) \<Rightarrow>
   ('z drlMessage \<Rightarrow> 'w list option) \<Rightarrow> (string \<Rightarrow> 'w list \<Rightarrow> bool) \<Rightarrow> (string \<Rightarrow> gotime) \<Rightarrow> gotime \<Rightarrow> string \<Rightarrow> string list \<Rightarrow>
   ('c, 'r) accountingCache \<Rightarrow> handover \<Rightarrow> ((handoverError option \<times> 'w effect list) \<times> handover) option" where
  "Evacuate ot xx marshalB compress marshal send clk now localAddr addrs a h =
     (if ho_shutdown h then None
      else let h' = h\<lparr>ho_shutdown := True\<rparr>;
               snapshot = SnapshotAll ot now a
           in if snapshot = [] then Some ((None, []), h')
              else let batch = \<lparr>cb_SenderId = xx localAddr, cb_Timestamp = unixMilli now,
                                cb_Entries = snapshotEntries snapshot\<rparr>
                   in case marshalB batch of
                        None \<Rightarrow> Some ((Some EMarshalBatch, []), h')
                      | Some batchData \<Rightarrow>
                          let payload = \<lparr>hp_SenderId = cb_SenderId batch, hp_Timestamp = cb_Timestamp batch,
                                         hp_CompressedEntries = compress batchData,
                                         hp_EntityCount = of_nat (length (cb_Entries batch))\<rparr>
                          in case marshal (HandoverMsg payload) of
                               None \<Rightarrow> Some ((Some EMarshalMsg, []), h')
                             | Some msgData \<Rightarrow>
                                 Some (tryAdopters send clk now (now + ho_timeout h) (length (cb_Entries batch)) msgData
                                         (filter (\<lambda>addr. addr \<noteq> localAddr) addrs), h'))"

section \<open>Adopting\<close>

text \<open>\<open>HandleIncoming\<close>: the batch for which it starts the \<open>redistribute\<close> goroutine, if any.\<close>

definition HandleIncoming ::
  "('z list \<Rightarrow> 'z list option) \<Rightarrow> ('z list \<Rightarrow> counterBatch option) \<Rightarrow> 'z handoverPayload \<Rightarrow> handover \<Rightarrow> counterBatch option" where
  "HandleIncoming decompress unmarshalB payload h =
     (if IsShuttingDown h then None
      else if hp_CompressedEntries payload = [] then None
      else case decompress (hp_CompressedEntries payload) of
             None \<Rightarrow> None
           | Some decompressed \<Rightarrow> unmarshalB decompressed)"

text \<open>\<open>redistribute\<close>, after the settling period: one entry, and the loop.\<close>

definition redistribute1 ::
  "'c ac_ops \<Rightarrow> 'r ring \<Rightarrow> ('z drlMessage \<Rightarrow> 'w list option) \<Rightarrow> (string \<Rightarrow> 'w list \<Rightarrow> bool) \<Rightarrow> gotime \<Rightarrow> counterEntry \<Rightarrow>
   ('c, 'r) accountingCache \<times> flusher option \<times> 'w effect list \<times> nat \<Rightarrow>
   ('c, 'r) accountingCache \<times> flusher option \<times> 'w effect list \<times> nat" where
  "redistribute1 ot rg marshal send now entry s =
     (case s of (a, f, out, n) \<Rightarrow>
        let key = HashToEntityKey (EntityHash entry);
            ownerAddr = GetOwner rg key a
        in if IsOwner rg key a
           then (snd (Increment ot now key (Hits entry) a), f, out, Suc n)
           else case f of
                  None \<Rightarrow> (a, f, out, n)
                | Some fl \<Rightarrow>
                    (case Enqueue marshal send now ownerAddr (EntityHash entry) (Hits entry) a fl of
                       ((fl', out'), a') \<Rightarrow> (a', Some fl', out @ out', Suc n)))"

definition redistribute ::
  "'c ac_ops \<Rightarrow> 'r ring \<Rightarrow> ('z drlMessage \<Rightarrow> 'w list option) \<Rightarrow> (string \<Rightarrow> 'w list \<Rightarrow> bool) \<Rightarrow> gotime \<Rightarrow> counterBatch \<Rightarrow>
   ('c, 'r) accountingCache \<Rightarrow> flusher option \<Rightarrow> ('c, 'r) accountingCache \<times> flusher option \<times> 'w effect list" where
  "redistribute ot rg marshal send now batch a f =
     (case fold (redistribute1 ot rg marshal send now) (cb_Entries batch) (a, f, [], 0) of
        (a', f', out, n) \<Rightarrow> (a', f', out @ [Metric (AddHandoverIn n)]))"

section \<open>The snapshot\<close>

text \<open>The first adopter that accepts is the only one the payload is delivered to.\<close>

lemma tryAdopters_success:
  "tryAdopters send clk start deadline n d addrs = (None, out) \<Longrightarrow>
     \<exists>pre a post. addrs = pre @ a # post \<and> send a d \<and> (\<forall>x \<in> set pre. \<not> send x d) \<and>
       out = map (\<lambda>x. SendReliable x d) (pre @ [a]) @
         [Metric (AddHandoverOut n), Metric (ObserveHandoverDuration ((clk a - start) div Millisecond))]"
proof (induction send clk start deadline n d addrs arbitrary: out rule: tryAdopters.induct)
  case (2 send clk start deadline n d addr addrs)
  show ?case
  proof (cases "send addr d")
    case True
    with "2.prems" show ?thesis
      by (intro exI [of _ "[]"] exI [of _ addr] exI [of _ addrs]) (auto split: if_splits)
  next
    case False
    with "2.prems" obtain out' where o: "tryAdopters send clk start deadline n d addrs = (None, out')"
        "out = SendReliable addr d # out'" "\<not> deadline \<le> clk addr"
      by (auto split: if_splits prod.splits)
    from "2.IH" [OF o(3) False o(1)] obtain pre a post where "addrs = pre @ a # post" "send a d"
      "\<forall>x \<in> set pre. \<not> send x d" "out' = map (\<lambda>x. SendReliable x d) (pre @ [a]) @
         [Metric (AddHandoverOut n), Metric (ObserveHandoverDuration ((clk a - start) div Millisecond))]" by blast
    with o(2) False show ?thesis by (intro exI [of _ "addr # pre"] exI [of _ a] exI [of _ post]) simp
  qed
qed simp

context accounting_cache
begin

lemma SnapshotAll_eq: "SnapshotAll ot t a =
    map (\<lambda>(k, _). (k, the (live t (counter stored a k))))
      (filter (\<lambda>(k, _). live t (counter stored a k) \<noteq> None) (otter_All ot t (ac_cache a)))"
proof -
  have "SnapshotAll ot t a = concat (map (\<lambda>(k, _). case live t (counter stored a k) of Some n \<Rightarrow> [(k, n)] | None \<Rightarrow> [])
      (otter_All ot t (ac_cache a)))"
    by (auto simp: SnapshotAll_def live_counter get intro!: arg_cong [of _ _ concat] split: option.split)
  moreover have "concat (map (\<lambda>(k, _). case live t (counter stored a k) of Some n \<Rightarrow> [(k, n)] | None \<Rightarrow> []) xs) =
      map (\<lambda>(k, _). (k, the (live t (counter stored a k)))) (filter (\<lambda>(k, _). live t (counter stored a k) \<noteq> None) xs)"
    for xs :: "(string \<times> nat) list"
    by (induction xs) (auto split: option.split)
  ultimately show ?thesis by simp
qed

text \<open>The snapshot holds each live counter once.\<close>

lemma SnapshotAll_mval: "distinct (mkeys (SnapshotAll ot t a)) \<and> mval (SnapshotAll ot t a) k = reading t k (counter stored a)"
proof -
  have keys: "mkeys (SnapshotAll ot t a) = filter (\<lambda>k. live t (counter stored a k) \<noteq> None) (map fst (otter_All ot t (ac_cache a)))"
    by (simp add: SnapshotAll_eq filter_map comp_def case_prod_unfold)
  have dis: "distinct (mkeys (SnapshotAll ot t a))" unfolding keys by (intro distinct_filter all_distinct)
  have "map_of (SnapshotAll ot t a) k = live t (counter stored a k)"
  proof (cases "live t (counter stored a k)")
    case None
    then have "k \<notin> set (mkeys (SnapshotAll ot t a))" by (simp add: keys)
    with None show ?thesis by (simp add: map_of_eq_None_iff)
  next
    case (Some n)
    then obtain v where "live t (stored (ac_cache a) k) = Some v" by (auto simp: live_counter)
    then have "(k, v) \<in> set (otter_All ot t (ac_cache a))" by (rule all_complete)
    with Some have "(k, n) \<in> set (SnapshotAll ot t a)" by (force simp: SnapshotAll_eq)
    with dis Some show ?thesis by simp
  qed
  with dis show ?thesis by (simp add: mval_def reading_def)
qed

lemma SnapshotAll_canonical:
  "canonical_keys stored a \<Longrightarrow> set (mkeys (SnapshotAll ot t a)) \<subseteq> range HashToEntityKey"
  using all_sound by (fastforce simp: SnapshotAll_eq canonical_keys_def)

end

lemma snapshotEntries_eq:
  "set (mkeys s) \<subseteq> range HashToEntityKey \<Longrightarrow> distinct (mkeys s) \<Longrightarrow>
     entry_hits h (snapshotEntries s) = mval s (HashToEntityKey h)"
proof (induction s)
  case (Cons e s)
  obtain k n where e: "e = (k, n)" by (cases e)
  then obtain h1 where k: "k = HashToEntityKey h1" using Cons.prems by auto
  have "map_of s k = None" using Cons.prems by (simp add: e map_of_eq_None_iff)
  then have "mval s k = 0" by (simp add: mval_def)
  with Cons k show ?case
    by (auto simp: e snapshotEntries_def entry_hits_def mval_Cons key_hash_roundtrip)
qed (simp add: snapshotEntries_def entry_hits_def mval_def)

section \<open>Redistribution\<close>

locale handover_env = accounting_cache ot stored room rg + message_codec enc dec
  for ot :: "'c ac_ops" and stored room and rg :: "'r ring"
    and enc :: "'z drlMessage \<Rightarrow> 'w list option" and dec
begin

text \<open>The invariant of the loop, and what one entry adds to it.\<close>

definition loop_inv :: "gotime \<Rightarrow> nat \<Rightarrow> ('c, 'r) accountingCache \<Rightarrow> flusher \<Rightarrow> bool" where
  "loop_inv t n a f \<longleftrightarrow> ac_wf stored a \<and> room n (ac_cache a) \<and> 0 < ac_windowSize a \<and>
     flusher_wf f \<and> fl_hasSender f \<and> transferable_wf a"

lemma owner_frame:
  "ac_ring a' = ac_ring a \<Longrightarrow> ac_localNode a' = ac_localNode a \<Longrightarrow> getOwnerLockedForKey rg k a' = getOwnerLockedForKey rg k a"
  by (simp add: getOwnerLockedForKey_def split: option.split)

lemma redistribute1_conserves:
  assumes inv: "loop_inv t (Suc n) a f"
    and s: "redistribute1 ot rg enc send t en (a, Some f, out, m) = (a', f1, out', m')"
  shows "\<exists>f'. f1 = Some f' \<and> loop_inv t n a' f' \<and> ac_ring a' = ac_ring a \<and> ac_localNode a' = ac_localNode a \<and>
    (\<forall>h. reading t (HashToEntityKey h) (counter stored a') = reading t (HashToEntityKey h) (counter stored a) +
       (if IsOwner rg (HashToEntityKey h) a then entry_hits h [en] else 0)) \<and>
    (\<forall>x h. handed dec x h out' + pending x h f' + waiting x h a' =
       handed dec x h out + pending x h f + waiting x h a +
       (if \<not> IsOwner rg (HashToEntityKey h) a \<and> GetOwner rg (HashToEntityKey h) a = x then entry_hits h [en] else 0))"
proof (cases "IsOwner rg (HashToEntityKey (EntityHash en)) a")
  case True
  let ?k = "HashToEntityKey (EntityHash en)"
  have a': "a' = snd (Increment ot t ?k (Hits en) a)" "f1 = Some f" "out' = out"
    using s True by (simp_all add: redistribute1_def)
  have inv': "ac_wf stored a" "room (Suc n) (ac_cache a)" "0 < ac_windowSize a" "flusher_wf f" "fl_hasSender f" "transferable_wf a"
    using inv by (simp_all add: loop_inv_def)
  have "eq_from t (counter stored a') (tick (ac_windowSize a) t ?k (Hits en) (counter stored a))"
    unfolding a'(1) by (rule Increment_tick [OF inv'(1,2)])
  then have rd: "reading t k (counter stored a') = reading t k (counter stored a) + (if k = ?k then Hits en else 0)" for k
    by (simp add: reading_eq_from [OF _ order.refl] reading_tick [OF inv'(3)])
  have "loop_inv t n a' f"
    using inv' Increment_wf [of a t ?k "Hits en"] Increment_room [of n a t ?k "Hits en"] Increment_frame [of t ?k "Hits en" a]
    by (simp add: loop_inv_def a'(1) transferable_wf_def)
  with a' rd True Increment_frame [of t ?k "Hits en" a] show ?thesis
    by (auto simp: entry_hits_def waiting_def)
next
  case False
  let ?k = "HashToEntityKey (EntityHash en)"
  obtain f2 o2 a2 where q: "Enqueue enc send t (GetOwner rg ?k a) (EntityHash en) (Hits en) a f = ((f2, o2), a2)"
    by (metis prod.exhaust)
  have eqs: "a' = a2" "f1 = Some f2" "out' = out @ o2"
    using s False q by (simp_all add: redistribute1_def)
  have inv': "flusher_wf f" "fl_hasSender f" "transferable_wf a" using inv by (simp_all add: loop_inv_def)
  note cons = Enqueue_conserves [OF inv' q]
  have a2: "a2 = a\<lparr>ac_transferable := ac_transferable a2\<rparr>"
    using q by (auto simp: Enqueue_def ConsumeTransferable_def Let_def)
  have fr: "ac_ring a2 = ac_ring a" "ac_localNode a2 = ac_localNode a" "counter stored a2 = counter stored a"
    "ac_cache a2 = ac_cache a" "ac_windowSize a2 = ac_windowSize a" "ac_wf stored a2 = ac_wf stored a"
    by (subst a2, simp add: counter_def ac_wf_def fun_eq_iff)+
  have "loop_inv t n a2 f2" using inv cons(2-4) room_less by (simp add: loop_inv_def fr)
  with eqs fr cons(1) False show ?thesis by (auto simp: entry_hits_def add.assoc)
qed

lemma redistribute_loop:
  assumes "loop_inv t (length es) a f"
    and "fold (redistribute1 ot rg enc send t) es (a, Some f, out, m) = (a', f1, out', m')"
  shows "\<exists>f'. f1 = Some f' \<and> ac_ring a' = ac_ring a \<and> ac_localNode a' = ac_localNode a \<and>
    (\<forall>h. reading t (HashToEntityKey h) (counter stored a') = reading t (HashToEntityKey h) (counter stored a) +
       (if IsOwner rg (HashToEntityKey h) a then entry_hits h es else 0)) \<and>
    (\<forall>x h. handed dec x h out' + pending x h f' + waiting x h a' =
       handed dec x h out + pending x h f + waiting x h a +
       (if \<not> IsOwner rg (HashToEntityKey h) a \<and> GetOwner rg (HashToEntityKey h) a = x then entry_hits h es else 0))"
  using assms
proof (induction es arbitrary: a f out m)
  case Nil
  then show ?case by (auto simp: entry_hits_def)
next
  case (Cons en es)
  obtain a1 f2 o1 m1 where s: "redistribute1 ot rg enc send t en (a, Some f, out, m) = (a1, f2, o1, m1)" by (metis prod.exhaust)
  from redistribute1_conserves [OF _ s, of "length es"] Cons.prems(1) obtain f1' where
    1: "f2 = Some f1'" "loop_inv t (length es) a1 f1'" "ac_ring a1 = ac_ring a" "ac_localNode a1 = ac_localNode a"
    and r: "\<And>h. reading t (HashToEntityKey h) (counter stored a1) = reading t (HashToEntityKey h) (counter stored a) +
       (if IsOwner rg (HashToEntityKey h) a then entry_hits h [en] else 0)"
    and p: "\<And>x h. handed dec x h o1 + pending x h f1' + waiting x h a1 =
       handed dec x h out + pending x h f + waiting x h a +
       (if \<not> IsOwner rg (HashToEntityKey h) a \<and> GetOwner rg (HashToEntityKey h) a = x then entry_hits h [en] else 0)"
    by auto
  have own: "IsOwner rg k a1 = IsOwner rg k a" "GetOwner rg k a1 = GetOwner rg k a" for k
    using owner_frame [OF 1(3,4)] by (simp_all add: IsOwner_def GetOwner_def 1(4))
  have h: "entry_hits h (en # es) = entry_hits h [en] + entry_hits h es" for h
    using entry_hits_append [of h "[en]" es] by simp
  have "fold (redistribute1 ot rg enc send t) es (a1, Some f1', o1, m1) = (a', f1, out', m')"
    using Cons.prems(2) s 1(1) by simp
  from Cons.IH [OF 1(2) this] obtain f' where
    2: "f1 = Some f'" "ac_ring a' = ac_ring a1" "ac_localNode a' = ac_localNode a1"
    and r2: "\<And>h. reading t (HashToEntityKey h) (counter stored a') = reading t (HashToEntityKey h) (counter stored a1) +
       (if IsOwner rg (HashToEntityKey h) a then entry_hits h es else 0)"
    and p2: "\<And>x h. handed dec x h out' + pending x h f' + waiting x h a' = handed dec x h o1 + pending x h f1' + waiting x h a1 +
       (if \<not> IsOwner rg (HashToEntityKey h) a \<and> GetOwner rg (HashToEntityKey h) a = x then entry_hits h es else 0)"
    unfolding own by blast
  show ?case
    using 1 2 by (intro exI [of _ f']) (simp add: r2 r p2 p h)
qed

end

section \<open>Properties\<close>

interpretation hocell: handover_env ttl_ops ttl_stored ttl_room list_ring cell_enc cell_dec
  by unfold_locales

lemma handover_envI:
  "otter_cache ot stored room \<Longrightarrow> consistent_ring rg \<Longrightarrow> message_codec en de \<Longrightarrow> handover_env ot stored room rg en de"
  by (intro handover_env.intro accounting_cacheI)

lemma incoming_conserves:
  assumes ot: "otter_cache ot stored room" and rg: "consistent_ring rg" and co: "message_codec marshal unmarshal"
    and bat: "unmarshalB batchData = Some b" "cb_Entries b = snapshotEntries (SnapshotAll ot t0 src)"
    and zst: "decompress (hp_CompressedEntries payload) = Some batchData" "hp_CompressedEntries payload \<noteq> []"
    and src: "canonical_keys stored (src :: ('c, 'r) accountingCache)" and up: "\<not> IsShuttingDown h"
    and a: "ac_wf stored a" "room (length (cb_Entries b)) (ac_cache a)" "0 < ac_windowSize a" "transferable_wf a"
    and f: "flusher_wf f" "fl_hasSender f"
  shows "HandleIncoming decompress unmarshalB payload h = Some b \<and>
    (\<exists>a' f' out. redistribute ot rg marshal send t b a (Some f) = (a', Some f', out) \<and>
      (\<forall>hash. let k = HashToEntityKey hash; n = fst (Get ot t0 k src)
        in fst (Get ot t k a') = fst (Get ot t k a) + (if IsOwner rg k a then n else 0) \<and>
           (\<forall>x. handed unmarshal x hash out + pending x hash f' + waiting x hash a' =
              pending x hash f + waiting x hash a + (if \<not> IsOwner rg k a \<and> GetOwner rg k a = x then n else 0))))"
proof -
  note env = handover_envI [OF ot rg co] and ac = accounting_cacheI [OF ot rg]
  obtain a' f1 out m where l: "fold (redistribute1 ot rg marshal send t) (cb_Entries b) (a, Some f, [], 0) = (a', f1, out, m)"
    by (metis prod.exhaust)
  have "handover_env.loop_inv stored room t (length (cb_Entries b)) a f"
    using a f by (simp add: handover_env.loop_inv_def [OF env])
  from handover_env.redistribute_loop [OF env this l] obtain f' where f': "f1 = Some f'"
    and r: "\<And>h. reading t (HashToEntityKey h) (counter stored a') = reading t (HashToEntityKey h) (counter stored a) +
       (if IsOwner rg (HashToEntityKey h) a then entry_hits h (cb_Entries b) else 0)"
    and p: "\<And>x h. handed unmarshal x h out + pending x h f' + waiting x h a' =
       handed unmarshal x h [] + pending x h f + waiting x h a +
       (if \<not> IsOwner rg (HashToEntityKey h) a \<and> GetOwner rg (HashToEntityKey h) a = x then entry_hits h (cb_Entries b) else 0)"
    by blast
  have n: "entry_hits hash (cb_Entries b) = fst (Get ot t0 (HashToEntityKey hash) src)" for hash
    unfolding bat(2)
    using accounting_cache.SnapshotAll_mval [OF ac, of t0 src] accounting_cache.SnapshotAll_canonical [OF ac src, of t0]
    by (simp add: snapshotEntries_eq accounting_cache.Get_reading [OF ac])
  have "HandleIncoming decompress unmarshalB payload h = Some b" using bat(1) zst up by (simp add: HandleIncoming_def)
  moreover have "redistribute ot rg marshal send t b a (Some f) = (a', Some f', out @ [Metric (AddHandoverIn m)])"
    by (simp add: redistribute_def l f')
  moreover have "handed unmarshal x hash (out @ [Metric (AddHandoverIn m)]) = handed unmarshal x hash out" for x hash
    by (simp add: handed_def)
  ultimately show ?thesis
    by (intro conjI exI [of _ a'] exI [of _ f'] exI [of _ "out @ [Metric (AddHandoverIn m)]"])
       (simp_all add: Let_def accounting_cache.Get_reading [OF ac] r n p, simp add: handed_def)
qed

lemma length_snapshotEntries: "length (snapshotEntries s) \<le> length s"
  by (induction s) (auto simp: snapshotEntries_def split: sum.split)

text \<open>What a successful evacuation put on the wire.\<close>

lemma Evacuate_sent:
  assumes "Evacuate ot xx marshalB compress marshal send clk t0 local addrs src h = Some ((None, out), h')"
    and "SendReliable addr d \<in> set out"
  shows "\<exists>batch batchData payload. cb_Entries batch = snapshotEntries (SnapshotAll ot t0 src) \<and>
    marshalB batch = Some batchData \<and> hp_CompressedEntries payload = compress batchData \<and>
    marshal (HandoverMsg payload) = Some d"
proof -
  have mem: "d' = d" if "SendReliable addr d \<in> set (snd (tryAdopters send clk s dl n d' as))" for s dl n d' as
    using that by (induction as) (auto split: if_splits prod.splits)
  let ?batch = "\<lparr>cb_SenderId = xx local, cb_Timestamp = unixMilli t0, cb_Entries = snapshotEntries (SnapshotAll ot t0 src)\<rparr>"
  obtain bd where 1: "marshalB ?batch = Some bd"
    using assms by (cases "marshalB ?batch") (auto simp: Evacuate_def Let_def split: if_splits)
  let ?pl = "\<lparr>hp_SenderId = xx local, hp_Timestamp = unixMilli t0, hp_CompressedEntries = compress bd,
      hp_EntityCount = of_nat (length (snapshotEntries (SnapshotAll ot t0 src)))\<rparr>"
  obtain md where 2: "marshal (HandoverMsg ?pl) = Some md"
    using assms 1 by (cases "marshal (HandoverMsg ?pl)") (auto simp: Evacuate_def Let_def split: if_splits)
  have "SendReliable addr d \<in> set (snd (tryAdopters send clk t0 (t0 + ho_timeout h)
      (length (snapshotEntries (SnapshotAll ot t0 src))) md (filter (\<lambda>addr. addr \<noteq> local) addrs)))"
    using assms 1 2 by (auto simp: Evacuate_def Let_def split: if_splits)
  from mem [OF this] 1 2 show ?thesis by (intro exI [of _ ?batch] exI [of _ bd] exI [of _ ?pl]) simp
qed


text \<open>A compressor for the witness: it puts one block in front.\<close>

definition demo_compress :: "counterBatch list \<Rightarrow> counterBatch list" where
  "demo_compress x = \<lparr>cb_SenderId = 0, cb_Timestamp = 0, cb_Entries = []\<rparr> # x"

fun demo_decompress :: "counterBatch list \<Rightarrow> counterBatch list option" where
  "demo_decompress [] = None"
| "demo_decompress (_ # x) = Some x"


text \<open>
  A payload is adopted at most once: a successful \<open>Evacuate\<close> delivers it to exactly one member, the
  first that accepts, after every earlier attempt failed, and never to the node itself; afterwards
  the node is shutting down and refuses payloads of others.
\<close>

theorem evacuate_single_adopter:
  assumes "Evacuate ot xx marshalB compress marshal send clk t0 local addrs src h = Some ((None, out), h')" and "out \<noteq> []"
  shows "\<exists>pre a d. a \<noteq> local \<and> a \<in> set addrs \<and> send a d \<and> (\<forall>x \<in> set pre. x \<noteq> local \<and> \<not> send x d) \<and>
    filter (\<lambda>x. case x of Metric _ \<Rightarrow> False | _ \<Rightarrow> True) out = map (\<lambda>x. SendReliable x d) (pre @ [a]) \<and>
    HandleIncoming decompress unmarshalB payload h' = None"
proof -
  obtain n d where t: "tryAdopters send clk t0 (t0 + ho_timeout h) n d (filter (\<lambda>x. x \<noteq> local) addrs) = (None, out)"
      and h': "h' = h\<lparr>ho_shutdown := True\<rparr>"
    using assms by (auto simp: Evacuate_def Let_def split: if_splits option.splits)
  from tryAdopters_success [OF t] obtain pre a post where p: "filter (\<lambda>x. x \<noteq> local) addrs = pre @ a # post" "send a d"
      "\<forall>x \<in> set pre. \<not> send x d" "out = map (\<lambda>x. SendReliable x d) (pre @ [a]) @
         [Metric (AddHandoverOut n), Metric (ObserveHandoverDuration ((clk a - t0) div Millisecond))]" by blast
  have "a \<in> set (filter (\<lambda>x. x \<noteq> local) addrs)" "set pre \<subseteq> set (filter (\<lambda>x. x \<noteq> local) addrs)" unfolding p(1) by auto
  moreover have "filter (\<lambda>x. case x of Metric _ \<Rightarrow> False | _ \<Rightarrow> True) out = map (\<lambda>x. SendReliable x d) (pre @ [a])"
    by (simp add: p(4) filter_map comp_def)
  ultimately show ?thesis
    using p(2,3) by (intro exI [of _ pre] exI [of _ a] exI [of _ d]) (auto simp: h' HandleIncoming_def IsShuttingDown_def)
qed

theorem evacuate_single_adopter_witness:
  "\<exists>out h' pre a d. Evacuate ttl_ops (\<lambda>_. 1) cell_enc demo_compress (cell_enc :: counterBatch drlMessage \<Rightarrow> _) (\<lambda>x _. x = ''n3'') (\<lambda>_. 1) 1
       ''n1'' [''n1'', ''n2'', ''n3''] ownedAccounting \<lparr>ho_shutdown = False, ho_hasFlusher = True, ho_settling = 0, ho_timeout = 10\<rparr> = Some ((None, out), h') \<and>
     filter (\<lambda>x. case x of Metric _ \<Rightarrow> False | _ \<Rightarrow> True) out = map (\<lambda>x. SendReliable x d) (pre @ [a]) \<and> a = ''n3''"
proof -
  let ?h = "\<lparr>ho_shutdown = False, ho_hasFlusher = True, ho_settling = 0, ho_timeout = 10\<rparr>"
  have snap: "SnapshotAll ttl_ops 1 ownedAccounting = [(k7, 5)]"
    by (simp add: SnapshotAll_def ownedAccounting_eq ref_eval)
  obtain out h' where ev: "Evacuate ttl_ops (\<lambda>_. 1) cell_enc demo_compress (cell_enc :: counterBatch drlMessage \<Rightarrow> _) (\<lambda>x _. x = ''n3'') (\<lambda>_. 1) 1
      ''n1'' [''n1'', ''n2'', ''n3''] ownedAccounting ?h = Some ((None, out), h')" "out \<noteq> []"
    using key_hash_roundtrip [of 7, folded k7_def] by (simp add: Evacuate_def snap cell_enc_def snapshotEntries_def Let_def)
  from evacuate_single_adopter [OF ev] obtain pre a d where "a = ''n3''"
    "filter (\<lambda>x. case x of Metric _ \<Rightarrow> False | _ \<Rightarrow> True) out = map (\<lambda>x. SendReliable x d) (pre @ [a])" by metis
  with ev(1) show ?thesis by metis
qed

end
