(* ===== verification/Delegate.thy ===== *)
theory Delegate
  imports Channel Handover
begin

text \<open>
  Package \<open>internal/membership\<close>, file \<open>delegate.go\<close>: what a node does with the messages of its peers, and
  how it sends its own block and unblock events. The delegate works on the caches of the manager,
  which it shares with the engine. Incoming handover payloads go to the handover handler; the batch
  it starts to redistribute is part of the result.
\<close>

record delegate =
  sd_ready :: bool
  sd_syncStart :: "gotime option"
  sd_syncTimeout :: duration
  sd_handover :: "handover option"

definition NewStateDelegate :: "duration \<Rightarrow> delegate" where
  "NewStateDelegate syncTimeout =
     \<lparr>sd_ready = False, sd_syncStart = None,
      sd_syncTimeout = (if syncTimeout = 0 then 120 * Second else syncTimeout), sd_handover = None\<rparr>"

definition SetHandover :: "handover \<Rightarrow> delegate \<Rightarrow> delegate" where
  "SetHandover h d = d\<lparr>sd_handover := Some h\<rparr>"

section \<open>Incoming messages\<close>

definition handleAccountingMsg ::
  "'c ac_ops \<Rightarrow> gotime \<Rightarrow> counterBatch \<Rightarrow> ('b, 'c, 'r) manager \<Rightarrow> ('b, 'c, 'r) manager \<times> 'w effect list" where
  "handleAccountingMsg ot now batch m =
     (m\<lparr>mg_Accounting := fold (\<lambda>entry a. snd (Increment ot now (hexpad 16 (unat (EntityHash entry))) (Hits entry) a))
                           (cb_Entries batch) (mg_Accounting m)\<rparr>,
      [Metric IncAccountingMsgRecv, Metric IncMembershipBestEffort])"

definition eventEntity :: "string \<Rightarrow> string \<Rightarrow> strmap \<Rightarrow> entity option" where
  "eventEntity ip path hdrs =
     (if ip \<noteq> '''' \<or> path \<noteq> '''' then Some \<lparr>IP = ip, Path = path, Headers = hdrs\<rparr> else None)"

definition handleBlockEvent ::
  "'b bl_ops \<Rightarrow> gotime \<Rightarrow> blockEvent \<Rightarrow> ('b, 'c, 'r) manager \<Rightarrow> ('b, 'c, 'r) manager \<times> 'w effect list" where
  "handleBlockEvent ot now evt m =
     (m\<lparr>mg_Blocklist := Block ot now (ev_Key evt) (ev_TtlNanos evt)
                          (eventEntity (ev_EntityIp evt) (ev_EntityPath evt) (ev_EntityHdrs evt)) (mg_Blocklist m)\<rparr>,
      [Metric IncMembershipReliable])"

definition handleBlockEventWithExpiresAt ::
  "'b bl_ops \<Rightarrow> gotime \<Rightarrow> blockEventWithExpiresAt \<Rightarrow> ('b, 'c, 'r) manager \<Rightarrow> ('b, 'c, 'r) manager \<times> 'w effect list" where
  "handleBlockEventWithExpiresAt ot now evt m =
     (m\<lparr>mg_Blocklist := BlockWithExpiresAt ot now (ex_Key evt) (ex_ExpiresAtNanos evt)
                          (eventEntity (ex_EntityIp evt) (ex_EntityPath evt) (ex_EntityHdrs evt)) (mg_Blocklist m)\<rparr>,
      [Metric IncMembershipReliable])"

definition handleUnblockEvent ::
  "'b bl_ops \<Rightarrow> gotime \<Rightarrow> string \<Rightarrow> ('b, 'c, 'r) manager \<Rightarrow> ('b, 'c, 'r) manager \<times> 'w effect list" where
  "handleUnblockEvent ot now key m =
     (m\<lparr>mg_Blocklist := Unblock ot now key (mg_Blocklist m)\<rparr>, [Metric IncMembershipReliable])"

definition handleHandoverPayload ::
  "('z list \<Rightarrow> 'z list option) \<Rightarrow> ('z list \<Rightarrow> counterBatch option) \<Rightarrow> 'z handoverPayload \<Rightarrow> delegate \<Rightarrow> counterBatch option" where
  "handleHandoverPayload decompress unmarshalB payload d =
     (case sd_handover d of
        None \<Rightarrow> None
      | Some h \<Rightarrow> HandleIncoming decompress unmarshalB payload h)"

text \<open>\<open>NotifyMsg\<close>: the new caches, the effects, and the batch handed to \<open>redistribute\<close>, if any.\<close>

definition NotifyMsg ::
  "'c ac_ops \<Rightarrow> 'b bl_ops \<Rightarrow> ('w list \<Rightarrow> 'z drlMessage option) \<Rightarrow> ('z list \<Rightarrow> 'z list option) \<Rightarrow> ('z list \<Rightarrow> counterBatch option) \<Rightarrow>
   gotime \<Rightarrow> 'w list \<Rightarrow> delegate \<Rightarrow> ('b, 'c, 'r) manager \<Rightarrow> (('b, 'c, 'r) manager \<times> 'w effect list) \<times> counterBatch option" where
  "NotifyMsg ac bl unmarshal decompress unmarshalB now buf d m =
     (if buf = [] then ((m, []), None)
      else case unmarshal buf of
             None \<Rightarrow> ((m, []), None)
           | Some msg \<Rightarrow>
               (case msg of
                  Counters batch \<Rightarrow> (handleAccountingMsg ac now batch m, None)
                | BlockMsg evt \<Rightarrow> (handleBlockEvent bl now evt m, None)
                | BlockWithExpiresAtMsg evt \<Rightarrow> (handleBlockEventWithExpiresAt bl now evt m, None)
                | UnblockMsg key \<Rightarrow> (handleUnblockEvent bl now key m, None)
                | HandoverMsg payload \<Rightarrow> ((m, []), handleHandoverPayload decompress unmarshalB payload d)
                | NoContent \<Rightarrow> ((m, []), None)))"

text \<open>\<open>dispatch\<close> of \<open>channel.go\<close>, with the delegate as the handler.\<close>

definition dispatch ::
  "'b bl_ops \<Rightarrow> gotime \<Rightarrow> channelMessage \<Rightarrow> ('b, 'c, 'r) manager \<Rightarrow> ('b, 'c, 'r) manager \<times> 'w effect list" where
  "dispatch bl now msg m =
     (case (case msg of
              Ch_BlockWithExpiresAt evt \<Rightarrow> handleBlockEventWithExpiresAt bl now evt m
            | Ch_Unblock key \<Rightarrow> handleUnblockEvent bl now key m
            | Ch_Unknown \<Rightarrow> (m, [])) of
        (m', out) \<Rightarrow> (m', Metric IncMembershipChannelMsgsRecv # out))"

section \<open>State synchronisation\<close>

definition LocalState ::
  "'b bl_ops \<Rightarrow> (blocklistEntry list \<Rightarrow> 'w list option) \<Rightarrow> gotime \<Rightarrow> ('b, 'c, 'r) manager \<Rightarrow> 'w list" where
  "LocalState bl marshalE now m = (case GetState bl marshalE now (mg_Blocklist m) of None \<Rightarrow> [] | Some state \<Rightarrow> state)"

definition markSyncComplete :: "delegate \<Rightarrow> delegate" where
  "markSyncComplete d = d\<lparr>sd_ready := True\<rparr>"

definition MergeRemoteState ::
  "(string \<Rightarrow> uint64) \<Rightarrow> 'b bl_ops \<Rightarrow> ('w list \<Rightarrow> blocklistEntry list option) \<Rightarrow> gotime \<Rightarrow> gotime \<Rightarrow> 'w list \<Rightarrow>
   delegate \<Rightarrow> ('b, 'c, 'r) manager \<Rightarrow> (delegate \<times> ('b, 'c, 'r) manager) \<times> 'w effect list" where
  "MergeRemoteState xx bl unmarshalE now now' buf d m =
     (let d1 = (case sd_syncStart d of None \<Rightarrow> d\<lparr>sd_syncStart := Some now\<rparr> | Some _ \<Rightarrow> d)
      in case MergeState xx bl unmarshalE now buf (mg_Blocklist m) of
           (ok, b) \<Rightarrow>
             let m1 = m\<lparr>mg_Blocklist := b\<rparr>
             in if \<not> ok then ((d1, m1), [])
                else ((markSyncComplete d1, m1), [Metric (ObserveSyncDuration (now' - the (sd_syncStart d1)))]))"

definition IsReady :: "delegate \<Rightarrow> bool" where
  "IsReady d = sd_ready d"

definition MarkReady :: "delegate \<Rightarrow> delegate" where
  "MarkReady d = markSyncComplete d"

text \<open>
  \<open>WaitForSync\<close> runs in the joining goroutine while \<open>markSyncComplete\<close> runs in memberlist's. The waiter
  loads the flag, then enters the select; the marker stores the flag, then offers a value on the
  unbuffered channel and drops it unless a receiver is already in the select. \<open>sy_marking\<close> counts the
  markers between their two steps.
\<close>

datatype waiter = NotCalled | Checked | Waiting | Returned bool

record syncState =
  sy_delegate :: delegate
  sy_waiter :: waiter
  sy_marking :: nat

definition WaitForSync_load :: "delegate \<Rightarrow> waiter" where
  "WaitForSync_load d = (if IsReady d then Returned True else Checked)"

definition WaitForSync_timeout :: "syncState \<Rightarrow> syncState" where
  "WaitForSync_timeout s = s\<lparr>sy_delegate := (sy_delegate s)\<lparr>sd_ready := True\<rparr>, sy_waiter := Returned False\<rparr>"

definition offerSync :: "waiter \<Rightarrow> waiter" where
  "offerSync w = (case w of Waiting \<Rightarrow> Returned True | _ \<Rightarrow> w)"

inductive sync_step :: "syncState \<Rightarrow> syncState \<Rightarrow> bool" where
  SyncLoad: "sy_waiter s = NotCalled \<Longrightarrow> sync_step s (s\<lparr>sy_waiter := WaitForSync_load (sy_delegate s)\<rparr>)"
| SyncSelect: "sy_waiter s = Checked \<Longrightarrow> sync_step s (s\<lparr>sy_waiter := Waiting\<rparr>)"
| SyncTimeout: "sy_waiter s = Waiting \<Longrightarrow> sync_step s (WaitForSync_timeout s)"
| SyncStore: "sync_step s (s\<lparr>sy_delegate := markSyncComplete (sy_delegate s), sy_marking := Suc (sy_marking s)\<rparr>)"
| SyncOffer: "sy_marking s = Suc n \<Longrightarrow> sync_step s (s\<lparr>sy_waiter := offerSync (sy_waiter s), sy_marking := n\<rparr>)"

inductive sync_reachable :: "delegate \<Rightarrow> syncState \<Rightarrow> bool" for d where
  SyncInit: "sync_reachable d \<lparr>sy_delegate = d, sy_waiter = NotCalled, sy_marking = 0\<rparr>"
| SyncNext: "sync_reachable d s \<Longrightarrow> sync_step s s' \<Longrightarrow> sync_reachable d s'"

inductive_cases sync_stepE: "sync_step s s'"

text \<open>
  \<open>WaitForSync\<close> as its caller sees it: \<open>signalled\<close> says that a marker offers its value while the caller is
  in the select, before the timeout.
\<close>

definition WaitForSync :: "bool \<Rightarrow> delegate \<Rightarrow> bool \<times> delegate" where
  "WaitForSync signalled d =
     (if IsReady d then (True, d)
      else if signalled then (True, markSyncComplete d)
      else (False, d\<lparr>sd_ready := True\<rparr>))"

section \<open>Outgoing events\<close>

text \<open>
  The cluster as the delegate sees it: none, or the address of this node, the member addresses, the
  configuration flag, and the channel manager (if any).
\<close>

record clusterView =
  cv_localAddr :: string
  cv_members :: "string list"
  cv_usePersistent :: bool
  cv_channels :: "channelManager option"

definition useChannel :: "clusterView option \<Rightarrow> bool" where
  "useChannel cv = (case cv of None \<Rightarrow> False | Some c \<Rightarrow> cv_usePersistent c \<and> cv_channels c \<noteq> None)"

definition otherMembers :: "clusterView \<Rightarrow> string list" where
  "otherMembers c = filter (\<lambda>addr. addr \<noteq> cv_localAddr c) (cv_members c)"

definition sendToAllPeersAsync :: "clusterView option \<Rightarrow> 'w list \<Rightarrow> 'w effect list" where
  "sendToAllPeersAsync cv data =
     (case cv of None \<Rightarrow> [] | Some c \<Rightarrow> map (\<lambda>addr. SendReliable addr data) (otherMembers c))"

text \<open>\<open>sendToAllPeersViaChannel\<close>: a failed \<open>Send\<close> is only logged. The effects are the messages that were queued.\<close>

fun channelSends :: "channelMessage \<Rightarrow> string list \<Rightarrow> channelManager \<Rightarrow> 'w effect list \<times> channelManager" where
  "channelSends msg [] cm = ([], cm)"
| "channelSends msg (addr # addrs) cm =
     (case Send addr msg cm of (r, cm1) \<Rightarrow>
      case channelSends msg addrs cm1 of (out, cm2) \<Rightarrow>
        ((if r = SendOk then [ChannelSend addr msg] else []) @ out, cm2))"

definition sendToAllPeersViaChannel :: "clusterView option \<Rightarrow> channelMessage \<Rightarrow> 'w effect list \<times> channelManager option" where
  "sendToAllPeersViaChannel cv msg =
     (case cv of
        None \<Rightarrow> ([], None)
      | Some c \<Rightarrow>
          (case cv_channels c of
             None \<Rightarrow> ([], None)
           | Some cm \<Rightarrow> (case channelSends msg (otherMembers c) cm of (out, cm') \<Rightarrow> (out, Some cm'))))"

text \<open>
  \<open>QueueBlockEvent\<close> and \<open>QueueUnblockEvent\<close>: the effects and the channel manager with the queued
  messages, or \<open>None\<close> for the marshalling error.
\<close>

definition blockEventFor :: "gotime \<Rightarrow> string \<Rightarrow> duration \<Rightarrow> entity option \<Rightarrow> blockEventWithExpiresAt" where
  "blockEventFor now key ttl entity =
     (let evt = \<lparr>ex_Key = key, ex_ExpiresAtNanos = now + ttl, ex_EntityIp = '''', ex_EntityPath = '''', ex_EntityHdrs = []\<rparr>
      in case entity of
           None \<Rightarrow> evt
         | Some e \<Rightarrow> evt\<lparr>ex_EntityIp := IP e, ex_EntityPath := Path e, ex_EntityHdrs := Headers e\<rparr>)"

definition QueueBlockEvent ::
  "('z drlMessage \<Rightarrow> 'w list option) \<Rightarrow> clusterView option \<Rightarrow> gotime \<Rightarrow> string \<Rightarrow> duration \<Rightarrow> entity option \<Rightarrow>
   ('w effect list \<times> channelManager option) option" where
  "QueueBlockEvent marshal cv now key ttl entity =
     (let evt = blockEventFor now key ttl entity
      in if useChannel cv then Some (sendToAllPeersViaChannel cv (Ch_BlockWithExpiresAt evt))
         else map_option (\<lambda>data. (sendToAllPeersAsync cv data, Option.bind cv cv_channels)) (marshal (BlockWithExpiresAtMsg evt)))"

definition QueueUnblockEvent ::
  "('z drlMessage \<Rightarrow> 'w list option) \<Rightarrow> clusterView option \<Rightarrow> string \<Rightarrow>
   ('w effect list \<times> channelManager option) option" where
  "QueueUnblockEvent marshal cv key =
     (if useChannel cv then Some (sendToAllPeersViaChannel cv (Ch_Unblock key))
      else map_option (\<lambda>data. (sendToAllPeersAsync cv data, Option.bind cv cv_channels)) (marshal (UnblockMsg key)))"

section \<open>Counter batches\<close>

definition batchEvents :: "gotime \<Rightarrow> counterEntry list \<Rightarrow> (gotime \<times> string \<times> int64) list" where
  "batchEvents t es = map (\<lambda>en. (t, HashToEntityKey (EntityHash en), Hits en)) es"

lemma fold_batch:
  "fold (\<lambda>en a. snd (Increment ac t (hexpad 16 (unat (EntityHash en))) (Hits en) a)) es a = Increments ac (batchEvents t es) a"
  by (induction es arbitrary: a) (simp_all add: Increments_def batchEvents_def HashToEntityKey_def)

lemma handleAccountingMsg_eq:
  "handleAccountingMsg ac t batch m =
     (m\<lparr>mg_Accounting := Increments ac (batchEvents t (cb_Entries batch)) (mg_Accounting m)\<rparr>,
      [Metric IncAccountingMsgRecv, Metric IncMembershipBestEffort])"
  by (simp add: handleAccountingMsg_def fold_batch)

lemma batch_sum:
  "sum_list (map (\<lambda>(_, k', \<delta>). if k' = HashToEntityKey h then \<delta> else 0) (batchEvents t es)) = entry_hits h es"
  by (simp add: batchEvents_def entry_hits_def comp_def)

context accounting_cache
begin

lemma batch_reading:
  assumes "ac_wf stored a" and "room (length es) (ac_cache a)" and "0 < ac_windowSize a"
  shows "reading t (HashToEntityKey h) (counter stored (Increments ot (batchEvents t es) a)) =
    reading t (HashToEntityKey h) (counter stored a) + entry_hits h es"
proof -
  have "eq_from t (counter stored (Increments ot (batchEvents t es) a)) (ticks (ac_windowSize a) (batchEvents t es) (counter stored a))"
    using assms by (intro Increments_ticks) (simp_all add: batchEvents_def list_all_iff comp_def sorted_iff_nth_mono)
  then have "reading t (HashToEntityKey h) (counter stored (Increments ot (batchEvents t es) a)) =
      reading t (HashToEntityKey h) (ticks (ac_windowSize a) (batchEvents t es) (counter stored a))"
    by (rule reading_eq_from) simp
  also have "\<dots> = reading t (HashToEntityKey h) (counter stored a) + entry_hits h es"
    by (subst reading_ticks_now [OF assms(3)]) (simp_all add: batch_sum, simp add: batchEvents_def list_all_iff)
  finally show ?thesis .
qed

end

section \<open>Properties\<close>

lemma eventEntity_blockEventFor:
  "eventEntity (ex_EntityIp (blockEventFor t k ttl e)) (ex_EntityPath (blockEventFor t k ttl e)) (ex_EntityHdrs (blockEventFor t k ttl e)) =
     (case e of None \<Rightarrow> None | Some x \<Rightarrow> if IP x \<noteq> '''' \<or> Path x \<noteq> '''' then Some x else None)"
  by (auto simp: eventEntity_def blockEventFor_def Let_def split: option.split)

lemma blockEventFor_fields [simp]:
  "ex_Key (blockEventFor t k ttl e) = k" "ex_ExpiresAtNanos (blockEventFor t k ttl e) = t + ttl"
  by (simp_all add: blockEventFor_def Let_def split: option.split)

text \<open>
  C28. Counter batches are added, not evaluated: a received batch adds every entry's hits to its
  entity's counter (entries for the same entity accumulate) and leaves the blocklist alone, however
  far over the limit the counters are. Only a request processed on the owner itself can block.
\<close>

theorem batch_counts_never_block:
  assumes ot: "otter_cache ac stored room" and rg: "consistent_ring (rg :: 'r ring)"
    and msg: "unmarshal buf = Some (Counters batch)" "buf \<noteq> []"
    and m: "ac_wf stored (mg_Accounting (m :: ('b, 'c, 'r) manager))" "room (length (cb_Entries batch)) (ac_cache (mg_Accounting m))"
      "0 < ac_windowSize (mg_Accounting m)"
  shows "\<exists>m' out. NotifyMsg ac bl unmarshal decompress unmarshalB t buf d m = ((m', out), None) \<and>
    mg_Blocklist m' = mg_Blocklist m \<and>
    (\<forall>h. fst (Get ac t (HashToEntityKey h) (mg_Accounting m')) =
       fst (Get ac t (HashToEntityKey h) (mg_Accounting m)) + entry_hits h (cb_Entries batch))"
proof -
  note acc = accounting_cacheI [OF ot rg]
  show ?thesis
    using msg accounting_cache.batch_reading [OF acc m, of t]
    by (simp add: NotifyMsg_def handleAccountingMsg_eq accounting_cache.Get_reading [OF acc])
qed

theorem batch_counts_never_block_witness:
  "\<exists>m' out. NotifyMsg ttl_ops ttl_ops (cell_dec :: _ \<Rightarrow> counterBatch drlMessage option) Some cell_dec 5
       [Counters \<lparr>cb_SenderId = 1, cb_Timestamp = 0, cb_Entries = [\<lparr>EntityHash = 7, Hits = 3\<rparr>, \<lparr>EntityHash = 7, Hits = 2\<rparr>]\<rparr>]
       (NewStateDelegate 0) \<lparr>mg_Blocklist = emptyBlocklist, mg_Accounting = emptyAccounting ''n1'' [''n1'']\<rparr> = ((m', out), None) \<and>
     mg_Blocklist m' = emptyBlocklist \<and> fst (Get ttl_ops 5 k7 (mg_Accounting m')) = 5"
proof -
  let ?b = "\<lparr>cb_SenderId = 1, cb_Timestamp = 0, cb_Entries = [\<lparr>EntityHash = 7, Hits = 3\<rparr>, \<lparr>EntityHash = 7, Hits = 2\<rparr>]\<rparr>"
  let ?m = "\<lparr>mg_Blocklist = emptyBlocklist, mg_Accounting = emptyAccounting ''n1'' [''n1'']\<rparr>"
  have "fst (Get ttl_ops 5 k7 (mg_Accounting ?m)) = 0" by (simp add: acttl.Get_reading reading_def)
  moreover have "0 < ac_windowSize (mg_Accounting ?m)" by (simp add: emptyAccounting_def Minute_def)
  moreover have "cell_dec [Counters ?b :: counterBatch drlMessage] = Some (Counters ?b)" by simp
  from this batch_counts_never_block [where unmarshal = cell_dec and buf = "[Counters ?b]" and batch = ?b,
      OF ttl.otter_cache_axioms lring.consistent_ring_axioms, of ?m ttl_ops Some cell_dec 5 "NewStateDelegate 0"]
  obtain m' out where "NotifyMsg ttl_ops ttl_ops cell_dec Some cell_dec 5 [Counters ?b] (NewStateDelegate 0) ?m = ((m', out), None)"
    "mg_Blocklist m' = emptyBlocklist"
    "\<forall>h. fst (Get ttl_ops 5 (HashToEntityKey h) (mg_Accounting m')) =
       fst (Get ttl_ops 5 (HashToEntityKey h) (mg_Accounting ?m)) + entry_hits h (cb_Entries ?b)"
    using emptyAccounting_wf emptyAccounting_room [of "Suc (Suc 0)"] \<open>0 < ac_windowSize (mg_Accounting ?m)\<close> by auto
  ultimately show ?thesis by (auto simp: k7_def entry_hits_def)
qed

section \<open>Readiness\<close>

lemma sync_reachable_inv:
  assumes "sync_reachable d s"
  shows "(\<forall>b. sy_waiter s = Returned b \<longrightarrow> sd_ready (sy_delegate s)) \<and> (0 < sy_marking s \<longrightarrow> sd_ready (sy_delegate s))"
  using assms
proof (induction rule: sync_reachable.induct)
  case (SyncNext s s')
  from SyncNext.hyps(2) SyncNext.IH show ?case
    by (cases rule: sync_step.cases)
       (auto simp: WaitForSync_load_def WaitForSync_timeout_def IsReady_def markSyncComplete_def offerSync_def split: waiter.splits if_splits)
qed simp

text \<open>
  \<open>WaitForSync\<close> leaves the node ready: under every interleaving of the waiter, its timeout and any
  number of completed syncs, once it has returned (true or false) the delegate is ready; before that a
  step of the waiter itself is always possible, so it never waits for good; and it returns false only
  by its timeout.
\<close>

theorem wait_for_sync:
  assumes "sync_reachable d s"
  shows "(\<forall>b. sy_waiter s = Returned b \<longrightarrow> IsReady (sy_delegate s)) \<and>
    ((\<exists>b. sy_waiter s = Returned b) \<or> (\<exists>s'. sync_step s s' \<and> sy_marking s' = sy_marking s \<and> sy_waiter s' \<noteq> sy_waiter s)) \<and>
    (\<forall>s'. sync_step s s' \<longrightarrow> sy_waiter s' = Returned False \<longrightarrow> sy_waiter s = Returned False \<or> s' = WaitForSync_timeout s)"
proof (intro conjI)
  show "\<forall>b. sy_waiter s = Returned b \<longrightarrow> IsReady (sy_delegate s)"
    using sync_reachable_inv [OF assms] by (simp add: IsReady_def)
  show "(\<exists>b. sy_waiter s = Returned b) \<or> (\<exists>s'. sync_step s s' \<and> sy_marking s' = sy_marking s \<and> sy_waiter s' \<noteq> sy_waiter s)"
    using SyncLoad [of s] SyncSelect [of s] SyncTimeout [of s]
    by (cases "sy_waiter s") (fastforce simp: WaitForSync_load_def WaitForSync_timeout_def split: if_splits)+
  show "\<forall>s'. sync_step s s' \<longrightarrow> sy_waiter s' = Returned False \<longrightarrow> sy_waiter s = Returned False \<or> s' = WaitForSync_timeout s"
    by (auto elim!: sync_stepE simp: WaitForSync_load_def offerSync_def split: waiter.splits if_splits)
qed

theorem wait_for_sync_witness:
  "IsReady (sy_delegate (WaitForSync_timeout \<lparr>sy_delegate = NewStateDelegate 0, sy_waiter = Waiting, sy_marking = 0\<rparr>))"
proof -
  let ?i = "\<lparr>sy_delegate = NewStateDelegate 0, sy_waiter = NotCalled, sy_marking = 0\<rparr>"
  have "sync_reachable (NewStateDelegate 0) (?i\<lparr>sy_waiter := Checked\<rparr>)"
    using SyncNext [OF SyncInit SyncLoad, of "NewStateDelegate 0"] by (simp add: WaitForSync_load_def IsReady_def NewStateDelegate_def)
  then have "sync_reachable (NewStateDelegate 0) (?i\<lparr>sy_waiter := Waiting\<rparr>)"
    using SyncNext [OF _ SyncSelect] by fastforce
  then have "sync_reachable (NewStateDelegate 0) (WaitForSync_timeout (?i\<lparr>sy_waiter := Waiting\<rparr>))"
    using SyncNext [OF _ SyncTimeout] by fastforce
  from wait_for_sync [OF this, THEN conjunct1] show ?thesis by (auto simp: WaitForSync_timeout_def)
qed

lemma only_timeout_left:
  assumes "sy_waiter s = Waiting" and "sy_marking s = 0"
  shows "{s'. sync_step s s' \<and> sy_marking s' = 0} = {WaitForSync_timeout s}"
proof (intro equalityI subsetI)
  fix s' assume "s' \<in> {s'. sync_step s s' \<and> sy_marking s' = 0}"
  then have "sync_step s s'" and "sy_marking s' = 0" by simp_all
  then show "s' \<in> {WaitForSync_timeout s}" using assms by (cases rule: sync_step.cases) simp_all
next
  fix s' assume "s' \<in> {WaitForSync_timeout s}"
  then show "s' \<in> {s'. sync_step s s' \<and> sy_marking s' = 0}"
    using assms SyncTimeout [of s] by (simp add: WaitForSync_timeout_def)
qed

text \<open>
  The wake-up can be lost: a sync can complete between the waiter's check of the flag and its
  select, the value offered on the unbuffered channel is then dropped, and although the node is ready
  the waiter can only be released by the timeout (or by another sync).
\<close>

theorem sync_wakeup_lost:
  "\<exists>s. sync_reachable (NewStateDelegate timeout) s \<and> IsReady (sy_delegate s) \<and> sy_waiter s = Waiting \<and>
     {s'. sync_step s s' \<and> sy_marking s' = 0} = {WaitForSync_timeout s}"
proof -
  let ?d = "NewStateDelegate timeout"
  let ?i = "\<lparr>sy_delegate = ?d, sy_waiter = NotCalled, sy_marking = 0\<rparr>"
  let ?j = "?i\<lparr>sy_waiter := Checked, sy_delegate := markSyncComplete ?d\<rparr>"
  let ?s = "?j\<lparr>sy_waiter := Waiting\<rparr>"
  have "sync_reachable ?d (?i\<lparr>sy_waiter := Checked\<rparr>)"
    using SyncNext [OF SyncInit SyncLoad, of ?d] by (simp add: WaitForSync_load_def IsReady_def NewStateDelegate_def)
  from SyncNext [OF this SyncStore] have "sync_reachable ?d (?j\<lparr>sy_marking := 1\<rparr>)" by simp
  from SyncNext [OF this SyncOffer, of 0] have "sync_reachable ?d ?j" by (simp add: offerSync_def)
  from SyncNext [OF this SyncSelect] have "sync_reachable ?d ?s" by simp
  moreover have "IsReady (sy_delegate ?s)" by (simp add: IsReady_def markSyncComplete_def)
  ultimately show ?thesis using only_timeout_left [of ?s] by (intro exI [of _ ?s]) simp
qed

section \<open>Propagation of block events\<close>

context blocklist_cache
begin

lemma until_blockAt_fresh:
  "room (Suc n) (bc_cache b) \<Longrightarrow> blocked_until ot t k b = None \<Longrightarrow> t < x \<Longrightarrow>
    blocked_until ot t' k (BlockWithExpiresAt ot t k x e b) = (if t' < x then Some x else None)"
  by (rule store.blockAt_fresh)

lemma until_blockAt_other:
  "room (Suc n) (bc_cache b) \<Longrightarrow> k' \<noteq> k \<Longrightarrow> t \<le> t' \<Longrightarrow>
    blocked_until ot t' k' (BlockWithExpiresAt ot t k x e b) = blocked_until ot t' k' b"
  by (rule store.blockAt_other)

lemma until_unblock: "blocked_until ot t' k' (Unblock ot t k b) = (if k' = k then None else blocked_until ot t' k' b)"
  by (rule store.unblock_blk)

end

lemma set_otherMembers [simp]: "set (otherMembers c) = set (cv_members c) - {cv_localAddr c}"
  by (auto simp: otherMembers_def)



section \<open>The persistent channel\<close>

definition canSend :: "string \<Rightarrow> channelManager \<Rightarrow> bool" where
  "canSend addr cm = (case Send_lookup addr cm of None \<Rightarrow> False | Some p \<Rightarrow> length (pc_sendCh (cm_heap cm p)) < channelSendBuffer)"

lemma Send_lookup_open:
  "cm_inv cm \<Longrightarrow> Send_lookup addr cm = Some p \<Longrightarrow> \<not> pc_closed (cm_heap cm p) \<and> pc_addr (cm_heap cm p) = addr"
  by (simp add: Send_lookup_def cm_invD(2))

lemma Send_ok_iff: "cm_inv cm \<Longrightarrow> fst (Send addr msg cm) = SendOk \<longleftrightarrow> canSend addr cm"
  by (cases "Send_lookup addr cm") (simp_all add: Send_def canSend_def Send_enqueue_def Let_def Send_lookup_open)

text \<open>The sends of one call run against a consistent peer map, so none of them panics by itself.\<close>

lemma Send_no_panic: "cm_inv cm \<Longrightarrow> fst (Send addr msg cm) \<noteq> SendPanic"
  by (cases "Send_lookup addr cm") (simp_all add: Send_def Send_enqueue_def Let_def Send_lookup_open)

lemma Send_inv: "cm_inv cm \<Longrightarrow> cm_inv (snd (Send addr msg cm))"
  by (auto simp: Send_def Send_enqueue_inv split: option.split)

lemma Send_other:
  assumes "cm_inv cm" and "a \<noteq> addr"
  shows "canSend a (snd (Send addr msg cm)) = canSend a cm"
proof -
  have "p \<noteq> q" if "Send_lookup addr cm = Some p" "Send_lookup a cm = Some q" for p q
    using that Send_lookup_open [OF assms(1)] assms(2) by blast
  then show ?thesis
    by (auto simp: Send_def canSend_def Send_enqueue_def Let_def Send_lookup_def split: option.splits)
qed

lemma channelSends_exact:
  "cm_inv cm \<Longrightarrow> distinct addrs \<Longrightarrow>
    fst (channelSends msg addrs cm) = (map (\<lambda>a. ChannelSend a msg) (filter (\<lambda>a. canSend a cm) addrs) :: 'w effect list)"
proof (induction addrs arbitrary: cm)
  case (Cons addr addrs)
  let ?cm = "snd (Send addr msg cm)"
  have "fst (channelSends msg addrs ?cm) = (map (\<lambda>a. ChannelSend a msg) (filter (\<lambda>a. canSend a ?cm) addrs) :: 'w effect list)"
    using Cons Send_inv by simp
  also have "filter (\<lambda>a. canSend a ?cm) addrs = filter (\<lambda>a. canSend a cm) addrs"
    using Cons.prems by (intro filter_cong) (auto intro!: Send_other)
  finally show ?case
    using Send_ok_iff [OF Cons.prems(1), of addr msg] by (simp add: case_prod_unfold)
qed simp

text \<open>
  With the persistent channel enabled there is no fallback: \<open>QueueBlockEvent\<close> reports no error, the
  event is queued exactly for the other members that have an open channel with room in its buffer, and
  a member without one is sent nothing at all, neither over the channel nor by memberlist.
\<close>

theorem channel_no_fallback:
  assumes "cm_reachable (NewChannelManager addr port) cm" and "cv_usePersistent c" and "cv_channels c = Some cm"
    and "distinct (cv_members c)"
  shows "map_option fst (QueueBlockEvent marshal (Some c) t k ttl e) =
    Some (map (\<lambda>a. ChannelSend a (Ch_BlockWithExpiresAt (blockEventFor t k ttl e))) (filter (\<lambda>a. canSend a cm) (otherMembers c)))"
  using assms channelSends_exact [OF cm_reachable_inv [OF assms(1) cm_inv_New], of "otherMembers c"]
  by (simp add: QueueBlockEvent_def useChannel_def sendToAllPeersViaChannel_def case_prod_unfold otherMembers_def Let_def)

theorem channel_no_fallback_witness:
  "map_option fst (QueueBlockEvent (cell_enc :: counterBatch drlMessage \<Rightarrow> _)
     (Some \<lparr>cv_localAddr = ''a'', cv_members = [''a'', ''b''], cv_usePersistent = True, cv_channels = Some (NewChannelManager ''a'' 7947)\<rparr>)
     5 ''k'' 60 None) = Some []"
  by (subst channel_no_fallback [OF cm_reachable.Init])
     (simp_all add: otherMembers_def canSend_def Send_lookup_def NewChannelManager_def)

end
