(* ===== verification/Cluster.thy ===== *)
theory Cluster
  imports Delegate
begin

text \<open>
  Package \<open>internal/membership\<close>, files \<open>membership.go\<close>, \<open>event.go\<close> and \<open>encryption.go\<close>, with the wiring
  of \<open>internal/cmd/cluster.go\<close>: starting and joining the cluster, discovery of peers, readiness, the
  reaction to membership events, sending, and leaving. The memberlist library is a parameter: what
  \<open>Create\<close>, \<open>Join\<close>, \<open>Leave\<close> and the sends return. Its members are pairs of name and address.
\<close>

section \<open>Addresses (package net)\<close>

text \<open>
  A \<open>net.IP\<close> is a slice of 4 or 16 bytes; an IPv4 address inside an IPv6 one has the prefix of ten zero
  and two \<open>0xff\<close> bytes.
\<close>

type_synonym netIP = "8 word list"

definition To4 :: "netIP \<Rightarrow> netIP option" where
  "To4 ip =
     (if length ip = 4 then Some ip
      else if length ip = 16 \<and> take 10 ip = replicate 10 0 \<and> ip ! 10 = 0xff \<and> ip ! 11 = 0xff then Some (drop 12 ip)
      else None)"

text \<open>\<open>net.CIDRMask(ones, 32)\<close> and \<open>IPNet.Contains\<close> of a 4-byte address.\<close>

definition mask_byte :: "nat \<Rightarrow> 8 word" where
  "mask_byte n = (if 8 \<le> n then 0xff else 0xff - of_nat (2 ^ (8 - n) - 1))"

definition CIDRMask :: "nat \<Rightarrow> 8 word list" where
  "CIDRMask ones = map (\<lambda>i. mask_byte (ones - 8 * i)) [0..<4]"

definition IPNet_Contains :: "netIP \<times> nat \<Rightarrow> netIP \<Rightarrow> bool" where
  "IPNet_Contains n ip =
     (length ip = length (fst n) \<and>
      list_all (\<lambda>((nn, m), b). nn AND m = b AND m) (zip (zip (fst n) (CIDRMask (snd n))) ip))"

definition IP_String :: "netIP \<Rightarrow> string" where
  "IP_String ip =
     dec (unat (ip ! 0)) @ ''.'' @ dec (unat (ip ! 1)) @ ''.'' @ dec (unat (ip ! 2)) @ ''.'' @ dec (unat (ip ! 3))"

definition privateIPv4Nets :: "(netIP \<times> nat) list" where
  "privateIPv4Nets = [([10, 0, 0, 0], 8), ([172, 16, 0, 0], 12), ([192, 168, 0, 0], 16), ([169, 254, 0, 0], 16)]"

text \<open>\<open>discoverPeers\<close>: \<open>lookup\<close> is what the resolver returns for the service name.\<close>

definition discoverPeers :: "(string \<Rightarrow> netIP list option) \<Rightarrow> membershipConfig \<Rightarrow> string list option" where
  "discoverPeers lookup cfg =
     map_option (\<lambda>addrs. concat (map (\<lambda>addr. case To4 addr of
                                                None \<Rightarrow> []
                                              | Some ip \<Rightarrow> if list_ex (\<lambda>n. IPNet_Contains n ip) privateIPv4Nets
                                                          then [IP_String ip] else []) addrs))
       (lookup (ServiceName cfg))"

section \<open>The cluster\<close>

type_synonym node = "string \<times> string"

record ('b, 'c, 'r) cluster =
  cl_config :: config
  cl_localIP :: string
  cl_cacheManager :: "('b, 'c, 'r) manager"
  cl_memberlist :: "node list option"
  cl_stateDelegate :: "delegate option"
  cl_channelManager :: "channelManager option"
  cl_ready :: bool

definition NewCluster :: "config \<Rightarrow> string \<Rightarrow> ('b, 'c, 'r) manager \<Rightarrow> ('b, 'c, 'r) cluster" where
  "NewCluster cfg localIP cacheManager =
     \<lparr>cl_config = cfg, cl_localIP = localIP, cl_cacheManager = cacheManager, cl_memberlist = None,
      cl_stateDelegate = None, cl_channelManager = None, cl_ready = False\<rparr>"

definition SetStateDelegate :: "delegate \<Rightarrow> ('b, 'c, 'r) cluster \<Rightarrow> ('b, 'c, 'r) cluster" where
  "SetStateDelegate d c = c\<lparr>cl_stateDelegate := Some d\<rparr>"

definition SetChannelManager :: "channelManager \<Rightarrow> ('b, 'c, 'r) cluster \<Rightarrow> ('b, 'c, 'r) cluster" where
  "SetChannelManager cm c = c\<lparr>cl_channelManager := Some cm\<rparr>"

definition Members :: "('b, 'c, 'r) cluster \<Rightarrow> node list" where
  "Members c = (case cl_memberlist c of None \<Rightarrow> [] | Some ml \<Rightarrow> ml)"

definition NumMembers :: "('b, 'c, 'r) cluster \<Rightarrow> nat" where
  "NumMembers c = (case cl_memberlist c of None \<Rightarrow> 0 | Some ml \<Rightarrow> length ml)"

definition MemberNames :: "('b, 'c, 'r) cluster \<Rightarrow> string list" where
  "MemberNames c = map fst (Members c)"

definition MemberAddrs :: "('b, 'c, 'r) cluster \<Rightarrow> string list" where
  "MemberAddrs c = map snd (Members c)"

definition LocalAddr :: "('b, 'c, 'r) cluster \<Rightarrow> string" where
  "LocalAddr c = cl_localIP c"

text \<open>What the state delegate reads of its cluster.\<close>

definition viewOf :: "('b, 'c, 'r) cluster \<Rightarrow> clusterView" where
  "viewOf c = \<lparr>cv_localAddr = LocalAddr c, cv_members = MemberAddrs c,
               cv_usePersistent = UseHiPrioPersistentChannel (Membership (cl_config c)),
               cv_channels = cl_channelManager c\<rparr>"

definition updateClusterSize :: "('b, 'c, 'r) cluster \<Rightarrow> 'w effect list" where
  "updateClusterSize c = (case cl_memberlist c of None \<Rightarrow> [] | Some ml \<Rightarrow> [Metric (SetClusterSize (length ml))])"

definition Cluster_IsReady :: "('b, 'c, 'r) cluster \<Rightarrow> bool" where
  "Cluster_IsReady c = (case cl_stateDelegate c of Some d \<Rightarrow> IsReady d | None \<Rightarrow> cl_ready c)"

definition markReady :: "('b, 'c, 'r) cluster \<Rightarrow> ('b, 'c, 'r) cluster" where
  "markReady c = c\<lparr>cl_ready := True, cl_stateDelegate := map_option MarkReady (cl_stateDelegate c)\<rparr>"

section \<open>Starting\<close>

text \<open>
  \<open>BuildKeyring\<close>; \<open>newKeyring\<close> stands for \<open>memberlist.NewKeyring\<close>. The outer option is the error, the inner
  one the nil keyring.
\<close>

definition BuildKeyring :: "(string list \<Rightarrow> string \<Rightarrow> 'k option) \<Rightarrow> string list \<Rightarrow> 'k option option" where
  "BuildKeyring newKeyring secretKeys =
     (case secretKeys of [] \<Rightarrow> Some None | primary # _ \<Rightarrow> map_option Some (newKeyring secretKeys primary))"

record 'k memberlistConfig =
  ml_Name :: string
  ml_BindAddr :: string
  ml_BindPort :: int
  ml_AdvertiseAddr :: string
  ml_AdvertisePort :: int
  ml_GossipInterval :: duration
  ml_GossipNodes :: int
  ml_Keyring :: "'k option"
  ml_Delegate :: bool

datatype clusterError = EKeyring | ECreate | ENotInitialized | ENodeNotFound | ESend | ELeave | EShutdown

text \<open>\<open>Start\<close>; \<open>lan\<close> is \<open>memberlist.DefaultLANConfig()\<close> and \<open>create\<close> is \<open>memberlist.Create\<close>.\<close>

definition mlConfigFor :: "'k memberlistConfig \<Rightarrow> 'k option \<Rightarrow> ('b, 'c, 'r) cluster \<Rightarrow> 'k memberlistConfig" where
  "mlConfigFor lan keyring c =
     (let m = Membership (cl_config c);
          cfg = lan\<lparr>ml_Name := cl_localIP c, ml_BindAddr := BindAddr m, ml_BindPort := Port m,
                    ml_AdvertiseAddr := cl_localIP c, ml_AdvertisePort := Port m\<rparr>;
          cfg = (if 0 < GossipInterval m then cfg\<lparr>ml_GossipInterval := GossipInterval m\<rparr> else cfg);
          cfg = (if 0 < GossipNodes m then cfg\<lparr>ml_GossipNodes := GossipNodes m\<rparr> else cfg);
          cfg = (case keyring of None \<Rightarrow> cfg | Some k \<Rightarrow> cfg\<lparr>ml_Keyring := Some k\<rparr>)
      in if cl_stateDelegate c \<noteq> None then cfg\<lparr>ml_Delegate := True\<rparr> else cfg)"

definition Start ::
  "(string list \<Rightarrow> string \<Rightarrow> 'k option) \<Rightarrow> 'k memberlistConfig \<Rightarrow> ('k memberlistConfig \<Rightarrow> node list option) \<Rightarrow>
   ('b, 'c, 'r) cluster \<Rightarrow> clusterError + (('b, 'c, 'r) cluster \<times> 'w effect list)" where
  "Start newKeyring lan create c =
     (case BuildKeyring newKeyring (SecretKeys (Membership (cl_config c))) of
        None \<Rightarrow> Inl EKeyring
      | Some keyring \<Rightarrow>
          (case create (mlConfigFor lan keyring c) of
             None \<Rightarrow> Inl ECreate
           | Some ml \<Rightarrow> let c' = c\<lparr>cl_memberlist := Some ml\<rparr> in Inr (c', updateClusterSize c')))"

section \<open>Joining\<close>

text \<open>
  \<open>waitForChannelsReady\<close> polls; \<open>obs i\<close> is what its \<open>i\<close>-th round sees: the member addresses, the channel
  manager and the time. Between rounds it sleeps 50 milliseconds. The fuel bounds the rounds (the
  result \<open>None\<close> is running out of it); the answer says whether all peers were connected.
\<close>

definition channelReadyTimeout :: duration where
  "channelReadyTimeout = 30 * Second"

fun waitLoop ::
  "nat \<Rightarrow> (nat \<Rightarrow> string list \<times> channelManager \<times> gotime) \<Rightarrow> string \<Rightarrow> gotime \<Rightarrow> nat \<Rightarrow> bool option" where
  "waitLoop 0 obs localAddr deadline i = None"
| "waitLoop (Suc fuel) obs localAddr deadline i =
     (case obs i of (peers, cm, now) \<Rightarrow>
        if list_all (\<lambda>addr. addr = localAddr \<or> IsConnected addr cm) peers then Some True
        else if deadline < now then Some False
        else waitLoop fuel obs localAddr deadline (Suc i))"

definition waitForChannelsReady ::
  "nat \<Rightarrow> (nat \<Rightarrow> string list \<times> channelManager \<times> gotime) \<Rightarrow> gotime \<Rightarrow> ('b, 'c, 'r) cluster \<Rightarrow> bool option" where
  "waitForChannelsReady fuel obs start c =
     (case cl_channelManager c of
        None \<Rightarrow> Some True
      | Some _ \<Rightarrow> waitLoop fuel obs (LocalAddr c) (start + channelReadyTimeout) 0)"

text \<open>
  \<open>JoinCluster\<close>, after the start-up delay. \<open>localNode\<close> is the address of memberlist's local node, \<open>join\<close>
  the member list and the count \<open>memberlist.Join\<close> leads to, \<open>signalled\<close> as in \<open>WaitForSync\<close>.
\<close>

definition JoinCluster ::
  "'c ac_ops \<Rightarrow> 'r ring \<Rightarrow> (string \<Rightarrow> netIP list option) \<Rightarrow> string \<Rightarrow> (string list \<Rightarrow> node list \<times> nat) \<Rightarrow>
   nat \<Rightarrow> (nat \<Rightarrow> string list \<times> channelManager \<times> gotime) \<Rightarrow> bool \<Rightarrow> gotime \<Rightarrow>
   ('b, 'c, 'r) cluster \<Rightarrow> (('b, 'c, 'r) cluster \<times> 'w effect list) option" where
  "JoinCluster ot rg lookup localNode join fuel obs signalled now c =
     (case discoverPeers lookup (Membership (cl_config c)) of
        None \<Rightarrow> Some (markReady c, [])
      | Some peers \<Rightarrow>
          let peersToJoin = filter (\<lambda>peer. peer \<noteq> localNode) peers
          in if peersToJoin = [] then Some (markReady c, [])
             else case join peersToJoin of (ml, numJoined) \<Rightarrow>
                    let c1 = c\<lparr>cl_memberlist := Some ml\<rparr>;
                        out = updateClusterSize c1;
                        c2 = c1\<lparr>cl_cacheManager := Manager_UpdateNodes ot rg now (MemberAddrs c1) (cl_cacheManager c1)\<rparr>
                    in case waitForChannelsReady fuel obs now c2 of
                         None \<Rightarrow> None
                       | Some _ \<Rightarrow>
                           Some (case cl_stateDelegate c2 of
                                   Some d \<Rightarrow>
                                     if 0 < numJoined then c2\<lparr>cl_stateDelegate := Some (snd (WaitForSync signalled d))\<rparr>
                                     else markReady c2
                                 | None \<Rightarrow> markReady c2, out))"

section \<open>Membership events\<close>

text \<open>
  The goroutine both events start: publish the cluster size and hand the member addresses to the
  caches. \<open>NotifyJoin\<close> also says whether this node dials the new peer.
\<close>

definition refreshNodes ::
  "'c ac_ops \<Rightarrow> 'r ring \<Rightarrow> gotime \<Rightarrow> ('b, 'c, 'r) cluster \<Rightarrow> ('b, 'c, 'r) cluster \<times> 'w effect list" where
  "refreshNodes ot rg now c =
     (c\<lparr>cl_cacheManager := Manager_UpdateNodes ot rg now (MemberAddrs c) (cl_cacheManager c)\<rparr>, updateClusterSize c)"

definition NotifyJoin :: "node \<Rightarrow> ('b, 'c, 'r) cluster \<Rightarrow> bool \<times> 'w effect list" where
  "NotifyJoin n c =
     (case cl_channelManager c of None \<Rightarrow> False | Some cm \<Rightarrow> EstablishForPeer (snd n) cm, [Metric (IncEvent ''join'')])"

definition NotifyLeave :: "node \<Rightarrow> ('b, 'c, 'r) cluster \<Rightarrow> ('b, 'c, 'r) cluster \<times> 'w effect list" where
  "NotifyLeave n c =
     (c\<lparr>cl_channelManager := map_option (Close (snd n)) (cl_channelManager c)\<rparr>, [Metric (IncEvent ''leave'')])"

section \<open>Sending and leaving\<close>

definition findNodeByAddr :: "string \<Rightarrow> ('b, 'c, 'r) cluster \<Rightarrow> node option" where
  "findNodeByAddr addr c = find (\<lambda>m. snd m = addr) (Members c)"

definition SendAccountingMsg ::
  "(node \<Rightarrow> 'w list \<Rightarrow> bool) \<Rightarrow> string \<Rightarrow> 'w list \<Rightarrow> ('b, 'c, 'r) cluster \<Rightarrow> clusterError option \<times> 'w effect list" where
  "SendAccountingMsg sendBestEffort addr data c =
     (if cl_memberlist c = None then (Some ENotInitialized, [])
      else case findNodeByAddr addr c of
             None \<Rightarrow> (Some ENodeNotFound, [])
           | Some n \<Rightarrow> (if sendBestEffort n data then None else Some ESend, [SendBestEffort (snd n) data]))"

definition SendReliableMsg ::
  "(node \<Rightarrow> 'w list \<Rightarrow> bool) \<Rightarrow> string \<Rightarrow> 'w list \<Rightarrow> ('b, 'c, 'r) cluster \<Rightarrow> clusterError option \<times> 'w effect list" where
  "SendReliableMsg sendReliable addr data c =
     (if cl_memberlist c = None then (Some ENotInitialized, [])
      else case findNodeByAddr addr c of
             None \<Rightarrow> (Some ENodeNotFound, [])
           | Some n \<Rightarrow> (if sendReliable n data then None else Some ESend, [SendReliable (snd n) data]))"

datatype mlAction = MlLeave | MlShutdown

definition Leave ::
  "bool \<Rightarrow> bool \<Rightarrow> ('b, 'c, 'r) cluster \<Rightarrow> (clusterError option \<times> mlAction list) \<times> ('b, 'c, 'r) cluster" where
  "Leave leaveOk shutdownOk c =
     (let c' = c\<lparr>cl_channelManager := map_option Channel.Stop (cl_channelManager c)\<rparr>;
          shut = (if shutdownOk then None else Some EShutdown)
      in case cl_memberlist c of
           None \<Rightarrow> ((None, []), c')
         | Some ml \<Rightarrow>
             if length ml = 1 \<and> snd (ml ! 0) = cl_localIP c then ((shut, [MlShutdown]), c')
             else if \<not> leaveOk then ((Some ELeave, [MlLeave]), c')
             else ((shut, [MlLeave, MlShutdown]), c'))"

text \<open>
  \<open>newCluster\<close> of \<open>internal/cmd/cluster.go\<close> up to the goroutine that joins. A failed start ends the
  process; \<open>listen\<close> says whether the channel's port can be bound.
\<close>

datatype 'a startup = MissingDependency string | ProcessExit int | Running 'a

definition newCluster ::
  "(string list \<Rightarrow> string \<Rightarrow> 'k option) \<Rightarrow> 'k memberlistConfig \<Rightarrow> ('k memberlistConfig \<Rightarrow> node list option) \<Rightarrow> (string \<Rightarrow> int \<Rightarrow> bool) \<Rightarrow>
   bool \<Rightarrow> bool \<Rightarrow> config \<Rightarrow> string \<Rightarrow> ('b, 'c, 'r) manager option \<Rightarrow>
   (('b, 'c, 'r) cluster \<times> 'w effect list) startup" where
  "newCluster newKeyring lan create listen hasLog hasMetrics cfg localIP cacheManager =
     (case cacheManager of
        None \<Rightarrow> MissingDependency ''cache''
      | Some m \<Rightarrow>
          if \<not> hasLog then MissingDependency ''logger''
          else if \<not> hasMetrics then MissingDependency ''metrics''
          else
            let d = NewStateDelegate (wrap64 (SyncTimeoutSeconds (Cache cfg) * Second));
                c = SetStateDelegate d (NewCluster cfg localIP m)
            in case Start newKeyring lan create c of
                 Inl _ \<Rightarrow> ProcessExit 1
               | Inr (c1, out) \<Rightarrow>
                   if UseHiPrioPersistentChannel (Membership cfg)
                   then let port = HiPrioChannelPort (Membership cfg)
                        in if listen localIP port then Running (SetChannelManager (NewChannelManager localIP port) c1, out)
                           else ProcessExit 1
                   else Running (c1, out))"

section \<open>Discovery admits private addresses only\<close>

lemma byte_cases: "P (b :: 8 word)" if "\<forall>n \<in> set [0..<256]. P (of_nat n)"
proof -
  have "unat b < 256" using unsigned_less [of b] by simp
  then have "unat b \<in> set [0..<256]" by simp
  from that [rule_format, OF this] show ?thesis by simp
qed

lemma byte_and_ff: "(b :: 8 word) AND 0xff = b"
  by (rule byte_cases) code_simp

lemma byte_and_f0: "(16 :: 8 word) AND 0xf0 = b AND 0xf0 \<longleftrightarrow> 16 \<le> b \<and> b \<le> 31"
  by (rule byte_cases) code_simp

lemma CIDRMasks: "CIDRMask 8 = [0xff, 0, 0, 0]" "CIDRMask 12 = [0xff, 0xf0, 0, 0]" "CIDRMask 16 = [0xff, 0xff, 0, 0]"
  by (simp_all add: CIDRMask_def mask_byte_def upt_conv_Cons)

definition private_range :: "8 word \<Rightarrow> 8 word \<Rightarrow> bool" where
  "private_range a b \<longleftrightarrow> a = 10 \<or> a = 172 \<and> 16 \<le> b \<and> b \<le> 31 \<or> a = 192 \<and> b = 168 \<or> a = 169 \<and> b = 254"

lemma private_nets: "list_ex (\<lambda>n. IPNet_Contains n [a, b, c, d]) privateIPv4Nets \<longleftrightarrow> private_range a b"
  using byte_and_ff [of a] byte_and_ff [of b] byte_and_f0 [of b]
  by (auto simp: privateIPv4Nets_def IPNet_Contains_def CIDRMasks private_range_def)

lemma To4_length: "To4 x = Some ip \<Longrightarrow> length ip = 4"
  by (auto simp: To4_def split: if_splits)

lemma length4: "length ip = 4 \<Longrightarrow> \<exists>a b c d. ip = [a, b, c, d]"
  by (auto simp: numeral_eq_Suc length_Suc_conv)

text \<open>
  C35. Discovery admits exactly the private peers: whatever the resolver answers, the peers to join are
  the dotted forms of the IPv4 addresses in it (also those wrapped in IPv6) that lie in 10.0.0.0/8,
  172.16.0.0/12, 192.168.0.0/16 or 169.254.0.0/16; no public address and no IPv6 address gets in.
\<close>

theorem discover_private:
  assumes "lookup (ServiceName cfg) = Some addrs"
  shows "\<exists>peers. discoverPeers lookup cfg = Some peers \<and>
    (\<forall>p. p \<in> set peers \<longleftrightarrow> (\<exists>addr a b c d. addr \<in> set addrs \<and> To4 addr = Some [a, b, c, d] \<and> private_range a b \<and> p = IP_String [a, b, c, d]))"
proof -
  have "p \<in> set (case To4 addr of None \<Rightarrow> [] | Some ip \<Rightarrow> if list_ex (\<lambda>n. IPNet_Contains n ip) privateIPv4Nets then [IP_String ip] else []) \<longleftrightarrow>
      (\<exists>a b c d. To4 addr = Some [a, b, c, d] \<and> private_range a b \<and> p = IP_String [a, b, c, d])" for p addr
  proof (cases "To4 addr")
    case (Some ip)
    then obtain a b c d where "ip = [a, b, c, d]" using length4 [OF To4_length] by blast
    with Some show ?thesis by (auto simp: private_nets)
  qed simp
  with assms show ?thesis by (simp add: discoverPeers_def) blast
qed

theorem discover_private_witness:
  "discoverPeers (\<lambda>_. Some [[172, 16, 0, 9], [8, 8, 8, 8]]) (Membership NewConfig) \<noteq> None"
  using discover_private [of "\<lambda>_. Some [[172, 16, 0, 9], [8, 8, 8, 8]]" "Membership NewConfig"] by auto

section \<open>Readiness\<close>

lemma waitLoop_Suc:
  "waitLoop (Suc n) obs a deadline i =
     (if list_all (\<lambda>addr. addr = a \<or> IsConnected addr (fst (snd (obs i)))) (fst (obs i)) then Some True
      else if deadline < snd (snd (obs i)) then Some False else waitLoop n obs a deadline (Suc i))"
  by (simp add: case_prod_unfold)

lemma waitLoop_returns:
  assumes "\<And>i. snd (snd (obs i)) + 50 * Millisecond \<le> snd (snd (obs (Suc i)))" and "deadline < snd (snd (obs (i + n)))"
  shows "\<exists>r j. waitLoop (Suc n) obs a deadline i = Some r \<and> i \<le> j \<and> j \<le> i + n \<and>
    (r \<longleftrightarrow> list_all (\<lambda>addr. addr = a \<or> IsConnected addr (fst (snd (obs j)))) (fst (obs j))) \<and> (r \<or> deadline < snd (snd (obs j)))"
  using assms(2)
proof (induction n arbitrary: i)
  case 0
  then show ?case
    by (subst waitLoop_Suc)
       (intro exI [of _ "list_all (\<lambda>addr. addr = a \<or> IsConnected addr (fst (snd (obs i)))) (fst (obs i))"] exI [of _ i], simp)
next
  case (Suc n)
  let ?all = "list_all (\<lambda>addr. addr = a \<or> IsConnected addr (fst (snd (obs i)))) (fst (obs i))"
  show ?case
  proof (cases "?all \<or> deadline < snd (snd (obs i))")
    case True
    then show ?thesis by (subst waitLoop_Suc) (intro exI [of _ ?all] exI [of _ i], auto simp del: waitLoop.simps)
  next
    case False
    have "deadline < snd (snd (obs (Suc i + n)))" using Suc.prems by simp
    from Suc.IH [OF this] obtain r j where "waitLoop (Suc n) obs a deadline (Suc i) = Some r" "Suc i \<le> j" "j \<le> Suc i + n"
      "r \<longleftrightarrow> list_all (\<lambda>addr. addr = a \<or> IsConnected addr (fst (snd (obs j)))) (fst (obs j))" "r \<or> deadline < snd (snd (obs j))"
      by blast
    with False show ?thesis by (subst waitLoop_Suc) (intro exI [of _ r] exI [of _ j], simp)
  qed
qed

lemma obs_time:
  fixes obs :: "nat \<Rightarrow> string list \<times> channelManager \<times> gotime"
  assumes "\<And>i. snd (snd (obs i)) + 50 * Millisecond \<le> snd (snd (obs (Suc i)))"
  shows "snd (snd (obs 0)) + int i * (50 * Millisecond) \<le> snd (snd (obs i))"
proof (induction i)
  case (Suc i)
  then show ?case using assms [of i] by (simp add: distrib_right)
qed simp

lemma waitForChannels_returns:
  fixes c :: "('b, 'c, 'r) cluster"
  assumes "\<And>i. snd (snd (obs i)) + 50 * Millisecond \<le> snd (snd (obs (Suc i)))" and "start \<le> snd (snd (obs 0))"
  shows "\<exists>r j. waitForChannelsReady 602 obs start c = Some r \<and>
    (cl_channelManager c \<noteq> None \<longrightarrow>
      (r \<longleftrightarrow> list_all (\<lambda>addr. addr = LocalAddr c \<or> IsConnected addr (fst (snd (obs j)))) (fst (obs j))) \<and>
      (r \<or> start + channelReadyTimeout < snd (snd (obs j))))"
proof (cases "cl_channelManager c")
  case (Some cm)
  have "start + channelReadyTimeout < snd (snd (obs (0 + 601)))"
    using obs_time [of obs 601, OF assms(1)] assms(2) by (simp add: channelReadyTimeout_def duration_defs)
  from waitLoop_returns [OF assms(1) this, of "LocalAddr c"] obtain r j where
    r: "waitLoop (Suc 601) obs (LocalAddr c) (start + channelReadyTimeout) 0 = Some r"
    "r \<longleftrightarrow> list_all (\<lambda>addr. addr = LocalAddr c \<or> IsConnected addr (fst (snd (obs j)))) (fst (obs j))"
    "r \<or> start + channelReadyTimeout < snd (snd (obs j))" by blast
  have "Suc 601 = 602" by simp
  with r(1) Some have "waitForChannelsReady 602 obs start c = Some r" by (simp only: waitForChannelsReady_def option.case)
  with r(2,3) show ?thesis by blast
qed (auto simp: waitForChannelsReady_def)

text \<open>
  Waiting for the channels ends: each round sleeps at least 50 milliseconds, so after at most 602
  rounds \<open>waitForChannelsReady\<close> has returned; it reports success only when in one round every other
  member was connected, and failure only after the 30 seconds have passed.
\<close>

theorem wait_for_channels_bounded:
  assumes "\<And>i. snd (snd (obs i)) + 50 * Millisecond \<le> snd (snd (obs (Suc i)))" and "start \<le> snd (snd (obs 0))"
    and "cl_channelManager c = Some cm"
  shows "\<exists>r j. waitForChannelsReady 602 obs start c = Some r \<and>
    (r \<longleftrightarrow> list_all (\<lambda>addr. addr = LocalAddr c \<or> IsConnected addr (fst (snd (obs j)))) (fst (obs j))) \<and>
    (r \<or> start + channelReadyTimeout < snd (snd (obs j)))"
  using waitForChannels_returns [OF assms(1,2), of c] assms(3) by simp

definition demo_cluster :: "(blocklistEntryData ttl_map, nat ttl_map, string list) cluster" where
  "demo_cluster = SetChannelManager (NewChannelManager ''a'' 7947)
     (NewCluster NewConfig ''a'' \<lparr>mg_Blocklist = emptyBlocklist, mg_Accounting = emptyAccounting ''a'' [''a'']\<rparr>)"

theorem wait_for_channels_bounded_witness:
  "waitForChannelsReady 602 (\<lambda>i. ([''b''], NewChannelManager ''a'' 7947, int i * Second)) 0 demo_cluster \<noteq> None"
  using wait_for_channels_bounded [of "\<lambda>i. ([''b''], NewChannelManager ''a'' 7947, int i * Second)" 0 demo_cluster "NewChannelManager ''a'' 7947"]
  by (auto simp: duration_defs demo_cluster_def SetChannelManager_def)

lemma WaitForSync_ready: "IsReady (snd (WaitForSync s d))"
  by (simp add: WaitForSync_def IsReady_def markSyncComplete_def)

lemma markReady_ready: "Cluster_IsReady (markReady c)"
  by (cases "cl_stateDelegate c") (simp_all add: Cluster_IsReady_def markReady_def MarkReady_def markSyncComplete_def IsReady_def)

lemma markReady_fields [simp]:
  "cl_memberlist (markReady c) = cl_memberlist c" "cl_cacheManager (markReady c) = cl_cacheManager c"
  by (simp_all add: markReady_def)

lemma JoinCluster_joined:
  assumes "discoverPeers lookup (Membership (cl_config c)) = Some peers" and "filter (\<lambda>p. p \<noteq> localNode) peers = ps" "ps \<noteq> []"
    and "join ps = (ml, n)" and "\<And>x :: ('b, 'c, 'r) cluster. \<exists>r. waitForChannelsReady fuel obs now x = Some r"
  shows "\<exists>c' out. JoinCluster ot rg lookup localNode join fuel obs signalled now (c :: ('b, 'c, 'r) cluster) = Some (c', out) \<and>
    Cluster_IsReady c' \<and> cl_memberlist c' = Some ml \<and>
    cl_cacheManager c' = Manager_UpdateNodes ot rg now (map snd ml) (cl_cacheManager c)"
proof -
  let ?c = "c\<lparr>cl_memberlist := Some ml, cl_cacheManager := Manager_UpdateNodes ot rg now (map snd ml) (cl_cacheManager c)\<rparr>"
  obtain r where "waitForChannelsReady fuel obs now ?c = Some r" using assms(5) by blast
  with assms show ?thesis
    by (cases "cl_stateDelegate c") (auto simp: JoinCluster_def MemberAddrs_def Members_def Let_def markReady_ready WaitForSync_ready
        Cluster_IsReady_def [of "x\<lparr>cl_stateDelegate := y\<rparr>" for x y])
qed

text \<open>
  C34. A node becomes ready whatever happens during the join: when the lookup fails, when there is no
  peer, when the join reaches no one, when the channels or the state sync time out. When it joins, the
  hash ring of its caches holds exactly the member addresses memberlist reported.
\<close>

theorem join_makes_ready:
  assumes obs: "\<And>i. snd (snd (obs i)) + 50 * Millisecond \<le> snd (snd (obs (Suc i)))" "now \<le> snd (snd (obs 0))"
    and rg: "consistent_ring (rg :: 'r ring)"
  shows "\<exists>c' (out :: 'w effect list). JoinCluster ot rg lookup localNode join 602 obs signalled now (c :: ('b, 'c, 'r) cluster) = Some (c', out) \<and>
    Cluster_IsReady c' \<and>
    (c' = markReady c \<or> set (ring_GetMembers rg (ac_ring (mg_Accounting (cl_cacheManager c')))) = set (MemberAddrs c'))"
proof (cases "\<exists>peers. discoverPeers lookup (Membership (cl_config c)) = Some peers \<and> filter (\<lambda>p. p \<noteq> localNode) peers \<noteq> []")
  case False
  then show ?thesis
    by (cases "discoverPeers lookup (Membership (cl_config c))") (simp_all add: JoinCluster_def markReady_ready)
next
  case True
  then obtain peers where p: "discoverPeers lookup (Membership (cl_config c)) = Some peers" "filter (\<lambda>p. p \<noteq> localNode) peers \<noteq> []"
    by blast
  obtain ml n where j: "join (filter (\<lambda>p. p \<noteq> localNode) peers) = (ml, n)" by fastforce
  have "\<exists>r. waitForChannelsReady 602 obs now x = Some r" for x :: "('b, 'c, 'r) cluster"
    using waitForChannels_returns [OF obs, of x] by blast
  from JoinCluster_joined [where localNode = localNode and join = join and fuel = 602, OF p(1) refl p(2) j this, of ot rg signalled]
  obtain c' and out :: "'w effect list" where c': "JoinCluster ot rg lookup localNode join 602 obs signalled now c = Some (c', out)" "Cluster_IsReady c'"
    "cl_memberlist c' = Some ml" "cl_cacheManager c' = Manager_UpdateNodes ot rg now (map snd ml) (cl_cacheManager c)" by blast
  then have "set (ring_GetMembers rg (ac_ring (mg_Accounting (cl_cacheManager c')))) = set (MemberAddrs c')"
    by (simp add: Manager_UpdateNodes_def UpdateNodes_keeps updateRing_set [OF rg] MemberAddrs_def Members_def)
  with c'(1,2) show ?thesis by blast
qed

theorem join_makes_ready_witness:
  "\<exists>c' out. JoinCluster ttl_ops list_ring (\<lambda>_. Some [[10, 0, 0, 1], [10, 0, 0, 2]]) ''10.0.0.1'' (\<lambda>_. ([(''a'', ''10.0.0.1''), (''b'', ''10.0.0.2'')], 1))
     602 (\<lambda>i. ([], NewChannelManager ''a'' 7947, int i * Second)) True 0 demo_cluster = Some (c', out) \<and> Cluster_IsReady c'"
  using join_makes_ready [where obs = "\<lambda>i. ([], NewChannelManager ''a'' 7947, int i * Second)" and now = 0 and rg = list_ring
      and ot = ttl_ops and lookup = "\<lambda>_. Some [[10, 0, 0, 1], [10, 0, 0, 2]]" and localNode = "''10.0.0.1''"
      and join = "\<lambda>_. ([(''a'', ''10.0.0.1''), (''b'', ''10.0.0.2'')], 1)" and signalled = True and c = demo_cluster]
    lring.consistent_ring_axioms by (auto simp: duration_defs)

end
