(* ===== verification/RateLimit.thy ===== *)
theory RateLimit
  imports Config
begin

text \<open>
  Package \<open>internal/ratelimit\<close>: the decision record, the sliding-window limiter and the token bucket,
  and the constructor \<open>newRateLimiter\<close> of \<open>internal/cmd/accounting.go\<close> that selects one.

  \<open>float64\<close> arithmetic: each operation of the source is the exact operation on \<open>real\<close> followed by
  the rounding \<open>rnd\<close>, a parameter. What is assumed of it is in the locale \<open>float_rounding\<close>: rounding
  is monotone, is stable on its own results, and is exact on the integers of up to 53 bits.
\<close>

record decision =
  Blocked :: bool
  RetryAfter :: duration
  CurrentCount :: int64
  DLimit :: int64
  RuleName :: string
  TokensRemaining :: real

section \<open>Sliding window\<close>

definition SlidingWindow_Evaluate :: "string \<Rightarrow> int64 \<Rightarrow> accountingRule \<Rightarrow> string \<Rightarrow> decision" where
  "SlidingWindow_Evaluate key currentCount rule ruleName =
     (let d = \<lparr>Blocked = False, RetryAfter = 0, CurrentCount = currentCount, DLimit = Limit rule,
               RuleName = ruleName, TokensRemaining = -1\<rparr>
      in if sint currentCount > sint (Limit rule)
         then d\<lparr>Blocked := True, RetryAfter := WindowDuration rule\<rparr> else d)"

section \<open>Token bucket\<close>

record bucketState =
  tokens :: real
  lastRefill :: gotime

record tokenBucket =
  buckets :: "string \<Rightarrow> bucketState option"
  tb_capacity :: real
  tb_refillRate :: real

definition NewTokenBucket :: "real \<Rightarrow> real \<Rightarrow> tokenBucket" where
  "NewTokenBucket capacity refillRate =
     \<lparr>buckets = (\<lambda>_. None), tb_capacity = capacity, tb_refillRate = refillRate\<rparr>"

text \<open>\<open>time.Duration.Seconds\<close>: whole seconds plus the remaining nanoseconds over \<open>1e9\<close>.\<close>

definition Seconds :: "(real \<Rightarrow> real) \<Rightarrow> duration \<Rightarrow> real" where
  "Seconds rnd d = rnd (rnd (of_int (d sdiv Second)) + rnd (rnd (of_int (d smod Second)) / 1000000000))"

text \<open>Conversion of a \<open>float64\<close> to \<open>time.Duration\<close>: truncation towards zero.\<close>

definition trunc :: "real \<Rightarrow> int" where
  "trunc x = (if 0 \<le> x then \<lfloor>x\<rfloor> else \<lceil>x\<rceil>)"

definition getOrCreate :: "gotime \<Rightarrow> string \<Rightarrow> real \<Rightarrow> tokenBucket \<Rightarrow> bucketState \<times> tokenBucket" where
  "getOrCreate now key capacity tb =
     (case buckets tb key of
        Some actual \<Rightarrow> (actual, tb)
      | None \<Rightarrow> let candidate = \<lparr>tokens = capacity, lastRefill = now\<rparr>
                in (candidate, tb\<lparr>buckets := (buckets tb)(key \<mapsto> candidate)\<rparr>))"

text \<open>
  \<open>TokenBucket.Evaluate\<close>. The source reads the clock twice, in \<open>getOrCreate\<close> and after it; \<open>now0\<close>
  and \<open>now\<close> are the two readings.
\<close>

definition TokenBucket_Evaluate ::
  "(real \<Rightarrow> real) \<Rightarrow> gotime \<Rightarrow> gotime \<Rightarrow> string \<Rightarrow> int64 \<Rightarrow> accountingRule \<Rightarrow> string \<Rightarrow> tokenBucket \<Rightarrow>
   decision \<times> tokenBucket" where
  "TokenBucket_Evaluate rnd now0 now key currentCount rule ruleName tb =
     (let d = \<lparr>Blocked = False, RetryAfter = 0, CurrentCount = currentCount, DLimit = Limit rule,
               RuleName = ruleName, TokensRemaining = 0\<rparr>;
          capacity = tb_capacity tb;
          (state, tb1) = getOrCreate now0 key capacity tb;
          elapsed = Seconds rnd (now - lastRefill state);
          refilled = min capacity (rnd (tokens state + rnd (elapsed * tb_refillRate tb)))
      in if 1 \<le> refilled
         then let left = rnd (refilled - 1)
              in (d\<lparr>TokensRemaining := left, Blocked := False\<rparr>,
                  tb1\<lparr>buckets := (buckets tb1)(key \<mapsto> \<lparr>tokens = left, lastRefill = now\<rparr>)\<rparr>)
         else (d\<lparr>TokensRemaining := refilled, Blocked := True,
                 RetryAfter :=
                   (if 0 < tb_refillRate tb
                    then trunc (rnd (rnd (rnd (1 - refilled) / tb_refillRate tb) * 1000000000))
                    else WindowDuration rule)\<rparr>,
               tb1\<lparr>buckets := (buckets tb1)(key \<mapsto> \<lparr>tokens = refilled, lastRefill = now\<rparr>)\<rparr>))"

section \<open>The RateLimiter interface\<close>

text \<open>
  The state of a limiter, as the engine holds it behind the Go interface: one of the two
  implementations, selected by \<open>newRateLimiter\<close>.
\<close>

datatype limiter = SlidingWindow | TokenBucket tokenBucket

definition newRateLimiter :: "(real \<Rightarrow> real) \<Rightarrow> accountingSettings \<Rightarrow> limiter" where
  "newRateLimiter rnd s =
     (if ToLower (Algorithm s) = ''token-bucket''
      then TokenBucket (NewTokenBucket (rnd (of_int (sint (Capacity s)))) (RefillRate s))
      else SlidingWindow)"

fun Evaluate ::
  "(real \<Rightarrow> real) \<Rightarrow> gotime \<Rightarrow> string \<Rightarrow> int64 \<Rightarrow> accountingRule \<Rightarrow> string \<Rightarrow> limiter \<Rightarrow> decision \<times> limiter" where
  "Evaluate rnd now key n rule ruleName SlidingWindow =
     (SlidingWindow_Evaluate key n rule ruleName, SlidingWindow)"
| "Evaluate rnd now key n rule ruleName (TokenBucket tb) =
     (case TokenBucket_Evaluate rnd now now key n rule ruleName tb of (d, tb') \<Rightarrow> (d, TokenBucket tb'))"

text \<open>
  The contract a limiter offers its caller: the decision carries the count, the limit and the rule
  name it was asked about; a decision that does not block carries no delay; and the limiter keeps a
  well-formedness invariant. Lemmas for the engine are proved from the contract alone.
\<close>

locale rate_limiter =
  fixes eval :: "gotime \<Rightarrow> string \<Rightarrow> int64 \<Rightarrow> accountingRule \<Rightarrow> string \<Rightarrow> 's \<Rightarrow> decision \<times> 's"
    and wf :: "gotime \<Rightarrow> 's \<Rightarrow> bool"
  assumes count: "CurrentCount (fst (eval now key n rule name s)) = n"
    and limit: "DLimit (fst (eval now key n rule name s)) = Limit rule"
    and name: "RuleName (fst (eval now key n rule name s)) = name"
    and no_delay: "\<not> Blocked (fst (eval now key n rule name s)) \<Longrightarrow> RetryAfter (fst (eval now key n rule name s)) = 0"
    and delay_nonneg: "wf now s \<Longrightarrow> 0 \<le> RetryAfter (fst (eval now key n rule name s))"
    and wf_eval: "wf now s \<Longrightarrow> now \<le> now' \<Longrightarrow> wf now' (snd (eval now key n rule name s))"
begin

text \<open>A run of evaluations at non-decreasing times, and the invariant along it.\<close>

fun run :: "(gotime \<times> string \<times> int64 \<times> accountingRule \<times> string) list \<Rightarrow> 's \<Rightarrow> 's" where
  "run [] s = s"
| "run ((now, key, n, rule, name) # es) s = run es (snd (eval now key n rule name s))"

lemma wf_run:
  "wf t s \<Longrightarrow> sorted (t # map fst es) \<Longrightarrow> t' \<ge> (if es = [] then t else fst (last es)) \<Longrightarrow>
   (\<And>t t' s. wf t s \<Longrightarrow> t \<le> t' \<Longrightarrow> wf t' s) \<Longrightarrow> wf t' (run es s)"
proof (induction es arbitrary: t s)
  case Nil
  then show ?case by simp
next
  case (Cons e es)
  obtain now key n rule name where e: "e = (now, key, n, rule, name)" by (cases e)
  have "wf now s" using Cons.prems e by auto
  then have step: "wf now (snd (eval now key n rule name s))" by (rule wf_eval) simp
  have "wf t' (run es (snd (eval now key n rule name s)))"
    by (rule Cons.IH [OF step]) (use Cons.prems e in auto)
  then show ?case by (simp add: e)
qed

end

interpretation sw: rate_limiter "\<lambda>now key n rule name (s :: unit). (SlidingWindow_Evaluate key n rule name, s)" "\<lambda>_ _. True"
  using WindowDuration_pos
  by unfold_locales (auto simp: SlidingWindow_Evaluate_def Let_def less_imp_le)

section \<open>The token bucket keeps its tokens between zero and the capacity\<close>

locale float_rounding =
  fixes rnd :: "real \<Rightarrow> real"
  assumes rnd_mono: "x \<le> y \<Longrightarrow> rnd x \<le> rnd y"
    and rnd_idem: "rnd (rnd x) = rnd x"
    and rnd_int: "\<bar>i\<bar> \<le> 2 ^ 53 \<Longrightarrow> rnd (of_int i) = of_int i"

definition bucket_wf :: "(real \<Rightarrow> real) \<Rightarrow> gotime \<Rightarrow> tokenBucket \<Rightarrow> bool" where
  "bucket_wf rnd now tb \<longleftrightarrow>
     0 \<le> tb_capacity tb \<and> rnd (tb_capacity tb) = tb_capacity tb \<and> 0 \<le> tb_refillRate tb \<and>
     (\<forall>key b. buckets tb key = Some b \<longrightarrow>
        0 \<le> tokens b \<and> tokens b \<le> tb_capacity tb \<and> lastRefill b \<le> now)"

text \<open>The bucket read or made by \<open>getOrCreate\<close>, and the tokens in it after the refill.\<close>

definition bucket_at :: "gotime \<Rightarrow> string \<Rightarrow> tokenBucket \<Rightarrow> bucketState" where
  "bucket_at now key tb =
     (case buckets tb key of Some b \<Rightarrow> b | None \<Rightarrow> \<lparr>tokens = tb_capacity tb, lastRefill = now\<rparr>)"

definition refill :: "(real \<Rightarrow> real) \<Rightarrow> gotime \<Rightarrow> string \<Rightarrow> tokenBucket \<Rightarrow> real" where
  "refill rnd now key tb =
     min (tb_capacity tb) (rnd (tokens (bucket_at now key tb) +
       rnd (Seconds rnd (now - lastRefill (bucket_at now key tb)) * tb_refillRate tb)))"

lemma TokenBucket_Evaluate_eq:
  "TokenBucket_Evaluate rnd now now key n rule name tb =
     (let r = refill rnd now key tb; left = (if 1 \<le> r then rnd (r - 1) else r) in
      (\<lparr>Blocked = \<not> 1 \<le> r,
        RetryAfter = (if 1 \<le> r then 0
                      else if 0 < tb_refillRate tb
                      then trunc (rnd (rnd (rnd (1 - r) / tb_refillRate tb) * 1000000000))
                      else WindowDuration rule),
        CurrentCount = n, DLimit = Limit rule, RuleName = name, TokensRemaining = left\<rparr>,
       tb\<lparr>buckets := (buckets tb)(key \<mapsto> \<lparr>tokens = left, lastRefill = now\<rparr>)\<rparr>))"
  by (simp add: TokenBucket_Evaluate_def getOrCreate_def bucket_at_def refill_def Let_def split: option.split)

lemma trunc_nonneg: "0 \<le> x \<Longrightarrow> 0 \<le> trunc x"
  by (simp add: trunc_def)

lemma sdiv_smod_nonneg: "(0 :: int) \<le> d \<Longrightarrow> 0 < m \<Longrightarrow> 0 \<le> d sdiv m \<and> 0 \<le> d smod m"
  by (simp add: signed_divide_int_def signed_modulo_int_def pos_imp_zdiv_nonneg_iff sgn_if
      zdiv_mono2 algebra_simps)

context float_rounding
begin

lemma rnd_0: "rnd 0 = 0"
  using rnd_int [of 0] by simp

lemma rnd_1: "rnd 1 = 1"
  using rnd_int [of 1] by simp

lemma rnd_nonneg: "0 \<le> x \<Longrightarrow> 0 \<le> rnd x"
  using rnd_mono [of 0 x] by (simp add: rnd_0)

lemma Seconds_nonneg: "0 \<le> d \<Longrightarrow> 0 \<le> Seconds rnd d"
  using sdiv_smod_nonneg [of d Second]
  by (auto simp: Seconds_def duration_defs intro!: rnd_nonneg add_nonneg_nonneg)

lemma bucket_at_wf:
  "bucket_wf rnd now tb \<Longrightarrow>
     0 \<le> tokens (bucket_at now key tb) \<and> tokens (bucket_at now key tb) \<le> tb_capacity tb \<and>
     lastRefill (bucket_at now key tb) \<le> now"
  by (auto simp: bucket_wf_def bucket_at_def split: option.split)

lemma refill_bounds:
  assumes "bucket_wf rnd now tb"
  shows "0 \<le> refill rnd now key tb" and "refill rnd now key tb \<le> tb_capacity tb"
proof -
  have "0 \<le> Seconds rnd (now - lastRefill (bucket_at now key tb)) * tb_refillRate tb"
    using assms bucket_at_wf [OF assms, of key] by (intro mult_nonneg_nonneg Seconds_nonneg) (auto simp: bucket_wf_def)
  then show "0 \<le> refill rnd now key tb"
    using assms bucket_at_wf [OF assms, of key]
    by (auto simp: refill_def bucket_wf_def intro!: rnd_nonneg add_nonneg_nonneg)
qed (simp add: refill_def)

lemma spend_bounds:
  assumes "rnd cap = cap" and "1 \<le> r" and "r \<le> cap"
  shows "0 \<le> rnd (r - 1) \<and> rnd (r - 1) \<le> cap"
  using assms rnd_mono [of "r - 1" cap] by (auto intro: rnd_nonneg)

lemma bucket_wf_Evaluate:
  assumes wf: "bucket_wf rnd now tb"
  shows "bucket_wf rnd now (snd (TokenBucket_Evaluate rnd now now key n rule name tb))"
    and "0 \<le> TokensRemaining (fst (TokenBucket_Evaluate rnd now now key n rule name tb))"
    and "TokensRemaining (fst (TokenBucket_Evaluate rnd now now key n rule name tb)) \<le> tb_capacity tb"
  using wf refill_bounds [OF wf, of key] spend_bounds [of "tb_capacity tb" "refill rnd now key tb"]
  by (auto simp: TokenBucket_Evaluate_eq Let_def bucket_wf_def split: if_splits)

lemma bucket_wf_mono: "bucket_wf rnd now tb \<Longrightarrow> now \<le> now' \<Longrightarrow> bucket_wf rnd now' tb"
  by (fastforce simp: bucket_wf_def)

lemma delay_nonneg:
  "bucket_wf rnd now tb \<Longrightarrow> 0 \<le> RetryAfter (fst (TokenBucket_Evaluate rnd now now key n rule name tb))"
  using WindowDuration_pos [of rule]
  by (auto simp: TokenBucket_Evaluate_eq Let_def bucket_wf_def
      intro!: trunc_nonneg rnd_nonneg mult_nonneg_nonneg divide_nonneg_pos)

end

fun limiter_wf :: "(real \<Rightarrow> real) \<Rightarrow> gotime \<Rightarrow> limiter \<Rightarrow> bool" where
  "limiter_wf rnd now SlidingWindow = True"
| "limiter_wf rnd now (TokenBucket tb) = bucket_wf rnd now tb"

sublocale float_rounding \<subseteq> lim: rate_limiter "Evaluate rnd" "limiter_wf rnd"
proof (unfold_locales, goal_cases)
  case (1 now key n rule name s)
  show ?case by (cases s) (auto simp: SlidingWindow_Evaluate_def TokenBucket_Evaluate_eq Let_def)
next
  case (2 now key n rule name s)
  show ?case by (cases s) (auto simp: SlidingWindow_Evaluate_def TokenBucket_Evaluate_eq Let_def)
next
  case (3 now key n rule name s)
  show ?case by (cases s) (auto simp: SlidingWindow_Evaluate_def TokenBucket_Evaluate_eq Let_def)
next
  case (4 now key n rule name s)
  then show ?case
    by (cases s) (auto simp: SlidingWindow_Evaluate_def TokenBucket_Evaluate_eq Let_def split: if_splits)
next
  case (5 now s key n rule name)
  show ?case
  proof (cases s)
    case SlidingWindow
    then show ?thesis using WindowDuration_pos [of rule] by (simp add: SlidingWindow_Evaluate_def Let_def)
  next
    case (TokenBucket tb)
    then show ?thesis using 5 delay_nonneg [of now tb key n rule name] by (simp add: case_prod_beta)
  qed
next
  case (6 now s now' key n rule name)
  show ?case
  proof (cases s)
    case (TokenBucket tb)
    with 6 bucket_wf_Evaluate(1) [of now tb key n rule name]
    have "bucket_wf rnd now' (snd (TokenBucket_Evaluate rnd now now key n rule name tb))"
      by (auto intro: bucket_wf_mono)
    with TokenBucket show ?thesis by (simp add: case_prod_beta)
  qed simp
qed

text \<open>Two instances of the rounding: exact arithmetic, and rounding down to a fixed grid.\<close>

interpretation exact: float_rounding "\<lambda>x. x"
  by unfold_locales auto

lemma scale_back: "(g :: real) \<noteq> 0 \<Longrightarrow> a / g * g = a"
  by simp

definition grid :: "real \<Rightarrow> real" where
  "grid x = of_int \<lfloor>x * 1048576\<rfloor> / 1048576"

interpretation grid: float_rounding grid
proof (unfold_locales, goal_cases)
  case (1 x y)
  have "\<lfloor>x * 1048576\<rfloor> \<le> \<lfloor>y * 1048576\<rfloor>"
    by (rule floor_mono [OF mult_right_mono [OF 1 zero_le_numeral]])
  then have "(of_int \<lfloor>x * 1048576\<rfloor> :: real) \<le> of_int \<lfloor>y * 1048576\<rfloor>" by (rule of_int_le_iff [THEN iffD2])
  then show ?case unfolding grid_def by (rule divide_right_mono [OF _ zero_le_numeral])
next
  case (2 x)
  have "of_int \<lfloor>x * 1048576\<rfloor> / 1048576 * 1048576 = (of_int \<lfloor>x * 1048576\<rfloor> :: real)"
    by (rule scale_back) (rule zero_neq_numeral [symmetric])
  then show ?case unfolding grid_def by (simp only: floor_of_int)
next
  case (3 i)
  have "\<lfloor>(of_int i :: real) * 1048576\<rfloor> = i * 1048576"
    by (metis floor_of_int of_int_mult of_int_numeral)
  then show ?case by (simp add: grid_def)
qed

section \<open>Properties of the token bucket\<close>

text \<open>
  Whatever the rounding, an evaluation of the token bucket keeps every bucket between zero and
  the capacity, with refill times not in the future, and reports a token count in that range.
\<close>

theorem token_bucket_bounded:
  assumes "float_rounding rnd" and "bucket_wf rnd now tb"
  shows "bucket_wf rnd now (snd (TokenBucket_Evaluate rnd now now key n rule name tb)) \<and>
    0 \<le> TokensRemaining (fst (TokenBucket_Evaluate rnd now now key n rule name tb)) \<and>
    TokensRemaining (fst (TokenBucket_Evaluate rnd now now key n rule name tb)) \<le> tb_capacity tb"
  using float_rounding.bucket_wf_Evaluate [OF assms] by blast

theorem token_bucket_bounded_witness:
  "bucket_wf (\<lambda>x. x) 7 (snd (TokenBucket_Evaluate (\<lambda>x. x) 7 7 ''k'' 1
     \<lparr>PathPrefix = ''/'', RuleHeaders = [], HeaderRedactions = [], Limit = 5, Per = ''minute''\<rparr> ''r''
     (NewTokenBucket 5 1)))"
  using token_bucket_bounded [of "\<lambda>x. x" 7 "NewTokenBucket 5 1" "''k''" 1
     "\<lparr>PathPrefix = ''/'', RuleHeaders = [], HeaderRedactions = [], Limit = 5, Per = ''minute''\<rparr>" "''r''"]
    exact.float_rounding_axioms
  by (simp add: bucket_wf_def NewTokenBucket_def)

text \<open>A sequence of requests of one entity: the blocking flag of each, in order.\<close>

fun tb_blocked ::
  "(real \<Rightarrow> real) \<Rightarrow> gotime list \<Rightarrow> string \<Rightarrow> accountingRule \<Rightarrow> tokenBucket \<Rightarrow> bool list" where
  "tb_blocked rnd [] key rule tb = []"
| "tb_blocked rnd (now # ts) key rule tb =
     (case TokenBucket_Evaluate rnd now now key 0 rule '''' tb of
        (d, tb') \<Rightarrow> Blocked d # tb_blocked rnd ts key rule tb')"

context float_rounding
begin

lemma refill_no_rate:
  assumes "tb_refillRate tb = 0" and "tb_capacity tb = of_nat c" and "m \<le> c" and "m \<le> 2 ^ 53"
    and "tokens (bucket_at now key tb) = of_nat m"
  shows "refill rnd now key tb = of_nat m"
  using assms rnd_int [of "int m"] by (simp add: refill_def rnd_0 min_def)

lemma tb_blocked_drain:
  assumes "tb_refillRate tb = 0" and "tb_capacity tb = of_nat c" and "m \<le> c" and "c \<le> 2 ^ 53"
    and "\<And>t. tokens (bucket_at t key tb) = of_nat m"
  shows "tb_blocked rnd ts key rule tb = map (\<lambda>i. m \<le> i) [0..<length ts]"
  using assms
proof (induction ts arbitrary: tb m)
  case Nil
  then show ?case by simp
next
  case (Cons t ts)
  have r: "refill rnd t key tb = of_nat m"
    using Cons.prems by (intro refill_no_rate) auto
  have left: "rnd (of_nat m - 1) = of_nat (m - 1)" if "1 \<le> m"
    using that Cons.prems(3,4) rnd_int [of "int (m - 1)"] by (simp add: of_nat_diff)
  let ?tb' = "snd (TokenBucket_Evaluate rnd t t key 0 rule '''' tb)"
  have tok: "tokens (bucket_at u key ?tb') = of_nat (m - 1)" for u
    using r left by (auto simp: TokenBucket_Evaluate_eq Let_def bucket_at_def not_le)
  have "tb_blocked rnd ts key rule ?tb' = map (\<lambda>i. m - 1 \<le> i) [0..<length ts]"
    by (rule Cons.IH) (use Cons.prems tok in \<open>auto simp: TokenBucket_Evaluate_eq Let_def\<close>)
  moreover have "Blocked (fst (TokenBucket_Evaluate rnd t t key 0 rule '''' tb)) \<longleftrightarrow> m \<le> 0"
    using r by (auto simp: TokenBucket_Evaluate_eq Let_def)
  ultimately show ?case
    by (simp add: case_prod_beta map_upt_Suc del: upt_Suc) (auto simp: le_diff_conv)
qed

end

text \<open>
  Without refill, a full bucket of integer capacity \<open>c\<close> admits exactly the first \<open>c\<close> requests of
  an entity and blocks every later one, whatever the rounding and the request times.
\<close>

theorem token_bucket_drain:
  assumes "float_rounding rnd" and "c \<le> 2 ^ 53"
  shows "tb_blocked rnd ts key rule (NewTokenBucket (of_nat c) 0) = map (\<lambda>i. c \<le> i) [0..<length ts]"
  by (rule float_rounding.tb_blocked_drain [OF assms(1)]) (use assms(2) in
      \<open>auto simp: NewTokenBucket_def bucket_at_def\<close>)

theorem token_bucket_drain_witness:
  "tb_blocked grid [10, 20, 30] ''k''
     \<lparr>PathPrefix = ''/'', RuleHeaders = [], HeaderRedactions = [], Limit = 2, Per = ''minute''\<rparr>
     (NewTokenBucket 2 0) = [False, False, True]"
  using token_bucket_drain [of grid 2 "[10, 20, 30]" "''k''"
      "\<lparr>PathPrefix = ''/'', RuleHeaders = [], HeaderRedactions = [], Limit = 2, Per = ''minute''\<rparr>"]
    grid.float_rounding_axioms
  by (simp add: upt_rec)

text \<open>In exact arithmetic \<open>Seconds\<close> is the duration over \<open>1e9\<close>.\<close>

lemma Seconds_exact: "Seconds (\<lambda>x. x) d = of_int d / 1000000000"
proof -
  have "d = (d sdiv Second) * Second + d smod Second"
    by (rule sdiv_mult_smod_eq [symmetric])
  then have "(of_int d :: real) = of_int (d sdiv Second) * 1000000000 + of_int (d smod Second)"
    by (metis Second_def of_int_add of_int_mult of_int_numeral)
  then show ?thesis by (simp add: Seconds_def field_simps)
qed





end
