(* ===== verification/Engine.thy ===== *)
theory Engine
  imports Flusher RateLimit
begin

text \<open>
  Package \<open>internal/accounting\<close>, file \<open>engine.go\<close>, and the wiring of \<open>internal/cmd/accounting.go\<close>: rules
  are matched by path, the request becomes an entity, and its hit is counted here (when this node
  owns the key) or buffered for the owner; a count over the limit blocks the entity and broadcasts
  the block.

  The record \<open>env\<close> gathers what the engine is connected to: the third-party operations, the
  serialiser, the transport and the broadcaster (\<open>QueueBlockEvent\<close> of the cluster delegate, a function
  from the event to the packets it sends). An operation that may not return normally has an \<open>option\<close>
  result: \<open>None\<close> is a nil dereference, or the rule search running forever.
\<close>

record accountingRuleWithName =
  rn_Rule :: accountingRule
  rn_Name :: string

record ('t, 'c, 'r, 'b, 'z, 'w) env =
  e_rx :: "('t, accountingRuleWithName) radix"
  e_ac :: "'c ac_ops"
  e_rg :: "'r ring"
  e_bl :: "'b bl_ops"
  e_xx :: "string \<Rightarrow> uint64"
  e_rnd :: "real \<Rightarrow> real"
  e_marshal :: "'z drlMessage \<Rightarrow> 'w list option"
  e_send :: "string \<Rightarrow> 'w list \<Rightarrow> bool"
  e_bcast :: "gotime \<Rightarrow> string \<Rightarrow> duration \<Rightarrow> entity option \<Rightarrow> 'w effect list"

record ('t, 'c, 'r, 'b) engine =
  en_rules :: 't
  en_accounting :: "('c, 'r) accountingCache"
  en_flusher :: "flusher option"
  en_tracked :: int64
  en_limiter :: limiter
  en_blocklist :: "'b blocklistCache"
  en_settings :: accountingSettings

section \<open>Rules\<close>

definition createPathRadixTree ::
  "('t, accountingRuleWithName) radix \<Rightarrow> (string \<times> accountingRule) list \<Rightarrow> 't" where
  "createPathRadixTree rx rules =
     fold (\<lambda>(name, rule) r. radix_Insert rx (PathPrefix rule) \<lparr>rn_Rule = rule, rn_Name = name\<rparr> r) rules (radix_New rx)"

definition NewEngine ::
  "('t, accountingRuleWithName) radix \<Rightarrow> (string \<times> accountingRule) list \<Rightarrow> accountingSettings \<Rightarrow>
   ('c, 'r) accountingCache \<Rightarrow> flusher option \<Rightarrow> limiter option \<Rightarrow> 'b blocklistCache \<Rightarrow> ('t, 'c, 'r, 'b) engine" where
  "NewEngine rx rules settings a f lmt b =
     \<lparr>en_rules = createPathRadixTree rx rules, en_accounting = a, en_flusher = f, en_tracked = 0,
      en_limiter = (case lmt of None \<Rightarrow> SlidingWindow | Some l \<Rightarrow> l), en_blocklist = b, en_settings = settings\<rparr>"

text \<open>\<open>newAccountingEngine\<close>: \<open>None\<close> is the error for an empty rule set.\<close>

definition newAccountingEngine ::
  "('t, 'c, 'r, 'b, 'z, 'w) env \<Rightarrow> config \<Rightarrow> string \<Rightarrow> ('b, 'c, 'r) manager \<Rightarrow> bool \<Rightarrow> ('t, 'c, 'r, 'b) engine option" where
  "newAccountingEngine v cfg localIP m hasSender =
     (if Rules cfg = [] then None
      else let senderID = e_xx v localIP;
               flusher = NewFlusher senderID (FlushInterval (Settings cfg)) (MaxBatchSize (Settings cfg)) hasSender;
               limiter = newRateLimiter (e_rnd v) (Settings cfg)
           in Some (NewEngine (e_rx v) (Rules cfg) (Settings cfg) (mg_Accounting m) (Some flusher) (Some limiter) (mg_Blocklist m)))"

definition isPathSegmentMatch :: "string \<Rightarrow> string \<Rightarrow> bool" where
  "isPathSegmentMatch path pfx =
     (if pfx = ''/'' \<or> pfx = '''' then True
      else if length path < length pfx \<or> take (length pfx) path \<noteq> pfx then False
      else if length path = length pfx then True
      else if last pfx = CHR ''/'' then True
      else path ! length pfx = CHR ''/'')"

text \<open>\<open>matchRuleV2\<close>: the loop over shorter and shorter candidates; the inner \<open>None\<close> is \<open>nil\<close>.\<close>

partial_function (option) matchLoop ::
  "('t, 'v) radix \<Rightarrow> 't \<Rightarrow> string \<Rightarrow> string \<Rightarrow> 'v option option" where
  "matchLoop rx tree path candidate =
     (case radix_LongestPrefix rx tree candidate of
        None \<Rightarrow> Some None
      | Some (k, rule) \<Rightarrow>
          if isPathSegmentMatch path k then Some (Some rule)
          else if k = [] then Some None
          else matchLoop rx tree path (butlast k))"

definition matchRuleV2 ::
  "('t, accountingRuleWithName) radix \<Rightarrow> 't \<Rightarrow> string \<Rightarrow> accountingRuleWithName option option" where
  "matchRuleV2 rx rules path = matchLoop rx rules path path"

section \<open>Entities\<close>

definition extractSourceIP :: "string \<Rightarrow> strmap \<Rightarrow> accountingSettings \<Rightarrow> string" where
  "extractSourceIP socketIP headers settings =
     (if \<not> UseXForwardedFor settings then socketIP
      else let xff = mstr headers ''x-forwarded-for''
           in if xff = '''' then socketIP
              else let parts = Split (CHR '','') xff;
                       idx = (if ToLower (UseXForwardedForDirection settings) = ''right''
                              then int (length parts) - 1 - UseXForwardedForIndex settings
                              else UseXForwardedForIndex settings)
                   in if idx < 0 \<or> int (length parts) \<le> idx then socketIP
                      else let ip = TrimSpace (parts ! nat idx)
                           in if ip \<noteq> '''' then ip else socketIP)"

definition filterHeaders :: "strmap \<Rightarrow> string list \<Rightarrow> strmap" where
  "filterHeaders headers keys =
     fold (\<lambda>k result. case map_of headers (ToLower k) of
                         Some v \<Rightarrow> mput (ToLower k) v result
                       | None \<Rightarrow> result) keys []"

definition buildEntity :: "accountingSettings \<Rightarrow> string \<Rightarrow> accountingRuleWithName \<Rightarrow> strmap \<Rightarrow> entity" where
  "buildEntity settings sourceIP rule headers =
     \<lparr>IP = extractSourceIP sourceIP headers settings, Path = PathPrefix (rn_Rule rule),
      Headers = filterHeaders headers (RuleHeaders (rn_Rule rule))\<rparr>"

definition BuildEntityKey ::
  "('t, 'c, 'r, 'b, 'z, 'w) env \<Rightarrow> string \<Rightarrow> string \<Rightarrow> strmap \<Rightarrow> ('t, 'c, 'r, 'b) engine \<Rightarrow> string option" where
  "BuildEntityKey v sourceIP path headers e =
     (case matchRuleV2 (e_rx v) (en_rules e) path of
        None \<Rightarrow> None
      | Some None \<Rightarrow> Some ''''
      | Some (Some rule) \<Rightarrow> Some (Key (e_xx v) (buildEntity (en_settings e) sourceIP rule headers)))"

definition resolveEntity ::
  "('t, 'c, 'r, 'b, 'z, 'w) env \<Rightarrow> string \<Rightarrow> string \<Rightarrow> strmap \<Rightarrow> ('t, 'c, 'r, 'b) engine \<Rightarrow>
   (accountingRuleWithName \<times> entity \<times> uint64 \<times> string) option option" where
  "resolveEntity v sourceIP path headers e =
     (case matchRuleV2 (e_rx v) (en_rules e) path of
        None \<Rightarrow> None
      | Some None \<Rightarrow> Some None
      | Some (Some rule) \<Rightarrow>
          let entity = buildEntity (en_settings e) sourceIP rule headers;
              entityHash = Hash (e_xx v) entity;
              key = HashToEntityKey entityHash
          in Some (Some (rule, entity, entityHash, key)))"

section \<open>Processing a request\<close>

definition limiter_metrics :: "string \<Rightarrow> decision \<Rightarrow> 'w effect list" where
  "limiter_metrics name d =
     (if 0 \<le> TokensRemaining d
      then [if Blocked d then Metric (IncRateLimitBucketExhausted name) else Metric (IncRateLimitTokensConsumed name),
            Metric (SetRateLimitTokensCurrent name (TokensRemaining d))]
      else [])"

definition Process ::
  "('t, 'c, 'r, 'b, 'z, 'w) env \<Rightarrow> gotime \<Rightarrow> string \<Rightarrow> string \<Rightarrow> strmap \<Rightarrow> ('t, 'c, 'r, 'b) engine \<Rightarrow>
   (('t, 'c, 'r, 'b) engine \<times> 'w effect list) option" where
  "Process v now sourceIP path headers e =
     (case resolveEntity v sourceIP path headers e of
        None \<Rightarrow> None
      | Some None \<Rightarrow> Some (e, [])
      | Some (Some (rule, entity, entityHash, key)) \<Rightarrow>
          let e1 = e\<lparr>en_tracked := en_tracked e + 1\<rparr>;
              ownerAddr = GetOwner (e_rg v) key (en_accounting e1)
          in if IsOwner (e_rg v) key (en_accounting e1)
             then let (newCount, a) = Increment (e_ac v) now key 1 (en_accounting e1);
                      (decision, lmt) = Evaluate (e_rnd v) now key newCount (rn_Rule rule) (rn_Name rule) (en_limiter e1);
                      e2 = e1\<lparr>en_accounting := a, en_limiter := lmt\<rparr>;
                      (e3, out) =
                        (if Blocked decision
                         then (e2\<lparr>en_blocklist := Block (e_bl v) now key (RetryAfter decision) (Some entity) (en_blocklist e2)\<rparr>,
                               e_bcast v now key (RetryAfter decision) (Some entity) @
                               [Metric (IncRateLimitBlock (rn_Name rule) ''threshold_exceeded'')])
                         else (e2, []))
                  in Some (e3, Metric IncAccountingLocal # out @ limiter_metrics (rn_Name rule) decision)
             else case en_flusher e1 of
                    None \<Rightarrow> None
                  | Some f \<Rightarrow>
                      (case Enqueue (e_marshal v) (e_send v) now ownerAddr entityHash 1 (en_accounting e1) f of
                         ((f', out), a) \<Rightarrow>
                           Some (e1\<lparr>en_flusher := Some f', en_accounting := a\<rparr>, out @ [Metric IncAccountingRemote])))"

datatype bulkResult = BulkLoadNoMatch | BulkLoadAcceptedLocal | BulkLoadAcceptedRemote | BulkLoadDropped

fun bulkLabel :: "bulkResult \<Rightarrow> string" where
  "bulkLabel BulkLoadNoMatch = ''no_match''"
| "bulkLabel BulkLoadAcceptedLocal = ''accepted_local''"
| "bulkLabel BulkLoadAcceptedRemote = ''accepted_remote''"
| "bulkLabel BulkLoadDropped = ''dropped''"

definition BulkLoad ::
  "('t, 'c, 'r, 'b, 'z, 'w) env \<Rightarrow> gotime \<Rightarrow> string \<Rightarrow> string \<Rightarrow> strmap \<Rightarrow> bool \<Rightarrow> ('t, 'c, 'r, 'b) engine \<Rightarrow>
   (bulkResult \<times> ('t, 'c, 'r, 'b) engine \<times> 'w effect list) option" where
  "BulkLoad v now sourceIP path headers distributionEnabled e =
     (case resolveEntity v sourceIP path headers e of
        None \<Rightarrow> None
      | Some None \<Rightarrow> Some (BulkLoadNoMatch, e, [Metric (IncAccountingBulkLoad (bulkLabel BulkLoadNoMatch))])
      | Some (Some (rule, entity, entityHash, key)) \<Rightarrow>
          let e1 = e\<lparr>en_tracked := en_tracked e + 1\<rparr>;
              ownerAddr = GetOwner (e_rg v) key (en_accounting e1)
          in if IsOwner (e_rg v) key (en_accounting e1)
             then Some (BulkLoadAcceptedLocal,
                        e1\<lparr>en_accounting := snd (Increment (e_ac v) now key 1 (en_accounting e1))\<rparr>,
                        [Metric IncAccountingLocal, Metric (IncAccountingBulkLoad (bulkLabel BulkLoadAcceptedLocal))])
             else if \<not> distributionEnabled
             then Some (BulkLoadDropped, e1, [Metric (IncAccountingBulkLoad (bulkLabel BulkLoadDropped))])
             else case en_flusher e1 of
                    None \<Rightarrow> Some (BulkLoadDropped, e1, [Metric (IncAccountingBulkLoad (bulkLabel BulkLoadDropped))])
                  | Some f \<Rightarrow>
                      (case Enqueue (e_marshal v) (e_send v) now ownerAddr entityHash 1 (en_accounting e1) f of
                         ((f', out), a) \<Rightarrow>
                           Some (BulkLoadAcceptedRemote, e1\<lparr>en_flusher := Some f', en_accounting := a\<rparr>,
                                 out @ [Metric IncAccountingRemote,
                                        Metric (IncAccountingBulkLoad (bulkLabel BulkLoadAcceptedRemote))])))"

definition PendingUpdates :: "('t, 'c, 'r, 'b) engine \<Rightarrow> int option" where
  "PendingUpdates e = map_option PendingCount (en_flusher e)"

definition TrackedEntities :: "('t, 'c, 'r, 'b) engine \<Rightarrow> int64" where
  "TrackedEntities e = en_tracked e"

definition EstimatedEntities :: "('t, 'c, 'r, 'b, 'z, 'w) env \<Rightarrow> ('t, 'c, 'r, 'b) engine \<Rightarrow> nat" where
  "EstimatedEntities v e = GetEstimatedEntities (e_ac v) (en_accounting e)"

section \<open>The longest path-segment rule is found\<close>

text \<open>\<open>path\<close> is \<open>p\<close> itself or lies below it in the path hierarchy.\<close>

definition path_under :: "string \<Rightarrow> string \<Rightarrow> bool" where
  "path_under path p \<longleftrightarrow> prefix p path \<and>
     (p = path \<or> p = '''' \<or> last p = CHR ''/'' \<or> path ! length p = CHR ''/'')"

lemma isPathSegmentMatch_iff: "prefix p path \<Longrightarrow> isPathSegmentMatch path p \<longleftrightarrow> path_under path p"
  by (auto simp: isPathSegmentMatch_def path_under_def prefix_def)

lemma path_under_butlast:
  "prefix k path \<Longrightarrow> k \<noteq> [] \<Longrightarrow> prefix p k \<Longrightarrow> p \<noteq> k \<Longrightarrow> prefix p (butlast k)"
  by (metis append_butlast_last_id prefix_snoc)

text \<open>What the loop of \<open>matchRuleV2\<close> looks for below the candidate prefix \<open>c\<close>: the rule with the longest prefix of the path.\<close>

definition longestUnder :: "(string \<Rightarrow> 'v option) \<Rightarrow> string \<Rightarrow> string \<Rightarrow> 'v option \<Rightarrow> bool" where
  "longestUnder rules path c res \<longleftrightarrow>
     (case res of
        None \<Rightarrow> \<forall>p. prefix p c \<and> path_under path p \<longrightarrow> rules p = None
      | Some r \<Rightarrow> \<exists>p. prefix p c \<and> path_under path p \<and> rules p = Some r \<and>
          (\<forall>q. prefix q c \<and> path_under path q \<and> rules q \<noteq> None \<longrightarrow> length q \<le> length p))"

lemma longestUnder_extend:
  assumes res: "longestUnder rules path c' res" and up: "\<And>p. prefix p c' \<Longrightarrow> prefix p c"
    and below: "\<And>p. prefix p c \<Longrightarrow> path_under path p \<Longrightarrow> rules p \<noteq> None \<Longrightarrow> prefix p c'"
  shows "longestUnder rules path c res"
proof (cases res)
  case None
  with res below show ?thesis unfolding longestUnder_def by force
next
  case (Some r)
  with res obtain p where "prefix p c'" "path_under path p" "rules p = Some r"
    "\<forall>q. prefix q c' \<and> path_under path q \<and> rules q \<noteq> None \<longrightarrow> length q \<le> length p" by (auto simp: longestUnder_def)
  then have "prefix p c \<and> path_under path p \<and> rules p = Some r \<and>
      (\<forall>q. prefix q c \<and> path_under path q \<and> rules q \<noteq> None \<longrightarrow> length q \<le> length p)" using up below by blast
  with Some show ?thesis unfolding longestUnder_def by auto
qed

context radix_tree
begin

lemma matchLoop_eq:
  "prefix c path \<Longrightarrow> \<exists>res. matchLoop rx tree path c = Some res \<and> longestUnder (contents tree) path c res"
proof (induction "length c" arbitrary: c rule: less_induct)
  case less
  show ?case
  proof (cases "radix_LongestPrefix rx tree c")
    case None
    then have "\<forall>p. prefix p c \<longrightarrow> contents tree p = None" using longest_None by blast
    with None show ?thesis by (subst matchLoop.simps) (auto simp: longestUnder_def)
  next
    case (Some kr)
    obtain k r where kr: "kr = (k, r)" by (cases kr)
    note lp = longest_Some [OF Some [unfolded kr]]
    have kp: "prefix k path" using lp less.prems prefix_order.trans by blast
    show ?thesis
    proof (cases "path_under path k")
      case True
      with kp have "isPathSegmentMatch path k" by (simp add: isPathSegmentMatch_iff)
      with True Some kr lp show ?thesis by (subst matchLoop.simps) (auto simp: longestUnder_def)
    next
      case False
      then have k: "k \<noteq> []" by (auto simp: path_under_def)
      have step: "matchLoop rx tree path c = matchLoop rx tree path (butlast k)"
        using False k kp Some kr by (subst matchLoop.simps) (simp add: isPathSegmentMatch_iff)
      have below: "prefix p (butlast k)" if "prefix p c" "path_under path p" "contents tree p \<noteq> None" for p
      proof -
        have "length p \<le> length k" using lp that by blast
        then have "prefix p k" using lp that(1) prefix_length_prefix by blast
        then show ?thesis using False k that(2) kp by (intro path_under_butlast) auto
      qed
      have up: "prefix p c" if "prefix p (butlast k)" for p using that lp by (meson prefix_order.trans prefixeq_butlast)
      have "length (butlast k) < length c" using k lp prefix_length_le [of k c] by (cases k) auto
      moreover have "prefix (butlast k) path" using kp by (meson prefix_order.trans prefixeq_butlast)
      ultimately obtain res where "matchLoop rx tree path (butlast k) = Some res" "longestUnder (contents tree) path (butlast k) res"
        using less.hyps by blast
      with longestUnder_extend [OF _ up below] show ?thesis unfolding step by blast
    qed
  qed
qed

lemma contents_create:
  "contents (fold (\<lambda>(name, rule) r. radix_Insert rx (f rule) (g name rule) r) rules t) =
     contents t ++ map_of (rev (map (\<lambda>(name, rule). (f rule, g name rule)) rules))"
  by (induction rules arbitrary: t) (auto simp: insert map_add_upd_left)

end

lemma contents_rules:
  assumes "radix_tree rx contents" and "distinct (map (\<lambda>(_, r). PathPrefix r) rules)"
  shows "contents (createPathRadixTree rx rules) p = Some w \<longleftrightarrow>
    (rn_Name w, rn_Rule w) \<in> set rules \<and> PathPrefix (rn_Rule w) = p"
proof -
  let ?kvs = "map (\<lambda>(name, rule). (PathPrefix rule, \<lparr>rn_Rule = rule, rn_Name = name\<rparr>)) rules"
  have "contents (createPathRadixTree rx rules) = map_of (rev ?kvs)"
    unfolding createPathRadixTree_def radix_tree.contents_create [OF assms(1)]
    using radix_tree.new [OF assms(1)] by (auto simp: fun_eq_iff map_add_def split: option.split)
  moreover have "distinct (map fst (rev ?kvs))"
    using assms(2) by (simp add: rev_map [symmetric] comp_def case_prod_unfold)
  ultimately have "contents (createPathRadixTree rx rules) p = Some w \<longleftrightarrow> (p, w) \<in> set (rev ?kvs)" by simp
  also have "\<dots> \<longleftrightarrow> (rn_Name w, rn_Rule w) \<in> set rules \<and> PathPrefix (rn_Rule w) = p"
    by (cases w) (force simp: image_iff)
  finally show ?thesis .
qed

lemma matchRule_returns:
  assumes "radix_tree rx contents"
  shows "matchRuleV2 rx tree path \<noteq> None"
  using radix_tree.matchLoop_eq [OF assms, of path path tree] by (auto simp: matchRuleV2_def)

text \<open>
  C12. Rule matching terminates and finds the most specific rule: with distinct path prefixes,
  \<open>matchRuleV2\<close> returns the rule with the longest prefix under which the request path lies, counting
  whole path segments only, and \<open>nil\<close> exactly when there is none.
\<close>

theorem match_rule_longest:
  assumes rx: "radix_tree rx contents" and dis: "distinct (map (\<lambda>(_, r). PathPrefix r) rules)"
  shows "\<exists>res. matchRuleV2 rx (createPathRadixTree rx rules) path = Some res \<and>
    (case res of
       None \<Rightarrow> \<forall>(name, r) \<in> set rules. \<not> path_under path (PathPrefix r)
     | Some w \<Rightarrow> (rn_Name w, rn_Rule w) \<in> set rules \<and> path_under path (PathPrefix (rn_Rule w)) \<and>
         (\<forall>(name, r) \<in> set rules. path_under path (PathPrefix r) \<longrightarrow>
            (name, r) = (rn_Name w, rn_Rule w) \<or> length (PathPrefix r) < length (PathPrefix (rn_Rule w))))"
proof -
  let ?t = "createPathRadixTree rx rules"
  note cr = contents_rules [OF rx dis]
  have mem: "contents ?t (PathPrefix r) = Some \<lparr>rn_Rule = r, rn_Name = name\<rparr>" if "(name, r) \<in> set rules" for name r
    using that by (simp add: cr)
  obtain res where m: "matchRuleV2 rx ?t path = Some res" and res: "longestUnder (contents ?t) path path res"
    using radix_tree.matchLoop_eq [OF rx, of path path ?t] by (auto simp: matchRuleV2_def)
  show ?thesis
  proof (cases res)
    case None
    have "\<not> path_under path (PathPrefix r)" if "(name, r) \<in> set rules" for name r
      using res None mem [OF that] by (auto simp: longestUnder_def path_under_def)
    with m None show ?thesis by auto
  next
    case (Some w)
    with res obtain p where p: "path_under path p" "contents ?t p = Some w"
      "\<And>q. path_under path q \<Longrightarrow> contents ?t q \<noteq> None \<Longrightarrow> length q \<le> length p"
      by (auto simp: longestUnder_def path_under_def)
    have w: "(rn_Name w, rn_Rule w) \<in> set rules" "PathPrefix (rn_Rule w) = p" using p(2) by (simp_all add: cr)
    have "(name, r) = (rn_Name w, rn_Rule w) \<or> length (PathPrefix r) < length p"
      if "(name, r) \<in> set rules" "path_under path (PathPrefix r)" for name r
    proof (cases "length (PathPrefix r) = length p")
      case True
      then have "PathPrefix r = p" using that(2) p(1) by (metis path_under_def prefix_length_prefix prefix_order.antisym order_refl)
      with mem [OF that(1)] p(2) show ?thesis by auto
    qed (use p(3) [OF that(2)] mem [OF that(1)] in auto)
    with m Some w p(1) show ?thesis by auto
  qed
qed

theorem match_rule_longest_witness:
  "\<exists>w. matchRuleV2 list_radix (createPathRadixTree list_radix
       [(''all'', demo_rule\<lparr>PathPrefix := ''/''\<rparr>), (''any'', demo_rule\<lparr>PathPrefix := ''/any''\<rparr>)]) ''/anyone'' = Some (Some w)
     \<and> rn_Name w = ''all''"
proof -
  let ?rules = "[(''all'', demo_rule\<lparr>PathPrefix := ''/''\<rparr>), (''any'', demo_rule\<lparr>PathPrefix := ''/any''\<rparr>)]"
  have "distinct (map (\<lambda>(_, r). PathPrefix r) ?rules)" by simp
  moreover have "path_under ''/anyone'' ''/''" and "\<not> path_under ''/anyone'' ''/any''" by (simp_all add: path_under_def)
  moreover note match_rule_longest [OF lradix.radix_tree_axioms calculation(1), of "''/anyone''"]
  ultimately show ?thesis by (auto split: option.splits)
qed

section \<open>Processing on the owner\<close>

lemma resolve_BuildEntityKey:
  "BuildEntityKey v ip path hs e =
     map_option (\<lambda>r. case r of None \<Rightarrow> '''' | Some (_, _, _, k) \<Rightarrow> k) (resolveEntity v ip path hs e)"
  by (simp add: BuildEntityKey_def resolveEntity_def Key_def Let_def split: option.split)

lemma resolve_key:
  "resolveEntity v ip path hs e = Some (Some (rule, ent, h, k)) \<Longrightarrow>
     k = Key (e_xx v) ent \<and> k = HashToEntityKey h \<and> Path ent = PathPrefix (rn_Rule rule)"
  by (auto simp: resolveEntity_def Key_def Let_def buildEntity_def split: option.splits)

lemma Process_no_rule: "resolveEntity v ip path hs e = Some None \<Longrightarrow> Process v now ip path hs e = Some (e, [])"
  by (simp add: Process_def)

text \<open>The state after \<open>Process\<close> on the owner, for any limiter.\<close>

lemma Process_owner_eq:
  assumes "resolveEntity v ip path hs e = Some (Some (rule, ent, h, k))" and "IsOwner (e_rg v) k (en_accounting e)"
    and inc: "Increment (e_ac v) now k 1 (en_accounting e) = (n, a)"
    and ev: "Evaluate (e_rnd v) now k n (rn_Rule rule) (rn_Name rule) (en_limiter e) = (d, lm)"
  shows "Process v now ip path hs e =
    Some (e\<lparr>en_tracked := en_tracked e + 1, en_accounting := a, en_limiter := lm,
            en_blocklist := (if Blocked d then Block (e_bl v) now k (RetryAfter d) (Some ent) (en_blocklist e) else en_blocklist e)\<rparr>,
          Metric IncAccountingLocal #
          (if Blocked d then e_bcast v now k (RetryAfter d) (Some ent) @
             [Metric (IncRateLimitBlock (rn_Name rule) ''threshold_exceeded'')] else []) @
          limiter_metrics (rn_Name rule) d)"
  using assms by (simp add: Process_def Let_def)

lemma SlidingWindow_blocked:
  "Blocked (SlidingWindow_Evaluate k n r name) \<longleftrightarrow> sint (Limit r) < sint n"
  "Blocked (SlidingWindow_Evaluate k n r name) \<Longrightarrow> RetryAfter (SlidingWindow_Evaluate k n r name) = WindowDuration r"
  by (simp_all add: SlidingWindow_Evaluate_def Let_def split: if_splits)

locale engine_env =
  rx: radix_tree "e_rx v" contents + ac: accounting_cache "e_ac v" storedA roomA "e_rg v" +
  bl: blocklist_cache "e_bl v" storedB roomB
  for v :: "('t, 'c, 'r, 'b, 'z, 'w) env" and contents storedA roomA storedB roomB
begin

lemma resolve_returns: "resolveEntity v ip path hs e \<noteq> None"
  using matchRule_returns [OF rx.radix_tree_axioms, of "en_rules e" path]
  by (auto simp: resolveEntity_def Let_def split: option.splits)

lemma Process_sliding:
  fixes e :: "('t, 'c, 'r, 'b) engine" and k now
  assumes res: "resolveEntity v ip path hs e = Some (Some (rule, ent, h, k))"
    and own: "IsOwner (e_rg v) k (en_accounting e)" and sw: "en_limiter e = SlidingWindow"
    and wf: "ac_wf storedA (en_accounting e)" and roomA: "roomA (Suc n1) (ac_cache (en_accounting e))"
  defines "n \<equiv> fst (Get (e_ac v) now k (en_accounting e)) + 1"
  shows "\<exists>e' out. Process v now ip path hs e = Some (e', out) \<and>
    en_accounting e' = snd (Increment (e_ac v) now k 1 (en_accounting e)) \<and> en_limiter e' = SlidingWindow \<and>
    en_rules e' = en_rules e \<and> en_settings e' = en_settings e \<and>
    eq_from now (counter storedA (en_accounting e')) (tick (ac_windowSize (en_accounting e)) now k 1 (counter storedA (en_accounting e))) \<and>
    (if sint (Limit (rn_Rule rule)) < sint n
     then en_blocklist e' = Block (e_bl v) now k (WindowDuration (rn_Rule rule)) (Some ent) (en_blocklist e) \<and>
       set (e_bcast v now k (WindowDuration (rn_Rule rule)) (Some ent)) \<subseteq> set out
     else en_blocklist e' = en_blocklist e \<and> out = [Metric IncAccountingLocal])"
proof -
  obtain n' a where inc: "Increment (e_ac v) now k 1 (en_accounting e) = (n', a)" by fastforce
  then have n': "n' = n" and a: "a = snd (Increment (e_ac v) now k 1 (en_accounting e))"
    using ac.Increment_value [of now k 1 "en_accounting e"] by (simp_all add: n_def ac.Get_reading)
  let ?d = "SlidingWindow_Evaluate k n (rn_Rule rule) (rn_Name rule)"
  have ev: "Evaluate (e_rnd v) now k n' (rn_Rule rule) (rn_Name rule) (en_limiter e) = (?d, SlidingWindow)"
    by (simp add: sw n')
  have lm: "limiter_metrics (rn_Name rule) ?d = []"
    by (simp add: limiter_metrics_def SlidingWindow_Evaluate_def Let_def)
  show ?thesis
    unfolding Process_owner_eq [OF res own inc ev] lm
    using ac.Increment_tick [OF wf roomA, of now k 1] a SlidingWindow_blocked [of k n "rn_Rule rule" "rn_Name rule"]
    by auto
qed

end


text \<open>A single node with one rule, for the witnesses.\<close>

definition demo_env ::
  "((string \<times> accountingRuleWithName) list, nat ttl_map, string list, blocklistEntryData ttl_map, unit, unit drlMessage) env" where
  "demo_env =
     \<lparr>e_rx = list_radix, e_ac = ttl_ops, e_rg = list_ring, e_bl = ttl_ops, e_xx = (\<lambda>_. 7), e_rnd = (\<lambda>x. x),
      e_marshal = cell_enc, e_send = (\<lambda>_ _. True),
      e_bcast = (\<lambda>now k ttl e. [ChannelSend ''n2'' (Ch_BlockWithExpiresAt
         \<lparr>ex_Key = k, ex_ExpiresAtNanos = now + ttl, ex_EntityIp = '''', ex_EntityPath = '''', ex_EntityHdrs = []\<rparr>)])\<rparr>"

definition demo_settings :: accountingSettings where
  "demo_settings = settings_defaults (Settings NewConfig)"

definition demo_engine ::
  "int64 \<Rightarrow> (nat ttl_map, string list) accountingCache \<Rightarrow>
   ((string \<times> accountingRuleWithName) list, nat ttl_map, string list, blocklistEntryData ttl_map) engine" where
  "demo_engine limit a =
     NewEngine list_radix [(''api'', demo_rule\<lparr>Limit := limit\<rparr>)] demo_settings a (Some (NewFlusher 1 0 0 True)) None emptyBlocklist"

interpretation demo: engine_env demo_env map_of ttl_stored ttl_room ttl_stored ttl_room
  unfolding demo_env_def
  by (simp add: engine_env_def lradix.radix_tree_axioms acttl.accounting_cache_axioms blttl.blocklist_cache_axioms)

lemma demo_engine_fields [simp]:
  "en_accounting (demo_engine l a) = a" "en_limiter (demo_engine l a) = SlidingWindow"
  "en_blocklist (demo_engine l a) = emptyBlocklist" "en_flusher (demo_engine l a) = Some (NewFlusher 1 0 0 True)"
  by (simp_all add: demo_engine_def NewEngine_def)

lemma demo_resolve:
  "resolveEntity demo_env ''10.0.0.1'' ''/api/users'' [] (demo_engine l a) =
     Some (Some (\<lparr>rn_Rule = demo_rule\<lparr>Limit := l\<rparr>, rn_Name = ''api''\<rparr>,
       \<lparr>IP = ''10.0.0.1'', Path = ''/api'', Headers = []\<rparr>, 7, k7))"
proof -
  have "longest_from [(''/api'', w)] ''/api/users'' 10 = Some (''/api'', w)" for w :: accountingRuleWithName
    by (simp add: numeral_eq_Suc)
  then have "matchRuleV2 list_radix [(''/api'', w)] ''/api/users'' = Some (Some w)" for w
    unfolding matchRuleV2_def by (subst matchLoop.simps) (simp add: list_radix_def isPathSegmentMatch_def)
  moreover have "en_rules (demo_engine l a) = [(''/api'', \<lparr>rn_Rule = demo_rule\<lparr>Limit := l\<rparr>, rn_Name = ''api''\<rparr>)]"
    by (simp add: demo_engine_def NewEngine_def createPathRadixTree_def list_radix_def demo_rule_def)
  moreover have "en_settings (demo_engine l a) = demo_settings" by (simp add: demo_engine_def NewEngine_def)
  moreover have "UseXForwardedFor demo_settings = False"
    by (simp add: demo_settings_def settings_defaults_def NewConfig_def)
  ultimately show ?thesis
    by (simp add: resolveEntity_def demo_env_def k7_def buildEntity_def extractSourceIP_def filterHeaders_def Hash_def)
       (simp add: demo_rule_def)
qed

lemma demo_env_fields [simp]:
  "e_rg demo_env = list_ring" "e_ac demo_env = ttl_ops" "e_bl demo_env = ttl_ops" "e_marshal demo_env = cell_enc"
  by (simp_all add: demo_env_def)

lemma demo_owner: "IsOwner list_ring k (emptyAccounting ''n1'' [''n1''])"
  by (simp add: IsOwner_def getOwnerLockedForKey_def emptyAccounting_def list_ring_def Let_def)


section \<open>Processing for another owner\<close>

text \<open>
  On any other node \<open>Process\<close> only buffers: local counters, limiter and blocklist stay as they are,
  and the owner's hits (buffered, waiting or handed to the transport) grow by exactly one.
\<close>

theorem process_remote:
  assumes co: "message_codec (e_marshal v) unmarshal"
    and res: "resolveEntity v ip path hs e = Some (Some (rule, ent, h, k))"
    and own: "\<not> IsOwner (e_rg v) k (en_accounting e)" and f: "en_flusher e = Some f"
    and wf: "flusher_wf f" "fl_hasSender f" "transferable_wf (en_accounting e)"
  shows "\<exists>e' out f'. Process v now ip path hs e = Some (e', out) \<and> en_flusher e' = Some f' \<and>
    (\<forall>k'. fst (Get (e_ac v) now k' (en_accounting e')) = fst (Get (e_ac v) now k' (en_accounting e))) \<and>
    en_blocklist e' = en_blocklist e \<and> en_limiter e' = en_limiter e \<and>
    (\<forall>x k'. handed unmarshal x k' out + pending x k' f' + waiting x k' (en_accounting e') =
       pending x k' f + waiting x k' (en_accounting e) +
       (if x = GetOwner (e_rg v) k (en_accounting e) \<and> k' = h then 1 else 0))"
proof -
  let ?o = "GetOwner (e_rg v) k (en_accounting e)"
  obtain f' out a where e: "Enqueue (e_marshal v) (e_send v) now ?o h 1 (en_accounting e) f = ((f', out), a)"
    by (metis prod.exhaust)
  have p: "Process v now ip path hs e =
      Some (e\<lparr>en_tracked := en_tracked e + 1, en_flusher := Some f', en_accounting := a\<rparr>, out @ [Metric IncAccountingRemote])"
    using res own f e by (simp add: Process_def Let_def)
  have "a = snd (ConsumeTransferable ?o (en_accounting e))" using e by (auto simp: Enqueue_def ConsumeTransferable_def Let_def)
  then have g: "fst (Get (e_ac v) now k' a) = fst (Get (e_ac v) now k' (en_accounting e))" for k'
    by (simp add: Get_def ConsumeTransferable_def split: option.split)
  let ?e' = "e\<lparr>en_tracked := en_tracked e + 1, en_flusher := Some f', en_accounting := a\<rparr>"
  show ?thesis
    using p g message_codec.Enqueue_conserves(1) [OF co wf e]
    by (intro exI [of _ ?e'] exI [of _ "out @ [Metric IncAccountingRemote]"] exI [of _ f']) (simp add: handed_def)
qed

lemma demo_not_owner: "\<not> IsOwner list_ring k7 (emptyAccounting ''n1'' [''n1'', ''n2''])"
  by (simp add: IsOwner_def getOwnerLockedForKey_def emptyAccounting_def list_ring_eval)

theorem process_remote_witness:
  "\<exists>e' out. Process demo_env 5 ''10.0.0.1'' ''/api/users'' [] (demo_engine 10 (emptyAccounting ''n1'' [''n1'', ''n2''])) = Some (e', out) \<and>
     en_blocklist e' = emptyBlocklist"
proof -
  let ?a = "emptyAccounting ''n1'' [''n1'', ''n2'']"
  have "flusher_wf (NewFlusher 1 0 0 True)" "fl_hasSender (NewFlusher 1 0 0 True)" "transferable_wf ?a"
    by (simp_all add: flusher_wf_def NewFlusher_def transferable_wf_def emptyAccounting_def)
  moreover have co: "message_codec (e_marshal demo_env) cell_dec" using mcell.message_codec_axioms by simp
  ultimately show ?thesis
    using process_remote [OF co demo_resolve, of 10 ?a "NewFlusher 1 0 0 True" 5] demo_not_owner by auto
qed

section \<open>Bulk loading\<close>

text \<open>
  \<open>BulkLoad\<close> never blocks: whatever it does with a record, the blocklist and the limiter are left
  alone and no block event leaves the node; on an accepted record the counters and buffers move
  exactly as \<open>Process\<close> moves them.
\<close>

theorem bulk_load_never_blocks:
  assumes "BulkLoad v now ip path hs distribute e = Some (r, e', out)"
  shows "en_blocklist e' = en_blocklist e \<and> en_limiter e' = en_limiter e \<and>
    list_all (\<lambda>x. case x of Metric _ \<Rightarrow> True | SendBestEffort _ _ \<Rightarrow> True | _ \<Rightarrow> False) out \<and>
    (r \<in> {BulkLoadAcceptedLocal, BulkLoadAcceptedRemote} \<longrightarrow>
       (\<exists>p pout. Process v now ip path hs e = Some (p, pout) \<and> en_accounting p = en_accounting e' \<and>
          en_flusher p = en_flusher e' \<and> en_tracked p = en_tracked e'))"
proof -
  show ?thesis
  proof (cases "resolveEntity v ip path hs e")
    case (Some o1)
    show ?thesis
    proof (cases o1)
      case None
      with Some assms show ?thesis by (auto simp: BulkLoad_def)
    next
      case (Some x)
      obtain rule ent h k where x: "x = (rule, ent, h, k)" by (metis prod.exhaust)
      note res = \<open>resolveEntity v ip path hs e = Some o1\<close> [unfolded \<open>o1 = Some x\<close> x]
      show ?thesis
      proof (cases "IsOwner (e_rg v) k (en_accounting e)")
        case True
        obtain n a where "Increment (e_ac v) now k 1 (en_accounting e) = (n, a)" by fastforce
        with res True assms show ?thesis
          by (auto simp: BulkLoad_def Process_def Let_def split: prod.split)
      next
        case not_own: False
        show ?thesis
        proof (cases "en_flusher e")
          case None
          with res assms not_own show ?thesis by (auto simp: BulkLoad_def Let_def split: if_splits)
        next
          case (Some f)
          obtain f' o2 a where q: "Enqueue (e_marshal v) (e_send v) now (GetOwner (e_rg v) k (en_accounting e)) h 1
              (en_accounting e) f = ((f', o2), a)" by (metis prod.exhaust)
          with Enqueue_effects [of "e_marshal v" "e_send v" now "GetOwner (e_rg v) k (en_accounting e)" h 1 "en_accounting e" f]
          have "list_all (\<lambda>x. case x of Metric _ \<Rightarrow> True | SendBestEffort _ _ \<Rightarrow> True | _ \<Rightarrow> False) o2" by simp
          with q res assms not_own Some show ?thesis
            by (auto simp: BulkLoad_def Process_def Let_def split: if_splits)
        qed
      qed
    qed
  qed (use assms in \<open>simp add: BulkLoad_def\<close>)
qed

theorem bulk_load_never_blocks_witness:
  "\<exists>r e' out. BulkLoad demo_env 5 ''10.0.0.1'' ''/api/users'' [] False (demo_engine 0 (emptyAccounting ''n1'' [''n1''])) = Some (r, e', out) \<and>
     en_blocklist e' = emptyBlocklist"
proof -
  let ?e = "demo_engine 0 (emptyAccounting ''n1'' [''n1''])"
  obtain r e' out where b: "BulkLoad demo_env 5 ''10.0.0.1'' ''/api/users'' [] False ?e = Some (r, e', out)"
    using demo_resolve [of 0 "emptyAccounting ''n1'' [''n1'']"] demo_owner by (simp add: BulkLoad_def Let_def)
  from bulk_load_never_blocks [OF b] b show ?thesis by simp
qed

section \<open>The source address\<close>

lemma length_Split_append: "length (Split d (u @ d # s)) = length (Split d u) + length (Split d s)"
  by (induction u) (auto split: list.split)

lemma Split_append_nth:
  "i < length (Split d s) \<Longrightarrow> Split d (u @ d # s) ! (length (Split d u) + i) = Split d s ! i"
proof (induction u arbitrary: i)
  case (Cons c u)
  obtain w ws where s: "Split d u = w # ws" by (cases "Split d u") simp
  obtain w' ws' where t: "Split d (u @ d # s) = w' # ws'" by (cases "Split d (u @ d # s)") simp
  show ?case using Cons by (auto simp: s t)
qed simp

text \<open>
  C26. Reading \<open>X-Forwarded-For\<close> from the right is spoof-resistant: when the trusted proxies have
  appended \<open>trusted\<close> (with more entries than the configured index), the effective source address does
  not depend on the part \<open>u\<close> the client sent.
\<close>

theorem xff_right_not_spoofable:
  assumes "UseXForwardedFor s" and "ToLower (UseXForwardedForDirection s) = ''right''"
    and "0 \<le> UseXForwardedForIndex s" and "UseXForwardedForIndex s < int (length (Split (CHR '','') trusted))"
    and "map_of headers ''x-forwarded-for'' = Some (u @ '','' @ trusted)"
  shows "extractSourceIP socketIP headers s =
    (let ip = TrimSpace (Split (CHR '','') trusted ! (length (Split (CHR '','') trusted) - 1 - nat (UseXForwardedForIndex s)))
     in if ip \<noteq> '''' then ip else socketIP)"
proof -
  let ?d = "CHR '',''" and ?i = "UseXForwardedForIndex s"
  let ?n = "length (Split ?d trusted)" and ?m = "length (Split ?d u)"
  have x: "mstr headers ''x-forwarded-for'' = u @ ?d # trusted" using assms(5) by (simp add: mstr_def)
  have "nat (int (?m + ?n) - 1 - ?i) = ?m + (?n - 1 - nat ?i)" using assms(3,4) by linarith
  moreover have "Split ?d (u @ ?d # trusted) ! (?m + (?n - 1 - nat ?i)) = Split ?d trusted ! (?n - 1 - nat ?i)"
    using assms(3,4) by (intro Split_append_nth) linarith
  ultimately show ?thesis
    using assms(1-4) by (simp add: extractSourceIP_def x length_Split_append Let_def)
qed

theorem xff_right_not_spoofable_witness:
  "extractSourceIP ''10.0.0.9'' [(''x-forwarded-for'', ''6.6.6.6,203.0.113.7, 10.0.0.2'')]
     (demo_settings\<lparr>UseXForwardedFor := True, UseXForwardedForDirection := ''right'', UseXForwardedForIndex := 1\<rparr>) = ''203.0.113.7''"
  using xff_right_not_spoofable [of "demo_settings\<lparr>UseXForwardedFor := True, UseXForwardedForDirection := ''right'', UseXForwardedForIndex := 1\<rparr>"
      "''203.0.113.7, 10.0.0.2''" "[(''x-forwarded-for'', ''6.6.6.6,203.0.113.7, 10.0.0.2'')]" "''6.6.6.6''" "''10.0.0.9''"]
  by (simp add: ToLower_def lower_char_def TrimSpace_def is_space_def)

section \<open>Query strings\<close>

text \<open>
  A request path that carries a query string right after a rule's prefix is not under that
  rule: with the single rule \<open>p\<close> (not ending in a slash), a path \<open>p?q\<close> matches nothing, so it is
  neither counted nor checked against the blocklist.
\<close>

theorem query_string_not_matched:
  assumes rx: "radix_tree rx contents" and p: "PathPrefix r = p" "p \<noteq> ''''" "last p \<noteq> CHR ''/''"
  shows "matchRuleV2 rx (createPathRadixTree rx [(name, r)]) (p @ ''?'' @ q) = Some None"
proof -
  let ?t = "createPathRadixTree rx [(name, r)]"
  have "\<not> path_under (p @ ''?'' @ q) p" using p by (simp add: path_under_def nth_append)
  moreover have "k = p" if "contents ?t k = Some w" for k w
    using that contents_rules [OF rx, of "[(name, r)]" k w] p(1) by auto
  ultimately have no: "contents ?t k = None" if "path_under (p @ ''?'' @ q) k" for k
    using that by (metis not_Some_eq)
  obtain res where m: "matchRuleV2 rx ?t (p @ ''?'' @ q) = Some res" and res: "longestUnder (contents ?t) (p @ ''?'' @ q) (p @ ''?'' @ q) res"
    unfolding matchRuleV2_def using radix_tree.matchLoop_eq [OF rx, of "p @ ''?'' @ q" "p @ ''?'' @ q" ?t] by blast
  show ?thesis
  proof (cases res)
    case None
    with m show ?thesis by simp
  next
    case (Some w)
    with res obtain k where "path_under (p @ ''?'' @ q) k" "contents ?t k = Some w" by (auto simp: longestUnder_def)
    with no show ?thesis by simp
  qed
qed

theorem query_string_not_matched_witness:
  "matchRuleV2 list_radix (createPathRadixTree list_radix [(''api'', demo_rule)]) ''/api?x=1'' = Some None"
  using query_string_not_matched [OF lradix.radix_tree_axioms, of demo_rule "''/api''" "''api''" "''x=1''"]
  by (simp add: demo_rule_def)

end
