(* ===== verification/GrpcServer.thy ===== *)
theory GrpcServer
  imports Engine
begin

text \<open>
  Package \<open>internal/grpc\<close>: the Envoy \<open>ext_authz\<close> check. The server asks the engine for the entity's key,
  looks the key up in the blocklist, and answers; accounting runs afterwards in a goroutine of its own,
  which is returned as the request that goroutine will process. Listening and stopping are the gRPC
  library's.
\<close>

section \<open>Requests and responses\<close>

text \<open>
  The attributes the check reads. The generated getters return nil along a missing part of the chain,
  so a missing part anywhere reads as a missing source or HTTP request.
\<close>

record httpAttributes =
  ha_Path :: string
  ha_Host :: string
  ha_Headers :: strmap

record checkRequest =
  cr_Source :: "string option"
  cr_Http :: "httpAttributes option"

record checkResponse =
  rs_Code :: int
  rs_Message :: string
  rs_Denied :: "(int \<times> strmap) option"

definition codes_OK :: int where "codes_OK = 0"
definition codes_PermissionDenied :: int where "codes_PermissionDenied = 7"
definition StatusTooManyRequests :: int where "StatusTooManyRequests = 429"

text \<open>The first part of \<open>Check\<close>: source address, path, and the headers with the host put back.\<close>

definition requestParts :: "checkRequest \<Rightarrow> string \<times> string \<times> strmap" where
  "requestParts req =
     ((case cr_Source req of None \<Rightarrow> '''' | Some a \<Rightarrow> a),
      (case cr_Http req of
         None \<Rightarrow> ('''', [])
       | Some h \<Rightarrow> (ha_Path h, if ha_Host h \<noteq> '''' then mput ''host'' (ha_Host h) (ha_Headers h) else ha_Headers h)))"

text \<open>\<open>Time.Sub\<close> saturates at the range of a duration; the division of two durations truncates.\<close>

definition Time_Sub :: "gotime \<Rightarrow> gotime \<Rightarrow> duration" where
  "Time_Sub t u = max (- (2 ^ 63)) (min (2 ^ 63 - 1) (t - u))"

definition retryAfterSeconds :: "gotime \<Rightarrow> gotime \<Rightarrow> duration" where
  "retryAfterSeconds expiresAt fromTime = Time_Sub expiresAt fromTime sdiv Second"

text \<open>
  \<open>Check\<close>: \<open>now\<close> is when the blocklist is read, \<open>now'\<close> when the header is computed. The last component is
  the argument of the accounting goroutine.
\<close>

definition Check ::
  "('t, 'c, 'r, 'b, 'z, 'w) env \<Rightarrow> gotime \<Rightarrow> gotime \<Rightarrow> checkRequest \<Rightarrow> ('t, 'c, 'r, 'b) engine \<Rightarrow>
   (checkResponse \<times> ('t, 'c, 'r, 'b) engine \<times> 'w effect list \<times> (string \<times> string \<times> strmap) option) option" where
  "Check v now now' req e =
     (case requestParts req of (sourceIP, path, headers) \<Rightarrow>
      case BuildEntityKey v sourceIP path headers e of
        None \<Rightarrow> None
      | Some key \<Rightarrow>
          (case IsBlockedWithExpiration (e_bl v) now key (en_blocklist e) of (found, b) \<Rightarrow>
             let e' = e\<lparr>en_blocklist := b\<rparr>
             in case (if key \<noteq> '''' then found else None) of
                  Some expiresAt \<Rightarrow>
                    Some (\<lparr>rs_Code = codes_PermissionDenied, rs_Message = ''rate limit exceeded'',
                           rs_Denied = Some (StatusTooManyRequests,
                                             [(''Retry-After'', dec_int (retryAfterSeconds expiresAt now'))])\<rparr>,
                          e', [Metric IncGRPCCheck, Metric (IncGRPCResponseCode ''DENIED'')], None)
                | None \<Rightarrow>
                    Some (\<lparr>rs_Code = codes_OK, rs_Message = '''', rs_Denied = None\<rparr>,
                          e', [Metric IncGRPCCheck, Metric (IncGRPCResponseCode ''OK'')], Some (sourceIP, path, headers))))"

text \<open>The request together with its accounting goroutine, run at time \<open>now''\<close>.\<close>

definition serve ::
  "('t, 'c, 'r, 'b, 'z, 'w) env \<Rightarrow> gotime \<Rightarrow> gotime \<Rightarrow> gotime \<Rightarrow> checkRequest \<Rightarrow> ('t, 'c, 'r, 'b) engine \<Rightarrow>
   (checkResponse \<times> ('t, 'c, 'r, 'b) engine \<times> 'w effect list) option" where
  "serve v now now' now'' req e =
     (case Check v now now' req e of
        None \<Rightarrow> None
      | Some (r, e', out, None) \<Rightarrow> Some (r, e', out)
      | Some (r, e', out, Some (sourceIP, path, headers)) \<Rightarrow>
          map_option (\<lambda>(e'', out'). (r, e'', out @ out')) (Process v now'' sourceIP path headers e'))"

section \<open>The decision\<close>

lemma retryAfterSeconds_bounds:
  assumes "now \<le> x" and "x - now < 2 ^ 63"
  shows "now + retryAfterSeconds x now * Second \<le> x \<and> x < now + (retryAfterSeconds x now + 1) * Second"
proof -
  have "retryAfterSeconds x now = (x - now) div Second"
    using assms by (simp add: retryAfterSeconds_def Time_Sub_def signed_divide_int_def Second_def sgn_if)
  moreover have "0 \<le> (x - now) mod Second" "(x - now) mod Second < Second" by (simp_all add: Second_def)
  moreover note div_mult_mod_eq [of "x - now" Second]
  ultimately show ?thesis by (simp only: distrib_right) linarith
qed

lemma BuildEntityKey_resolve:
  "resolveEntity v ip path hs e = Some (Some (rule, ent, h, k)) \<Longrightarrow> BuildEntityKey v ip path hs e = Some k \<and> k \<noteq> ''''"
  by (auto simp: resolveEntity_def BuildEntityKey_def Key_def Let_def HashToEntityKey_def
      split: option.splits dest: arg_cong [of _ _ length])

lemma resolveEntity_cong:
  "en_rules e' = en_rules e \<Longrightarrow> en_settings e' = en_settings e \<Longrightarrow> resolveEntity v ip path hs e' = resolveEntity v ip path hs e"
  by (simp add: resolveEntity_def cong: option.case_cong)

lemma Check_cases:
  assumes "requestParts req = (ip, path, hs)" and "BuildEntityKey v ip path hs e = Some key"
  shows "Check v now now' req e =
    (let e' = e\<lparr>en_blocklist := snd (IsBlockedWithExpiration (e_bl v) now key (en_blocklist e))\<rparr>
     in case (if key \<noteq> '''' then blocked_until (e_bl v) now key (en_blocklist e) else None) of
          Some x \<Rightarrow> Some (\<lparr>rs_Code = codes_PermissionDenied, rs_Message = ''rate limit exceeded'',
              rs_Denied = Some (StatusTooManyRequests, [(''Retry-After'', dec_int (retryAfterSeconds x now'))])\<rparr>,
              e', [Metric IncGRPCCheck, Metric (IncGRPCResponseCode ''DENIED'')], None)
        | None \<Rightarrow> Some (\<lparr>rs_Code = codes_OK, rs_Message = '''', rs_Denied = None\<rparr>,
              e', [Metric IncGRPCCheck, Metric (IncGRPCResponseCode ''OK'')], Some (ip, path, hs)))"
  using assms by (simp add: Check_def blocked_until_def case_prod_unfold Let_def split: option.split)

text \<open>
  C27. \<open>Check\<close> always answers, and denies exactly the requests whose entity is in the blocklist: then with
  status 429 and a \<open>Retry-After\<close> of the whole seconds left (rounded down, so waiting it out can fall short
  of the deadline by less than a second, never overshoot), and nothing is accounted; every other
  request, one without a matching rule included, is allowed and handed to accounting unchanged.
  Neither answer alters a counter or what any reader sees of the blocklist.
\<close>

theorem check_denies_blocked:
  assumes env: "engine_env v contents storedA roomA storedB roomB" and parts: "requestParts req = (ip, path, hs)"
  shows "\<exists>r e' out go key. Check v now now' req e = Some (r, e', out, go) \<and> BuildEntityKey v ip path hs e = Some key \<and>
    en_accounting e' = en_accounting e \<and>
    (\<forall>t k. fst (IsBlockedWithExpiration (e_bl v) t k (en_blocklist e')) = fst (IsBlockedWithExpiration (e_bl v) t k (en_blocklist e))) \<and>
    (if key \<noteq> '''' \<and> fst (IsBlocked (e_bl v) now key (en_blocklist e))
     then rs_Code r = codes_PermissionDenied \<and> go = None \<and>
       (\<exists>x. fst (IsBlockedWithExpiration (e_bl v) now key (en_blocklist e)) = Some x \<and>
          rs_Denied r = Some (StatusTooManyRequests, [(''Retry-After'', dec_int (retryAfterSeconds x now'))]) \<and>
          (now' \<le> x \<and> x - now' < 2 ^ 63 \<longrightarrow>
             now' + retryAfterSeconds x now' * Second \<le> x \<and> x < now' + (retryAfterSeconds x now' + 1) * Second))
     else rs_Code r = codes_OK \<and> rs_Denied r = None \<and> go = Some (ip, path, hs))"
proof -
  obtain key where key: "BuildEntityKey v ip path hs e = Some key"
    using engine_env.resolve_returns [OF env, of ip path hs e]
    by (auto simp: resolveEntity_def BuildEntityKey_def Let_def split: option.splits)
  let ?b = "snd (IsBlockedWithExpiration (e_bl v) now key (en_blocklist e))"
  have same: "blocked_until (e_bl v) t k ?b = blocked_until (e_bl v) t k (en_blocklist e)" for t k
    by (simp add: IsBlockedWithExpiration_def split: option.split)
  show ?thesis
    using same retryAfterSeconds_bounds
    by (cases "blocked_until (e_bl v) now key (en_blocklist e)"; cases "key = ''''")
       (simp_all add: Check_cases [OF parts key] key IsBlocked_iff flip: blocked_until_def)
qed

theorem check_denies_blocked_witness:
  "\<exists>r e' out. Check demo_env 5 5 \<lparr>cr_Source = Some ''10.0.0.1'', cr_Http = None\<rparr> (demo_engine 0 (emptyAccounting ''n1'' [''n1''])) =
     Some (r, e', out, Some (''10.0.0.1'', '''', [])) \<and> rs_Code r = codes_OK"
  using check_denies_blocked [OF demo.engine_env_axioms,
      of "\<lparr>cr_Source = Some ''10.0.0.1'', cr_Http = None\<rparr>" "''10.0.0.1''" "''''" "[]" 5 5
        "demo_engine 0 (emptyAccounting ''n1'' [''n1''])"]
  by (auto simp: requestParts_def IsBlocked_iff emptyBlocklist_until split: if_splits)

lemma sint_of_nat64: "n < 2 ^ 63 \<Longrightarrow> sint (of_nat n :: 64 word) = int n"
  by (simp add: signed_of_nat signed_take_bit_int_eq_self)

section \<open>A sequence of requests of one entity\<close>

text \<open>The answers to a sequence of identical requests, each accounted before the next one arrives.\<close>

fun serveAll ::
  "('t, 'c, 'r, 'b, 'z, 'w) env \<Rightarrow> checkRequest \<Rightarrow> gotime list \<Rightarrow> ('t, 'c, 'r, 'b) engine \<Rightarrow>
   (checkResponse list \<times> ('t, 'c, 'r, 'b) engine) option" where
  "serveAll v req [] e = Some ([], e)"
| "serveAll v req (t # ts) e =
     (case serve v t t t req e of
        None \<Rightarrow> None
      | Some (r, e', out) \<Rightarrow> map_option (\<lambda>(rs, e''). (r # rs, e'')) (serveAll v req ts e'))"

context accounting_cache
begin

lemma IsOwner_Increment: "IsOwner rg k' (snd (Increment ot t k \<delta> a)) = IsOwner rg k' a"
  by (simp add: IsOwner_def getOwnerLockedForKey_def Increment_frame cong: option.case_cong)

end

context blocklist_cache
begin

lemma room_Block: "room (Suc n) (bc_cache b) \<Longrightarrow> room n (bc_cache (Block ot t k ttl e b))"
  by (rule store.ok_block)

lemma until_later: "blocked_until ot t k b = None \<Longrightarrow> t \<le> t' \<Longrightarrow> blocked_until ot t' k b = None"
  by (cases "(t, stored (bc_cache b) k)" rule: live.cases) (auto simp: blocked_until_eq get split: if_splits)

end

lemma bc_cache_IsBlockedWithExpiration [simp]: "bc_cache (snd (IsBlockedWithExpiration ot t k b)) = bc_cache b"
  by (simp add: IsBlockedWithExpiration_def split: option.split)

text \<open>
  The state after \<open>i\<close> requests of the entity \<open>k\<close>, the first of them at \<open>t0\<close> and the last at \<open>t\<close>, under a
  rule with limit \<open>L\<close>: the counter stops at \<open>L + 1\<close>, and from then on the entity is blocked beyond the
  end of the window.
\<close>

definition served ::
  "('c \<Rightarrow> string \<Rightarrow> (nat \<times> gotime) option) \<Rightarrow> ('t, 'c, 'r, 'b, 'z, 'w) env \<Rightarrow> string \<Rightarrow> gotime \<Rightarrow> nat \<Rightarrow> nat \<Rightarrow> gotime \<Rightarrow>
   ('t, 'c, 'r, 'b) engine \<Rightarrow> bool" where
  "served stored v k t0 L i t e \<longleftrightarrow>
     (if i = 0 then live t (counter stored (en_accounting e) k) = None
      else counter stored (en_accounting e) k = Some (of_nat (min i (Suc L)), t0 + ac_windowSize (en_accounting e))) \<and>
     (if i \<le> L then blocked_until (e_bl v) t k (en_blocklist e) = None
      else \<exists>x. t0 + ac_windowSize (en_accounting e) \<le> x \<and> (\<forall>t'. t \<le> t' \<and> t' < x \<longrightarrow> blocked_until (e_bl v) t' k (en_blocklist e) = Some x))"

context engine_env
begin

definition ready ::
  "string \<Rightarrow> string \<Rightarrow> strmap \<Rightarrow> accountingRuleWithName \<Rightarrow> entity \<Rightarrow> uint64 \<Rightarrow> string \<Rightarrow> nat \<Rightarrow> ('t, 'c, 'r, 'b) engine \<Rightarrow> bool" where
  "ready ip path hs rule ent h k n e \<longleftrightarrow>
     resolveEntity v ip path hs e = Some (Some (rule, ent, h, k)) \<and>
     IsOwner (e_rg v) k (en_accounting e) \<and> en_limiter e = SlidingWindow \<and> ac_wf storedA (en_accounting e) \<and>
     roomA n (ac_cache (en_accounting e)) \<and> roomB n (bc_cache (en_blocklist e))"

lemma serve_denied:
  assumes parts: "requestParts req = (ip, path, hs)" and rdy: "ready ip path hs rule ent h k (Suc n) e"
    and inv: "served storedA v k t0 L i t0' e" and over: "L < i" and t: "t0' \<le> t" "t < t0 + ac_windowSize (en_accounting e)"
  shows "\<exists>r e' out. serve v t t t req e = Some (r, e', out) \<and> rs_Code r \<noteq> codes_OK \<and>
    ready ip path hs rule ent h k n e' \<and> ac_windowSize (en_accounting e') = ac_windowSize (en_accounting e) \<and>
    served storedA v k t0 L (Suc i) t e'"
proof -
  from rdy have k: "BuildEntityKey v ip path hs e = Some k" "k \<noteq> ''''"
    using BuildEntityKey_resolve [of v ip path hs e rule ent h k] by (simp_all add: ready_def)
  from inv over obtain x where x: "t0 + ac_windowSize (en_accounting e) \<le> x"
      "\<forall>t'. t0' \<le> t' \<and> t' < x \<longrightarrow> blocked_until (e_bl v) t' k (en_blocklist e) = Some x" by (auto simp: served_def)
  then have b: "blocked_until (e_bl v) t k (en_blocklist e) = Some x" using t by simp
  let ?b = "snd (IsBlockedWithExpiration (e_bl v) t k (en_blocklist e))"
  have same: "blocked_until (e_bl v) t' k' ?b = blocked_until (e_bl v) t' k' (en_blocklist e)" for t' k'
    by (simp add: blocked_until_eq)
  have "min i (Suc L) = Suc L" "min i L = L" using over by simp_all
  then show ?thesis
    using rdy inv over t x
    by (auto simp: serve_def Check_cases [OF parts k(1)] k(2) b ready_def served_def same codes_OK_def codes_PermissionDenied_def
        resolveEntity_cong [of "e\<lparr>en_blocklist := ?b\<rparr>" e]
        intro: ac.room_less bl.room_less)
qed

lemma served_count:
  assumes inv: "served storedA v k t0 L i t1 e" and "i \<le> L" and t: "t1 \<le> t" "t < t0 + ac_windowSize (en_accounting e)"
    and first: "i = 0 \<longrightarrow> t = t0"
  shows "reading t k (counter storedA (en_accounting e)) = of_nat i \<and>
    tick (ac_windowSize (en_accounting e)) t k 1 (counter storedA (en_accounting e)) k =
      Some (of_nat (Suc i), t0 + ac_windowSize (en_accounting e))"
proof (cases i)
  case 0
  then have "live t (counter storedA (en_accounting e) k) = None"
    using inv t(1) by (cases "(t1, counter storedA (en_accounting e) k)" rule: live.cases) (auto simp: served_def split: if_splits)
  with 0 first show ?thesis by (simp add: reading_def tick_def)
next
  case (Suc j)
  then have "counter storedA (en_accounting e) k = Some (of_nat i, t0 + ac_windowSize (en_accounting e))"
    using inv \<open>i \<le> L\<close> by (simp add: served_def min_def)
  with t show ?thesis by (simp add: reading_def tick_def add.commute)
qed

lemma serve_admitted:
  assumes parts: "requestParts req = (ip, path, hs)" and rdy: "ready ip path hs rule ent h k (Suc n) e"
    and inv: "served storedA v k t0 L i t1 e" and under: "i \<le> L"
    and t: "t1 \<le> t" "t < t0 + ac_windowSize (en_accounting e)" and first: "i = 0 \<longrightarrow> t = t0" and t0: "t0 \<le> t"
    and L: "sint (Limit (rn_Rule rule)) = int L" "L < 2 ^ 63 - 1" and per: "ac_windowSize (en_accounting e) \<le> WindowDuration (rn_Rule rule)"
  shows "\<exists>r e' out. serve v t t t req e = Some (r, e', out) \<and> rs_Code r = codes_OK \<and>
    ready ip path hs rule ent h k n e' \<and> ac_windowSize (en_accounting e') = ac_windowSize (en_accounting e) \<and>
    served storedA v k t0 L (Suc i) t e'"
proof -
  let ?w = "ac_windowSize (en_accounting e)" and ?b = "snd (IsBlockedWithExpiration (e_bl v) t k (en_blocklist e))"
  let ?e = "e\<lparr>en_blocklist := ?b\<rparr>"
  have k: "BuildEntityKey v ip path hs e = Some k" "k \<noteq> ''''"
    using rdy BuildEntityKey_resolve [of v ip path hs e rule ent h k] by (simp_all add: ready_def)
  have b: "blocked_until (e_bl v) t k (en_blocklist e) = None"
    using inv under t(1) bl.until_later [of t1 k "en_blocklist e" t] by (simp add: served_def)
  then have b': "blocked_until (e_bl v) t k ?b = None" by (simp add: blocked_until_eq)
  have cnt: "fst (Get (e_ac v) t k (en_accounting ?e)) + 1 = of_nat (Suc i)"
    and tk: "tick ?w t k 1 (counter storedA (en_accounting e)) k = Some (of_nat (Suc i), t0 + ?w)"
    using served_count [OF inv under t first] by (simp_all add: ac.Get_reading)
  have small: "sint (of_nat (Suc i) :: 64 word) = int (Suc i)"
    using under L(2) by (intro sint_of_nat64) simp
  have "resolveEntity v ip path hs ?e = Some (Some (rule, ent, h, k))"
    using rdy resolveEntity_cong [of ?e e v] by (simp add: ready_def)
  from Process_sliding [OF this, of n t] rdy obtain e' out where
    p: "Process v t ip path hs ?e = Some (e', out)" and acc: "en_accounting e' = snd (Increment (e_ac v) t k 1 (en_accounting e))"
      "en_limiter e' = SlidingWindow" "en_rules e' = en_rules e" "en_settings e' = en_settings e"
    and eq: "eq_from t (counter storedA (en_accounting e')) (tick ?w t k 1 (counter storedA (en_accounting e)))"
    and blk: "if i = L then en_blocklist e' = Block (e_bl v) t k (WindowDuration (rn_Rule rule)) (Some ent) ?b else en_blocklist e' = ?b"
    unfolding cnt small L(1) using under by (auto simp: ready_def split: if_splits)
  have "live t (counter storedA (en_accounting e') k) = Some (of_nat (Suc i))"
    using eq tk t(2) by (simp add: eq_from_def)
  then have c: "counter storedA (en_accounting e') k = Some (of_nat (Suc i), t0 + ?w)"
    using eq_from_deadline [OF eq] tk by simp
  have rB: "roomB (Suc n) (bc_cache ?b)" using rdy by (simp add: ready_def)
  have "ready ip path hs rule ent h k n e'"
    using rdy acc blk rB resolveEntity_cong [of e' e v] bl.room_Block [OF rB] bl.room_less [OF rB]
    by (auto simp: ready_def ac.Increment_wf ac.Increment_room ac.IsOwner_Increment split: if_splits)
  moreover have "served storedA v k t0 L (Suc i) t e'"
    using c acc(1) blk b' under per t0 bl.until_Block_exact [OF rB b' WindowDuration_pos [of "rn_Rule rule"]]
    by (auto simp: served_def split: if_splits intro!: exI [of _ "t + WindowDuration (rn_Rule rule)"])
  ultimately show ?thesis
    using p acc(1) by (auto simp: serve_def Check_cases [OF parts k(1)] k(2) b)
qed

lemma serveAll_run:
  assumes parts: "requestParts req = (ip, path, hs)"
    and L: "sint (Limit (rn_Rule rule)) = int L" "L < 2 ^ 63 - 1"
    and per: "w \<le> WindowDuration (rn_Rule rule)"
  shows "ready ip path hs rule ent h k (length ts) e \<Longrightarrow> served storedA v k t0 L i t1 e \<Longrightarrow>
    ac_windowSize (en_accounting e) = w \<Longrightarrow> sorted (t1 # ts) \<Longrightarrow> list_all (\<lambda>t. t0 \<le> t \<and> t < t0 + w) ts \<Longrightarrow>
    (i = 0 \<longrightarrow> ts \<noteq> [] \<longrightarrow> hd ts = t0) \<Longrightarrow>
    \<exists>rs e'. serveAll v req ts e = Some (rs, e') \<and>
      map (\<lambda>r. rs_Code r = codes_OK) rs = map (\<lambda>j. j \<le> L) [i..<i + length ts]"
proof (induction ts arbitrary: i t1 e)
  case (Cons t ts)
  have "\<exists>r e' out. serve v t t t req e = Some (r, e', out) \<and> (rs_Code r = codes_OK \<longleftrightarrow> i \<le> L) \<and>
    ready ip path hs rule ent h k (length ts) e' \<and> ac_windowSize (en_accounting e') = ac_windowSize (en_accounting e) \<and>
    served storedA v k t0 L (Suc i) t e'"
  proof (cases "i \<le> L")
    case True
    with Cons.prems per serve_admitted [OF parts _ Cons.prems(2) True _ _ _ _ L, of ent h "length ts" t] show ?thesis by auto
  next
    case False
    with Cons.prems serve_denied [OF parts _ Cons.prems(2), of rule ent h "length ts" t] show ?thesis by auto
  qed
  then obtain r e' out where s: "serve v t t t req e = Some (r, e', out)" "rs_Code r = codes_OK \<longleftrightarrow> i \<le> L"
    and e': "ready ip path hs rule ent h k (length ts) e'" "served storedA v k t0 L (Suc i) t e'"
      "ac_windowSize (en_accounting e') = w" using Cons.prems(3) by blast
  have "sorted (t # ts)" "list_all (\<lambda>t. t0 \<le> t \<and> t < t0 + w) ts" using Cons.prems by auto
  from Cons.IH [OF e'(1,2,3) this] obtain rs e'' where "serveAll v req ts e' = Some (rs, e'')"
    "map (\<lambda>r. rs_Code r = codes_OK) rs = map (\<lambda>j. j \<le> L) [Suc i..<Suc i + length ts]" by auto
  moreover have "[i..<i + length (t # ts)] = i # [Suc i..<Suc i + length ts]" by (subst upt_conv_Cons) simp_all
  ultimately show ?case using s by (simp del: upt_Suc)
qed simp

end



end
