(* ===== verification/Metrics.thy ===== *)
theory Metrics
  imports Messages
begin

text \<open>
  Package \<open>internal/metrics\<close>: the metrics a node registers, the method behind each metric event, and the snapshot
  for the dashboard. The Prometheus client library is the record \<open>pr\<close> of its operations; the locale
  \<open>prometheus\<close> states what the sources rely on: registration fails for a name already taken, \<open>WithLabelValues\<close>
  panics unless it gets one valid value per label, and an update changes the addressed series only. Floating
  point values are reals.
\<close>

section \<open>The client library\<close>

datatype metricKind = Counter | Gauge | Histogram

type_synonym metricDesc = "string \<times> metricKind \<times> string list"

datatype metricOp = Inc | Dec | Add real | SetTo real | Observe real

datatype sample = CounterSample real | GaugeSample real | OtherSample

text \<open>\<open>None\<close> is a panic. \<open>prom_Gather\<close> gives the families with the label pairs and the value of each series.\<close>

record 'm prom =
  prom_New :: 'm
  prom_MustRegister :: "metricDesc \<Rightarrow> 'm \<Rightarrow> 'm option"
  prom_Update :: "string \<Rightarrow> string list \<Rightarrow> metricOp \<Rightarrow> 'm \<Rightarrow> 'm option"
  prom_Gather :: "'m \<Rightarrow> (string \<times> (strmap \<times> sample) list) list option"

text \<open>The operations the Go types of the client library offer, and what they do to a series (for a histogram, its count).\<close>

fun op_ok :: "metricKind \<Rightarrow> metricOp \<Rightarrow> bool" where
  "op_ok Counter Inc = True"
| "op_ok Counter (Add x) = (0 \<le> x)"
| "op_ok Gauge (Observe x) = False"
| "op_ok Gauge _ = True"
| "op_ok Histogram (Observe x) = True"
| "op_ok _ _ = False"

fun op_effect :: "metricOp \<Rightarrow> real \<Rightarrow> real" where
  "op_effect Inc v = v + 1"
| "op_effect Dec v = v - 1"
| "op_effect (Add x) v = v + x"
| "op_effect (SetTo x) v = x"
| "op_effect (Observe x) v = v + 1"

section \<open>The metrics of a node\<close>

definition metricsTable :: "metricDesc list" where
  "metricsTable =
     [(''drl_membership_cluster_size'', Gauge, []),
      (''drl_membership_events_total'', Counter, [''event_type'']),
      (''drl_grpc_check_total'', Counter, []),
      (''drl_cache_hits_total'', Counter, [''cache_type'']),
      (''drl_cache_misses_total'', Counter, [''cache_type'']),
      (''drl_cache_evictions_total'', Counter, [''cache_type'']),
      (''drl_cache_memory_bytes'', Gauge, [''cache_type'']),
      (''drl_sync_duration_seconds'', Histogram, []),
      (''drl_accounting_local_increments_total'', Counter, []),
      (''drl_accounting_remote_increments_total'', Counter, []),
      (''drl_accounting_flush_total'', Counter, []),
      (''drl_accounting_msg_recv_total'', Counter, []),
      (''drl_accounting_bulk_load_total'', Counter, [''result'']),
      (''drl_membership_reliable_msgs_total'', Counter, []),
      (''drl_membership_best_effort_msgs_total'', Counter, []),
      (''drl_membership_channel_msgs_sent_total'', Counter, []),
      (''drl_membership_channel_msgs_recv_total'', Counter, []),
      (''drl_membership_channel_connections_active'', Gauge, []),
      (''drl_membership_channel_errors_total'', Counter, []),
      (''drl_accounting_handover_out_entities'', Counter, []),
      (''drl_accounting_handover_in_entities'', Counter, []),
      (''drl_accounting_handover_duration_ms'', Histogram, []),
      (''drl_accounting_handover_failed_total'', Counter, []),
      (''drl_ratelimit_blocks_total'', Counter, [''rule_name'', ''reason'']),
      (''drl_ratelimit_propagation_latency_ms'', Histogram, []),
      (''drl_grpc_response_code_total'', Counter, [''code'']),
      (''drl_ratelimit_tokens_consumed_total'', Counter, [''rule_name'']),
      (''drl_ratelimit_bucket_exhausted_total'', Counter, [''rule_name'']),
      (''drl_ratelimit_tokens_current'', Gauge, [''rule_name'']),
      (''drl_proxy_requests_total'', Counter, [''host'', ''route'', ''status'']),
      (''drl_proxy_errors_total'', Counter, [''host'', ''route'', ''reason'']),
      (''drl_proxy_latency_seconds'', Histogram, [''host'', ''route'']),
      (''drl_proxy_oidc_requests_total'', Counter, [''host'', ''path'', ''status'']),
      (''drl_proxy_oidc_verification_duration_seconds'', Histogram, [''host'', ''path''])]"

fun registerAll :: "'m prom \<Rightarrow> metricDesc list \<Rightarrow> 'm \<Rightarrow> 'm option" where
  "registerAll pr [] m = Some m"
| "registerAll pr (d # ds) m = Option.bind (prom_MustRegister pr d m) (registerAll pr ds)"

definition NewMetrics :: "'m prom \<Rightarrow> 'm option" where
  "NewMetrics pr = registerAll pr metricsTable (prom_New pr)"

text \<open>The body of the method behind each event: the metric, the label values in order, the operation.\<close>

fun metricCall :: "metricEvent \<Rightarrow> string \<times> string list \<times> metricOp" where
  "metricCall (SetClusterSize sz) = (''drl_membership_cluster_size'', [], SetTo (real sz))"
| "metricCall (IncEvent eventType) = (''drl_membership_events_total'', [eventType], Inc)"
| "metricCall IncGRPCCheck = (''drl_grpc_check_total'', [], Inc)"
| "metricCall (IncCacheHit cacheType) = (''drl_cache_hits_total'', [cacheType], Inc)"
| "metricCall (IncCacheMiss cacheType) = (''drl_cache_misses_total'', [cacheType], Inc)"
| "metricCall (IncCacheEviction cacheType) = (''drl_cache_evictions_total'', [cacheType], Inc)"
| "metricCall (SetCacheMemory cacheType bytes) = (''drl_cache_memory_bytes'', [cacheType], SetTo (of_int (sint bytes)))"
| "metricCall (ObserveSyncDuration d) = (''drl_sync_duration_seconds'', [], Observe (of_int d / 1000000000))"
| "metricCall IncAccountingLocal = (''drl_accounting_local_increments_total'', [], Inc)"
| "metricCall IncAccountingRemote = (''drl_accounting_remote_increments_total'', [], Inc)"
| "metricCall IncAccountingFlush = (''drl_accounting_flush_total'', [], Inc)"
| "metricCall IncAccountingMsgRecv = (''drl_accounting_msg_recv_total'', [], Inc)"
| "metricCall (IncAccountingBulkLoad result) = (''drl_accounting_bulk_load_total'', [result], Inc)"
| "metricCall IncMembershipReliable = (''drl_membership_reliable_msgs_total'', [], Inc)"
| "metricCall IncMembershipBestEffort = (''drl_membership_best_effort_msgs_total'', [], Inc)"
| "metricCall IncMembershipChannelMsgsSent = (''drl_membership_channel_msgs_sent_total'', [], Inc)"
| "metricCall IncMembershipChannelMsgsRecv = (''drl_membership_channel_msgs_recv_total'', [], Inc)"
| "metricCall IncMembershipChannelConnections = (''drl_membership_channel_connections_active'', [], Inc)"
| "metricCall DecMembershipChannelConnections = (''drl_membership_channel_connections_active'', [], Dec)"
| "metricCall IncMembershipChannelErrors = (''drl_membership_channel_errors_total'', [], Inc)"
| "metricCall (AddHandoverOut n) = (''drl_accounting_handover_out_entities'', [], Add (real n))"
| "metricCall (AddHandoverIn n) = (''drl_accounting_handover_in_entities'', [], Add (real n))"
| "metricCall (ObserveHandoverDuration ms) = (''drl_accounting_handover_duration_ms'', [], Observe (of_int ms))"
| "metricCall IncHandoverFailed = (''drl_accounting_handover_failed_total'', [], Inc)"
| "metricCall (IncRateLimitBlock ruleName reason) = (''drl_ratelimit_blocks_total'', [ruleName, reason], Inc)"
| "metricCall (ObservePropagationLatency ms) = (''drl_ratelimit_propagation_latency_ms'', [], Observe ms)"
| "metricCall (IncGRPCResponseCode code) = (''drl_grpc_response_code_total'', [code], Inc)"
| "metricCall (IncRateLimitTokensConsumed ruleName) = (''drl_ratelimit_tokens_consumed_total'', [ruleName], Inc)"
| "metricCall (IncRateLimitBucketExhausted ruleName) = (''drl_ratelimit_bucket_exhausted_total'', [ruleName], Inc)"
| "metricCall (SetRateLimitTokensCurrent ruleName tokens) = (''drl_ratelimit_tokens_current'', [ruleName], SetTo tokens)"
| "metricCall (IncProxyRequest host route status) = (''drl_proxy_requests_total'', [host, route, status], Inc)"
| "metricCall (IncProxyError host route reason) = (''drl_proxy_errors_total'', [host, route, reason], Inc)"
| "metricCall (ObserveProxyLatency host route d) = (''drl_proxy_latency_seconds'', [host, route], Observe (of_int d / 1000000000))"
| "metricCall (IncOIDCRequest host path status) = (''drl_proxy_oidc_requests_total'', [host, path, status], Inc)"
| "metricCall (ObserveOIDCLatency host path d) = (''drl_proxy_oidc_verification_duration_seconds'', [host, path], Observe (of_int d / 1000000000))"

definition recordMetric :: "'m prom \<Rightarrow> metricEvent \<Rightarrow> 'm \<Rightarrow> 'm option" where
  "recordMetric pr ev m = (case metricCall ev of (name, vals, opn) \<Rightarrow> prom_Update pr name vals opn m)"

fun recordAll :: "'m prom \<Rightarrow> metricEvent list \<Rightarrow> 'm \<Rightarrow> 'm option" where
  "recordAll pr [] m = Some m"
| "recordAll pr (ev # evs) m = Option.bind (recordMetric pr ev m) (recordAll pr evs)"

text \<open>\<open>GatherForUI\<close>: a counter adds to its key, a gauge overwrites it, histograms are left out.\<close>

fun labelStr :: "strmap \<Rightarrow> string" where
  "labelStr [] = []"
| "labelStr [(k, v)] = k @ ''='' @ v"
| "labelStr ((k, v) # ls) = k @ ''='' @ v @ '','' @ labelStr ls"

definition uiKey :: "string \<Rightarrow> strmap \<Rightarrow> string" where
  "uiKey name ls = (let l = labelStr ls in if l \<noteq> '''' then name @ ''{'' @ l @ ''}'' else name)"

definition GatherForUI :: "'m prom \<Rightarrow> 'm \<Rightarrow> (string \<times> real) list" where
  "GatherForUI pr m =
     (case prom_Gather pr m of
        None \<Rightarrow> []
      | Some mfs \<Rightarrow>
          fold (\<lambda>(name, metrics). fold (\<lambda>(ls, s) result.
              let key = uiKey name ls
              in case s of
                   CounterSample x \<Rightarrow> mput key ((case map_of result key of None \<Rightarrow> 0 | Some y \<Rightarrow> y) + x) result
                 | GaugeSample x \<Rightarrow> mput key x result
                 | OtherSample \<Rightarrow> result) metrics) mfs [])"

section \<open>Contract of the client library\<close>

locale prometheus =
  fixes pr :: "'m prom"
    and descs :: "'m \<Rightarrow> string \<Rightarrow> (metricKind \<times> string list) option"
    and val :: "'m \<Rightarrow> string \<Rightarrow> string list \<Rightarrow> real"
    and valid :: "string \<Rightarrow> bool"
  assumes new: "descs (prom_New pr) n = None" "val (prom_New pr) n vs = 0"
    and register: "descs m n = None \<Longrightarrow>
      \<exists>m'. prom_MustRegister pr (n, k, ls) m = Some m' \<and> descs m' = (descs m)(n \<mapsto> (k, ls)) \<and> val m' = val m"
    and register_taken: "descs m n \<noteq> None \<Longrightarrow> prom_MustRegister pr (n, k, ls) m = None"
    and update: "descs m n = Some (k, ls) \<Longrightarrow> length vs = length ls \<Longrightarrow> list_all valid vs \<Longrightarrow> op_ok k opn \<Longrightarrow>
      \<exists>m'. prom_Update pr n vs opn m = Some m' \<and> descs m' = descs m \<and>
        (\<forall>n' vs'. val m' n' vs' = (if n' = n \<and> vs' = vs then op_effect opn (val m n vs) else val m n' vs'))"
    and update_arity: "descs m n = Some (k, ls) \<Longrightarrow> length vs \<noteq> length ls \<Longrightarrow> prom_Update pr n vs opn m = None"
begin

lemma registerAll_ok:
  assumes "distinct (map fst ds)" and "\<forall>n \<in> fst ` set ds. descs m n = None"
  shows "\<exists>m'. registerAll pr ds m = Some m' \<and> descs m' = descs m ++ map_of ds \<and> val m' = val m"
  using assms
proof (induction ds arbitrary: m)
  case (Cons d ds)
  obtain n k ls where d: "d = (n, k, ls)" by (metis prod.exhaust)
  obtain m1 where m1: "prom_MustRegister pr d m = Some m1" "descs m1 = (descs m)(n \<mapsto> (k, ls))" "val m1 = val m"
    using register [of m n k ls] Cons.prems by (auto simp: d)
  have "\<forall>n \<in> fst ` set ds. descs m1 n = None" using Cons.prems by (auto simp: m1 d)
  then obtain m' where m': "registerAll pr ds m1 = Some m'" "descs m' = descs m1 ++ map_of ds" "val m' = val m1"
    using Cons.IH [of m1] Cons.prems by (auto simp: d)
  have "n \<notin> fst ` set ds" using Cons.prems by (simp add: d)
  then have "map_of ds n = None" by (simp add: map_of_eq_None_iff)
  then have "descs m1 ++ map_of ds = descs m ++ map_of (d # ds)"
    by (auto simp: m1 d map_add_def fun_eq_iff split: option.split)
  then have "descs m' = descs m ++ map_of (d # ds)" by (simp only: m'(2))
  moreover have "registerAll pr (d # ds) m = Some m'" using m1(1) m'(1) by simp
  moreover have "val m' = val m" using m1(3) m'(3) by simp
  ultimately show ?case by blast
qed simp

end

definition eventLabels :: "metricEvent \<Rightarrow> string list" where
  "eventLabels ev = fst (snd (metricCall ev))"

text \<open>What an event adds to a counter.\<close>

definition increment :: "string \<Rightarrow> string list \<Rightarrow> metricEvent \<Rightarrow> real" where
  "increment name vals ev =
     (case metricCall ev of (n, vs, opn) \<Rightarrow> if n = name \<and> vs = vals then op_effect opn 0 else 0)"

lemma table_distinct: "distinct (map fst metricsTable)"
  unfolding metricsTable_def by code_simp

text \<open>Every method names a registered metric, passes one value per label and uses an operation of its kind.\<close>

lemma metricCall_typed:
  "\<exists>k ls. map_of metricsTable (fst (metricCall ev)) = Some (k, ls) \<and> length (eventLabels ev) = length ls \<and> op_ok k (snd (snd (metricCall ev)))"
  by (cases ev) (simp_all add: metricsTable_def eventLabels_def)

lemma counter_effect: "op_ok Counter opn \<Longrightarrow> op_effect opn v = v + op_effect opn 0"
  by (cases opn) simp_all

context prometheus
begin

lemma NewMetrics_ok: "\<exists>m. NewMetrics pr = Some m \<and> descs m = map_of metricsTable \<and> val m = (\<lambda>_ _. 0)"
proof -
  obtain m where "registerAll pr metricsTable (prom_New pr) = Some m" "descs m = descs (prom_New pr) ++ map_of metricsTable" "val m = val (prom_New pr)"
    using registerAll_ok [OF table_distinct, of "prom_New pr"] new(1) by auto
  moreover have "descs (prom_New pr) = Map.empty" "val (prom_New pr) = (\<lambda>_ _. 0)" using new by (simp_all add: fun_eq_iff)
  ultimately show ?thesis by (simp add: NewMetrics_def)
qed

lemma recordMetric_ok:
  assumes "descs m = map_of metricsTable" and "list_all valid (eventLabels ev)"
  shows "\<exists>m'. recordMetric pr ev m = Some m' \<and> descs m' = map_of metricsTable \<and>
    (\<forall>n ls. map_of metricsTable n = Some (Counter, ls) \<longrightarrow> (\<forall>vs. val m' n vs = val m n vs + increment n vs ev))"
proof -
  obtain n vs opn where c: "metricCall ev = (n, vs, opn)" by (metis prod.exhaust)
  then obtain k ls where t: "map_of metricsTable n = Some (k, ls)" "length vs = length ls" "op_ok k opn"
    using metricCall_typed [of ev] by (auto simp: eventLabels_def)
  then obtain m' where m': "prom_Update pr n vs opn m = Some m'" "descs m' = descs m"
    "\<forall>n' vs'. val m' n' vs' = (if n' = n \<and> vs' = vs then op_effect opn (val m n vs) else val m n' vs')"
    using update [of m n k ls vs opn] assms by (auto simp: eventLabels_def c)
  have "val m' n' vs' = val m n' vs' + increment n' vs' ev" if "map_of metricsTable n' = Some (Counter, ls')" for n' ls' vs'
    using that t(1,3) m'(3) counter_effect [of opn "val m n vs"] by (auto simp: increment_def c)
  then show ?thesis using m'(1,2) assms(1) by (auto simp: recordMetric_def c)
qed

lemma recordAll_ok:
  assumes "descs m = map_of metricsTable" and "\<forall>ev \<in> set evs. list_all valid (eventLabels ev)"
  shows "\<exists>m'. recordAll pr evs m = Some m' \<and> descs m' = map_of metricsTable \<and>
    (\<forall>n ls. map_of metricsTable n = Some (Counter, ls) \<longrightarrow> (\<forall>vs. val m' n vs = val m n vs + sum_list (map (increment n vs) evs)))"
  using assms
proof (induction evs arbitrary: m)
  case (Cons ev evs)
  obtain m1 where m1: "recordMetric pr ev m = Some m1" "descs m1 = map_of metricsTable"
    "\<And>n ls vs. map_of metricsTable n = Some (Counter, ls) \<Longrightarrow> val m1 n vs = val m n vs + increment n vs ev"
    using recordMetric_ok [of m ev] Cons.prems by auto
  then obtain m' where "recordAll pr evs m1 = Some m'" "descs m' = map_of metricsTable"
    "\<And>n ls vs. map_of metricsTable n = Some (Counter, ls) \<Longrightarrow> val m' n vs = val m1 n vs + sum_list (map (increment n vs) evs)"
    using Cons.IH [of m1] Cons.prems(2) by auto
  with m1 show ?case by (auto simp: add.assoc)
qed simp

end

section \<open>A reference registry\<close>

type_synonym registry = "metricDesc list \<times> ((string \<times> string list) \<times> real) list"

definition list_prom :: "registry prom" where
  "list_prom =
     \<lparr>prom_New = ([], []),
      prom_MustRegister = (\<lambda>(n, kl) (ds, ss). if map_of ds n \<noteq> None then None else Some ((n, kl) # ds, ss)),
      prom_Update = (\<lambda>n vs opn (ds, ss).
        case map_of ds n of
          Some (k, ls) \<Rightarrow>
            if length vs = length ls \<and> op_ok k opn
            then Some (ds, mput (n, vs) (op_effect opn (case map_of ss (n, vs) of None \<Rightarrow> 0 | Some x \<Rightarrow> x)) ss) else None
        | None \<Rightarrow> None),
      prom_Gather = (\<lambda>(ds, ss). Some (map (\<lambda>(n, k, ls).
        (n, map (\<lambda>((_, vs), x). (zip ls vs, case k of Counter \<Rightarrow> CounterSample x | Gauge \<Rightarrow> GaugeSample x | Histogram \<Rightarrow> OtherSample))
              (filter (\<lambda>((n', _), _). n' = n) ss))) ds))\<rparr>"

definition list_val :: "registry \<Rightarrow> string \<Rightarrow> string list \<Rightarrow> real" where
  "list_val m n vs = (case map_of (snd m) (n, vs) of None \<Rightarrow> 0 | Some x \<Rightarrow> x)"

lemma list_prom_Update:
  assumes "map_of (fst m) n = Some (k, ls)" and "length vs = length ls" and "op_ok k opn"
  shows "prom_Update list_prom n vs opn m = Some (fst m, mput (n, vs) (op_effect opn (list_val m n vs)) (snd m))"
  using assms by (cases m) (simp add: list_prom_def list_val_def)

interpretation lprom: prometheus list_prom "\<lambda>m. map_of (fst m)" list_val "\<lambda>_. True"
proof (unfold_locales, goal_cases)
  case (5 m n k ls vs opn)
  then show ?case by (simp add: list_prom_Update) (simp add: list_val_def)
qed (auto simp: list_prom_def list_val_def fun_eq_iff)

text \<open>
  C25. The metrics code never panics on its own account: \<open>NewMetrics\<close> registers all its metrics, no two of the same
  name, and after that every call of every metric method succeeds as long as its label values are valid,
  since it addresses a registered metric with exactly its labels and an operation of its kind. Over any sequence
  of calls each counter series then holds the sum of the increments addressed to it.
\<close>

theorem metrics_well_typed:
  assumes "prometheus pr descs val valid" and "\<forall>ev \<in> set evs. list_all valid (eventLabels ev)"
  shows "\<exists>m0 m. NewMetrics pr = Some m0 \<and> recordAll pr evs m0 = Some m \<and> descs m = map_of metricsTable \<and>
    (\<forall>n ls vs. map_of metricsTable n = Some (Counter, ls) \<longrightarrow> val m n vs = sum_list (map (increment n vs) evs))"
proof -
  obtain m0 where m0: "NewMetrics pr = Some m0" "descs m0 = map_of metricsTable" "val m0 = (\<lambda>_ _. 0)"
    using prometheus.NewMetrics_ok [OF assms(1)] by blast
  with prometheus.recordAll_ok [OF assms(1) m0(2) assms(2)] show ?thesis by auto
qed

theorem metrics_well_typed_witness:
  "\<exists>m0 m. NewMetrics list_prom = Some m0 \<and> recordAll list_prom [IncGRPCCheck, IncGRPCResponseCode ''OK'', IncGRPCCheck] m0 = Some m \<and>
     list_val m ''drl_grpc_check_total'' [] = 2"
proof -
  obtain m0 m where m: "NewMetrics list_prom = Some m0" "recordAll list_prom [IncGRPCCheck, IncGRPCResponseCode ''OK'', IncGRPCCheck] m0 = Some m"
    "\<And>n ls vs. map_of metricsTable n = Some (Counter, ls) \<Longrightarrow>
       list_val m n vs = sum_list (map (increment n vs) [IncGRPCCheck, IncGRPCResponseCode ''OK'', IncGRPCCheck])"
    using metrics_well_typed [OF lprom.prometheus_axioms, of "[IncGRPCCheck, IncGRPCResponseCode ''OK'', IncGRPCCheck]"]
    by (auto simp: list_all_iff)
  have "map_of metricsTable ''drl_grpc_check_total'' = Some (Counter, [])" by (simp add: metricsTable_def)
  from m(1,2) m(3) [OF this, of "[]"] show ?thesis by (intro exI [of _ m0] exI [of _ m]) (simp add: increment_def)
qed

end
