(* ===== verification/AdminApi.thy ===== *)
theory AdminApi
  imports Auth Cluster GrpcServer Metrics
begin

text \<open>
  Package \<open>internal/api\<close>: the administrative interface. Block, unblock and list (\<open>handlers_blocklist.go\<close>), bulk
  loading and statistics (\<open>handlers_accounting.go\<close>), status and configuration (\<open>handlers.go\<close>,
  \<open>handlers_config.go\<close>), the proxy between nodes (\<open>ui_handlers.go\<close>) and the server with its routes (\<open>api.go\<close>). A
  handler is a function of the parameters fiber extracts from the request; a response is its status and
  the value that is marshalled.
\<close>

section \<open>Parsing block requests\<close>

definition headerMarker :: string where "headerMarker = ''/_headers/''"
definition maxMaskedChars :: nat where "maxMaskedChars = 10"

datatype apiError =
    EmptyPath | MalformedPair string | EmptyKey string | InvalidTTL string
  | InvalidDistribution | LineParse nat | LineRequired nat | ReadError

text \<open>One pair of the loop in \<open>parseHeadersStr\<close>.\<close>

definition parsePair :: "string \<Rightarrow> apiError + (string \<times> string)" where
  "parsePair pair =
     (case SplitN2 (CHR '':'') pair of
        [k, v] \<Rightarrow> let key = TrimSpace k; val = TrimSpace v
                  in if key = '''' then Inl (EmptyKey pair) else Inr (key, val)
      | _ \<Rightarrow> Inl (MalformedPair pair))"

fun parsePairs :: "string list \<Rightarrow> strmap \<Rightarrow> apiError + strmap" where
  "parsePairs [] result = Inr result"
| "parsePairs (pair # ps) result =
     (case parsePair pair of Inl err \<Rightarrow> Inl err | Inr (key, val) \<Rightarrow> parsePairs ps (mput key val result))"

definition parseHeadersStr :: "string \<Rightarrow> apiError + strmap" where
  "parseHeadersStr s = (if s = '''' then Inr [] else parsePairs (Split (CHR '','') s) [])"

text \<open>The error for an empty path replaces one of the headers.\<close>

definition parseEntityFromWildcard :: "string \<Rightarrow> apiError + (string \<times> strmap)" where
  "parseEntityFromWildcard wildcard =
     (let (path, headers) =
            (case Index wildcard headerMarker of
               Some idx \<Rightarrow> (take idx wildcard, parseHeadersStr (drop (idx + length headerMarker) wildcard))
             | None \<Rightarrow> (wildcard, Inr []))
      in if path = '''' then Inl EmptyPath
         else case headers of Inl err \<Rightarrow> Inl err | Inr hs \<Rightarrow> Inr (path, hs))"

text \<open>\<open>strconv.Atoi\<close>: an optional sign and digits only, within 64 bits.\<close>

definition Atoi :: "string \<Rightarrow> int option" where
  "Atoi s =
     (let (neg, ds) = (case s of c # r \<Rightarrow> if c = CHR ''-'' then (True, r) else if c = CHR ''+'' then (False, r) else (False, s) | [] \<Rightarrow> (False, s));
          n = (if neg then - int (digitsVal ds) else int (digitsVal ds))
      in if ds = [] \<or> \<not> list_all digit ds \<or> n < - (2 ^ 63) \<or> 2 ^ 63 \<le> n then None else Some n)"

definition parseTTLQuery :: "string \<Rightarrow> duration \<Rightarrow> apiError + duration" where
  "parseTTLQuery raw fallback =
     (if raw = '''' then Inr fallback
      else case Atoi raw of
             None \<Rightarrow> Inl (InvalidTTL raw)
           | Some secs \<Rightarrow> if secs < 1 then Inl (InvalidTTL raw) else Inr (wrap64 (secs * Second)))"

section \<open>Blocklist handlers\<close>

record entityResponse =
  er_ID :: string
  er_IP :: string
  er_URIPath :: string
  er_Headers :: strmap
  er_Message :: string
  er_Errors :: "apiError list"

definition generateOperationID :: "gotime \<Rightarrow> string" where
  "generateOperationID now = dec_int now"

definition badEntity :: "gotime \<Rightarrow> apiError \<Rightarrow> int \<times> entityResponse" where
  "badEntity now err =
     (400, \<lparr>er_ID = generateOperationID now, er_IP = '''', er_URIPath = '''', er_Headers = [], er_Message = '''', er_Errors = [err]\<rparr>)"

text \<open>
  Adding an entity: its blocklist is the one the engine holds, and the event goes to the broadcaster in a
  goroutine of its own (a marshalling error there is only logged). The node always has both, see \<open>newApiServer\<close>.
\<close>

definition queued :: "clusterView option \<Rightarrow> ('w effect list \<times> channelManager option) option \<Rightarrow> 'w effect list \<times> channelManager option" where
  "queued cv r = (case r of None \<Rightarrow> ([], Option.bind cv cv_channels) | Some q \<Rightarrow> q)"

definition handleBlockEntityAdd ::
  "(string \<Rightarrow> uint64) \<Rightarrow> 'b bl_ops \<Rightarrow> ('z drlMessage \<Rightarrow> 'w list option) \<Rightarrow> clusterView option \<Rightarrow> gotime \<Rightarrow> duration \<Rightarrow>
   string \<Rightarrow> string \<Rightarrow> string \<Rightarrow> 'b blocklistCache \<Rightarrow> (int \<times> entityResponse) \<times> 'b blocklistCache \<times> 'w effect list \<times> channelManager option" where
  "handleBlockEntityAdd xx ot marshal cv now defaultBlockTTL ip wildcard ttlQuery b =
     (case parseEntityFromWildcard wildcard of
        Inl err \<Rightarrow> (badEntity now err, b, [], Option.bind cv cv_channels)
      | Inr (path, headers) \<Rightarrow>
          (case parseTTLQuery ttlQuery defaultBlockTTL of
             Inl err \<Rightarrow> (badEntity now err, b, [], Option.bind cv cv_channels)
           | Inr ttl \<Rightarrow>
               let entity = \<lparr>IP = ip, Path = path, Headers = headers\<rparr>; key = Key xx entity
               in ((200, \<lparr>er_ID = generateOperationID now, er_IP = ip, er_URIPath = path, er_Headers = headers,
                          er_Message = ''Entity added to blocklist'', er_Errors = []\<rparr>),
                   Block ot now key ttl (Some entity) b,
                   queued cv (QueueBlockEvent marshal cv now key ttl (Some entity)))))"

definition handleBlockEntityDelete ::
  "(string \<Rightarrow> uint64) \<Rightarrow> 'b bl_ops \<Rightarrow> ('z drlMessage \<Rightarrow> 'w list option) \<Rightarrow> clusterView option \<Rightarrow> gotime \<Rightarrow>
   string \<Rightarrow> string \<Rightarrow> 'b blocklistCache \<Rightarrow> (int \<times> entityResponse) \<times> 'b blocklistCache \<times> 'w effect list \<times> channelManager option" where
  "handleBlockEntityDelete xx ot marshal cv now ip wildcard b =
     (case parseEntityFromWildcard wildcard of
        Inl err \<Rightarrow> (badEntity now err, b, [], Option.bind cv cv_channels)
      | Inr (path, headers) \<Rightarrow>
          let entity = \<lparr>IP = ip, Path = path, Headers = headers\<rparr>; key = Key xx entity
          in ((200, \<lparr>er_ID = generateOperationID now, er_IP = ip, er_URIPath = path, er_Headers = headers,
                     er_Message = ''Entity removed from blocklist'', er_Errors = []\<rparr>),
              Unblock ot now key b,
              queued cv (QueueUnblockEvent marshal cv key)))"

text \<open>\<open>maskHeader\<close>: \<open>group1 expr v\<close> is the extent of the first group, when the expression has one and it takes part in the match.\<close>

definition maskHeader :: "('e \<Rightarrow> string \<Rightarrow> (nat \<times> nat) option) \<Rightarrow> string \<Rightarrow> 'e \<Rightarrow> string" where
  "maskHeader group1 headerValue expr =
     (case group1 expr headerValue of
        None \<Rightarrow> headerValue
      | Some (g1Start, g1End) \<Rightarrow>
          let rest = length headerValue - g1End;
              (endRepeat, threeDots) = (if maxMaskedChars < rest then (maxMaskedChars, ''...'') else (rest, ''''))
          in replicate g1Start (CHR ''*'') @ drop g1Start (take g1End headerValue) @ replicate endRepeat (CHR ''*'') @ threeDots)"

record blockedEntityEntry =
  bee_ID :: string
  bee_IP :: string
  bee_URIPath :: string
  bee_Headers :: strmap
  bee_ExpiresAt :: gotime

definition redactHeaders :: "('e \<Rightarrow> string \<Rightarrow> (nat \<times> nat) option) \<Rightarrow> (string \<times> 'e) list \<Rightarrow> strmap \<Rightarrow> strmap" where
  "redactHeaders group1 redactions headers =
     map (\<lambda>(k, v). (k, case map_of redactions (ToLower k) of Some expr \<Rightarrow> maskHeader group1 v expr | None \<Rightarrow> v)) headers"

text \<open>The expiry is written in RFC 3339; the model keeps the time itself.\<close>

definition handleBlockEntityList ::
  "('e \<Rightarrow> string \<Rightarrow> (nat \<times> nat) option) \<Rightarrow> 'b bl_ops \<Rightarrow> (string \<times> 'e) list \<Rightarrow> gotime \<Rightarrow> 'b blocklistCache \<Rightarrow> int \<times> blockedEntityEntry list" where
  "handleBlockEntityList group1 ot redactions now b =
     (200, map (\<lambda>e. case bei_Entity e of
                       None \<Rightarrow> \<lparr>bee_ID = bei_Key e, bee_IP = '''', bee_URIPath = '''', bee_Headers = [], bee_ExpiresAt = bei_ExpiresAt e\<rparr>
                     | Some en \<Rightarrow> \<lparr>bee_ID = bei_Key e, bee_IP = IP en, bee_URIPath = Path en,
                                    bee_Headers = redactHeaders group1 redactions (Headers en), bee_ExpiresAt = bei_ExpiresAt e\<rparr>)
              (ListEntries ot now b))"

section \<open>Bulk loading\<close>

definition maxBulkLoadParseErrors :: nat where "maxBulkLoadParseErrors = 20"
definition maxBulkLoadDroppedLogged :: nat where "maxBulkLoadDroppedLogged = 10"
definition bulkLoadScannerMaxLine :: nat where "bulkLoadScannerMaxLine = 1024 * 1024"

text \<open>
  \<open>bufio.Scanner\<close> with its line splitter: lines end at a newline, a carriage return before it is dropped, a
  last line needs no newline; a line that does not fit the buffer ends the scan with an error.
\<close>

definition dropCR :: "string \<Rightarrow> string" where
  "dropCR l = TrimSuffix l [CHR 0x0D]"

definition rawLines :: "string \<Rightarrow> string list" where
  "rawLines body = (let ls = Split (CHR 0x0A) body in if last ls = '''' then butlast ls else ls)"

definition scanLines :: "string \<Rightarrow> string list \<times> bool" where
  "scanLines body =
     (let ls = rawLines body; fits = (\<lambda>l. length l < bulkLoadScannerMaxLine)
      in (map dropCR (takeWhile fits ls), list_all fits ls))"

record bulkLoadLine =
  bl_SourceIP :: string
  bl_Path :: string
  bl_Headers :: strmap

record bulkLoadResponse =
  br_ID :: string
  br_Total :: nat
  br_AcceptedLocal :: nat
  br_AcceptedRemote :: nat
  br_Dropped :: nat
  br_NoMatch :: nat
  br_Invalid :: nat
  br_Errors :: "apiError list"

definition invalidLine :: "apiError \<Rightarrow> bulkLoadResponse \<Rightarrow> bulkLoadResponse" where
  "invalidLine err r =
     r\<lparr>br_Total := br_Total r + 1, br_Invalid := br_Invalid r + 1,
       br_Errors := (if length (br_Errors r) < maxBulkLoadParseErrors then br_Errors r @ [err] else br_Errors r)\<rparr>"

definition countOutcome :: "bulkResult \<Rightarrow> bulkLoadResponse \<Rightarrow> bulkLoadResponse" where
  "countOutcome outcome r =
     (case outcome of
        BulkLoadAcceptedLocal \<Rightarrow> r\<lparr>br_AcceptedLocal := br_AcceptedLocal r + 1\<rparr>
      | BulkLoadAcceptedRemote \<Rightarrow> r\<lparr>br_AcceptedRemote := br_AcceptedRemote r + 1\<rparr>
      | BulkLoadDropped \<Rightarrow> r\<lparr>br_Dropped := br_Dropped r + 1\<rparr>
      | BulkLoadNoMatch \<Rightarrow> r\<lparr>br_NoMatch := br_NoMatch r + 1\<rparr>)"

text \<open>
  The loop over the lines; \<open>unmarshal\<close> stands for \<open>encoding/json\<close>. The sample of dropped keys is kept for the
  log line. \<open>None\<close> as result would be a call of the engine that does not return.
\<close>

fun loadLines ::
  "('t, 'c, 'r, 'b, 'z, 'w) env \<Rightarrow> (string \<Rightarrow> bulkLoadLine option) \<Rightarrow> gotime \<Rightarrow> bool \<Rightarrow> nat \<Rightarrow> string list \<Rightarrow>
   bulkLoadResponse \<times> string list \<times> ('t, 'c, 'r, 'b) engine \<times> 'w effect list \<Rightarrow>
   (bulkLoadResponse \<times> string list \<times> ('t, 'c, 'r, 'b) engine \<times> 'w effect list) option" where
  "loadLines v unmarshal now distr lineNo [] st = Some st"
| "loadLines v unmarshal now distr lineNo (line # ls) (resp, sample, e, out) =
     (let raw = TrimSpace line; lineNo' = lineNo + 1; next = loadLines v unmarshal now distr lineNo' ls
      in if raw = '''' then next (resp, sample, e, out)
         else case unmarshal raw of
                None \<Rightarrow> next (invalidLine (LineParse lineNo') resp, sample, e, out @ [Metric (IncAccountingBulkLoad ''invalid'')])
              | Some rec \<Rightarrow>
                  if bl_SourceIP rec = '''' \<or> bl_Path rec = ''''
                  then next (invalidLine (LineRequired lineNo') resp, sample, e, out @ [Metric (IncAccountingBulkLoad ''invalid'')])
                  else case BulkLoad v now (bl_SourceIP rec) (bl_Path rec) (bl_Headers rec) distr e of
                         None \<Rightarrow> None
                       | Some (outcome, e', out') \<Rightarrow>
                           next (countOutcome outcome (resp\<lparr>br_Total := br_Total resp + 1\<rparr>),
                                 (if outcome = BulkLoadDropped \<and> length sample < maxBulkLoadDroppedLogged
                                  then sample @ [bl_SourceIP rec @ bl_Path rec] else sample),
                                 e', out @ out'))"

definition newBulkResponse :: "gotime \<Rightarrow> bulkLoadResponse" where
  "newBulkResponse now =
     \<lparr>br_ID = generateOperationID now, br_Total = 0, br_AcceptedLocal = 0, br_AcceptedRemote = 0, br_Dropped = 0,
      br_NoMatch = 0, br_Invalid = 0, br_Errors = []\<rparr>"

definition handleAccountingLoad ::
  "('t, 'c, 'r, 'b, 'z, 'w) env \<Rightarrow> (string \<Rightarrow> bulkLoadLine option) \<Rightarrow> gotime \<Rightarrow> string \<Rightarrow> string \<Rightarrow> ('t, 'c, 'r, 'b) engine \<Rightarrow>
   ((int \<times> bulkLoadResponse) \<times> ('t, 'c, 'r, 'b) engine \<times> 'w effect list) option" where
  "handleAccountingLoad v unmarshal now distributionEnabled body e =
     (if distributionEnabled \<notin> set [''true'', ''1'', '''', ''false'', ''0'']
      then Some ((400, (newBulkResponse now)\<lparr>br_Errors := [InvalidDistribution]\<rparr>), e, [])
      else let (ls, complete) = scanLines body
           in map_option (\<lambda>(resp, _, e', out).
                  ((200, if complete then resp else resp\<lparr>br_Errors := br_Errors resp @ [ReadError]\<rparr>), e', out))
                (loadLines v unmarshal now (distributionEnabled \<in> set [''true'', ''1'']) 0 ls (newBulkResponse now, [], e, [])))"

record accountingStatsResponse =
  ar_LocalNodeID :: string
  ar_MonitoredEntitiesCount :: int64
  ar_BatchedUpdatesPending :: int
  ar_EstimatedEntitiesCount :: nat

text \<open>\<open>None\<close> is the nil flusher, see \<open>PendingUpdates\<close>.\<close>

definition handleAccountingStats ::
  "('t, 'c, 'r, 'b, 'z, 'w) env \<Rightarrow> string \<Rightarrow> ('t, 'c, 'r, 'b) engine \<Rightarrow> accountingStatsResponse option" where
  "handleAccountingStats v nodeID e =
     map_option (\<lambda>pending. \<lparr>ar_LocalNodeID = nodeID, ar_MonitoredEntitiesCount = TrackedEntities e,
                            ar_BatchedUpdatesPending = pending, ar_EstimatedEntitiesCount = EstimatedEntities v e\<rparr>)
       (PendingUpdates e)"

section \<open>Status, configuration and the proxy between nodes\<close>

record statusResponse =
  sr_ClusterName :: string
  sr_NodeID :: string
  sr_Version :: string
  sr_ActivePeers :: "string list"
  sr_ActivePeerAddresses :: "string list"
  sr_Uptime :: duration

text \<open>
  The server's own fields; the components it serves (cluster, blocklist, engine, broadcaster) are arguments of the
  handlers.
\<close>

record ('p, 'e) apiServer =
  as_auth :: digestAuthenticator
  as_uiAuth :: "'p uiAuthManager"
  as_address :: string
  as_apiPort :: string
  as_clusterName :: string
  as_nodeID :: string
  as_version :: string
  as_startTime :: gotime
  as_blocklistHeaderRedactions :: "(string \<times> 'e) list"
  as_defaultBlockTTL :: duration
  as_bulkLoader :: bool

definition handleStatus :: "gotime \<Rightarrow> ('p, 'e) apiServer \<Rightarrow> ('b, 'c, 'r) cluster \<Rightarrow> statusResponse" where
  "handleStatus now s c =
     \<lparr>sr_ClusterName = as_clusterName s, sr_NodeID = as_nodeID s, sr_Version = as_version s, sr_ActivePeers = MemberNames c,
      sr_ActivePeerAddresses =
        (if as_apiPort s \<noteq> ''''
         then map (\<lambda>addr. addr @ '':'' @ as_apiPort s) (filter (\<lambda>addr. addr \<noteq> LocalAddr c) (MemberAddrs c)) else []),
      sr_Uptime = now - as_startTime s\<rparr>"

datatype configSection =
    SecAccounting accountingSettings "(string \<times> accountingRule) list"
  | SecMembership membershipConfig | SecCache cacheConfig | SecListen listenConfig | SecLogging loggingConfig
  | SecInternalAPI internalAPIConfig | SecEmbeddedProxy embeddedProxyConfig

definition GetConfigSection :: "string \<Rightarrow> config \<Rightarrow> configSection option" where
  "GetConfigSection section c =
     (let s = ToLower section
      in if s = ''accounting'' then Some (SecAccounting (Settings c) (Rules c))
         else if s = ''membership'' then Some (SecMembership (Membership c))
         else if s = ''cache'' then Some (SecCache (Cache c))
         else if s = ''listen'' then Some (SecListen (Listen c))
         else if s = ''logging'' then Some (SecLogging (Logging c))
         else if s = ''internal-api'' then Some (SecInternalAPI (InternalAPI c))
         else if s = ''embedded-proxy'' then Some (SecEmbeddedProxy (EmbeddedProxy c))
         else None)"

definition handleGetStaticConfig :: "string \<Rightarrow> config \<Rightarrow> int + configSection" where
  "handleGetStaticConfig section c =
     (if section = '''' then Inl 400
      else case GetConfigSection section c of None \<Rightarrow> Inl 404 | Some d \<Rightarrow> Inr d)"

text \<open>\<open>url.PathUnescape\<close>: \<open>None\<close> for a percent sign without two hexadecimal digits.\<close>

fun PathUnescape :: "string \<Rightarrow> string option" where
  "PathUnescape [] = Some []"
| "PathUnescape (c # s) =
     (if c \<noteq> CHR ''%'' then map_option (Cons c) (PathUnescape s)
      else case s of
             a # b # t \<Rightarrow>
               (case (hexval a, hexval b) of
                  (Some x, Some y) \<Rightarrow> map_option (Cons (char_of (x * 16 + y))) (PathUnescape t)
                | _ \<Rightarrow> None)
           | _ \<Rightarrow> None)"

text \<open>
  \<open>handleUIProxy\<close>: \<open>parseURL\<close> says whether \<open>http.NewRequest\<close> accepts the target, \<open>fetch\<close> is the GET with the given
  Authorization header, \<open>None\<close> when the peer is unreachable or its body cannot be read.
\<close>

definition proxiable :: "string list" where
  "proxiable = [''v1/ui/api/'', ''v1/status'', ''v1/accounting/'']"

definition handleUIProxy ::
  "(string \<Rightarrow> bool) \<Rightarrow> (string \<Rightarrow> string \<Rightarrow> (int \<times> string) option) \<Rightarrow> string \<Rightarrow> string \<Rightarrow> string \<Rightarrow> int \<times> string" where
  "handleUIProxy parseURL fetch auth rawAddr endpoint =
     (if rawAddr = '''' then (400, '''')
      else case PathUnescape rawAddr of
             None \<Rightarrow> (400, '''')
           | Some nodeAddr \<Rightarrow>
               if nodeAddr = '''' then (400, '''')
               else if endpoint = '''' then (400, '''')
               else if \<not> list_ex (HasPrefix endpoint) proxiable then (403, '''')
               else if Contains nodeAddr ''..'' \<or> Contains nodeAddr ''//'' then (400, '''')
               else let target = ''http://'' @ nodeAddr @ ''/'' @ endpoint
                    in if \<not> parseURL target then (500, '''')
                       else case fetch target auth of
                              None \<Rightarrow> (502, '''')
                            | Some (status, body) \<Rightarrow> (status, take (2 ^ 20) body))"

text \<open>\<open>handleUIMetrics\<close> (its time stamp is the time itself) and \<open>handleUIGetToken\<close>.\<close>

record uiMetricsResponse =
  um_NodeID :: string
  um_Timestamp :: gotime
  um_Metrics :: "(string \<times> real) list"

definition handleUIMetrics :: "'m prom \<Rightarrow> gotime \<Rightarrow> 'm \<Rightarrow> ('p, 'e) apiServer \<Rightarrow> uiMetricsResponse" where
  "handleUIMetrics pr now m s = \<lparr>um_NodeID = as_nodeID s, um_Timestamp = now, um_Metrics = GatherForUI pr m\<rparr>"

definition handleUIGetToken :: "(string \<Rightarrow> string \<Rightarrow> string) \<Rightarrow> gotime \<Rightarrow> string \<Rightarrow> ('p, 'e) apiServer \<Rightarrow> string" where
  "handleUIGetToken hmac now nonce s = GenerateBootstrapToken hmac now nonce (as_uiAuth s)"

section \<open>The server\<close>

text \<open>\<open>ServerConfig\<close>: the values; the components it names are passed to the handlers.\<close>

record 'e serverConfig =
  sc_Address :: string
  sc_APIKey :: string
  sc_ClusterName :: string
  sc_NodeID :: string
  sc_Version :: string
  sc_BlocklistHeaderRedactions :: "(string \<times> 'e) list"
  sc_DefaultBlockTTL :: duration
  sc_BulkLoader :: bool

datatype serverError = EAuthenticator | EUIAuth

definition NewServer ::
  "(string \<Rightarrow> string) \<Rightarrow> (string \<Rightarrow> string \<Rightarrow> string) \<Rightarrow> 'p option \<Rightarrow> gotime \<Rightarrow> 'e serverConfig \<Rightarrow> serverError + ('p, 'e) apiServer" where
  "NewServer sha hmac generateKey now cfg =
     (case NewDigestAuthenticator sha (sc_APIKey cfg) of
        None \<Rightarrow> Inl EAuthenticator
      | Some auth \<Rightarrow>
          (case newUIAuthManager hmac generateKey (sc_APIKey cfg) of
             None \<Rightarrow> Inl EUIAuth
           | Some uiAuth \<Rightarrow>
               Inr \<lparr>as_auth = auth, as_uiAuth = uiAuth, as_address = sc_Address cfg,
                    as_apiPort = (case split_last (CHR '':'') (sc_Address cfg) of Some (_, port) \<Rightarrow> port | None \<Rightarrow> sc_Address cfg),
                    as_clusterName = sc_ClusterName cfg, as_nodeID = sc_NodeID cfg, as_version = sc_Version cfg, as_startTime = now,
                    as_blocklistHeaderRedactions = fold (\<lambda>(k, x) m. mput (ToLower k) x m) (sc_BlocklistHeaderRedactions cfg) [],
                    as_defaultBlockTTL = (if sc_DefaultBlockTTL cfg = 0 then 24 * 60 * Minute else sc_DefaultBlockTTL cfg),
                    as_bulkLoader = sc_BulkLoader cfg\<rparr>))"

text \<open>The routes with the middlewares in front of each handler.\<close>

datatype guard = NoGuard | DigestOnly | EncryptedDual

definition setupRoutes :: "('p, 'e) apiServer \<Rightarrow> (string \<times> string \<times> guard) list" where
  "setupRoutes s =
     [(''USE'', ''/v1/apidocs'', NoGuard), (''GET'', ''/v1/swagger.json'', NoGuard),
      (''GET'', ''/v1/ui'', NoGuard), (''GET'', ''/v1/ui/'', NoGuard),
      (''GET'', ''/v1/ui/get-token'', DigestOnly), (''POST'', ''/v1/ui/exchange'', NoGuard),
      (''GET'', ''/v1/ui/api/metrics'', EncryptedDual), (''GET'', ''/v1/ui/proxy/:nodeAddr/*'', EncryptedDual),
      (''GET'', ''/v1/status'', EncryptedDual), (''GET'', ''/v1/blocked-entity'', EncryptedDual),
      (''POST'', ''/v1/blocked-entity/:ip/_path/*'', EncryptedDual), (''DELETE'', ''/v1/blocked-entity/:ip/_path/*'', EncryptedDual),
      (''GET'', ''/v1/accounting/stats'', EncryptedDual)] @
     (if as_bulkLoader s then [(''POST'', ''/v1/accounting/load'', EncryptedDual)] else []) @
     [(''GET'', ''/v1/configuration/static/:section'', EncryptedDual)]"

text \<open>
  A request behind \<open>encMW, authMW\<close>: \<open>handler\<close> gives the response and the new state of what it operates on. The
  first two random strings are the nonces of a challenge and of the encryption.
\<close>

definition errorBody :: "string \<Rightarrow> string" where
  "errorBody msg = ''{'' @ [CHR 0x22] @ ''error'' @ [CHR 0x22, CHR '':'', CHR 0x22] @ msg @ [CHR 0x22] @ ''}''"

definition guarded ::
  "(string \<Rightarrow> string) \<Rightarrow> (string \<Rightarrow> string \<Rightarrow> string) \<Rightarrow> (string \<Rightarrow> string \<Rightarrow> string \<Rightarrow> string option) \<Rightarrow> gotime \<Rightarrow> string \<Rightarrow> string option \<Rightarrow>
   string \<Rightarrow> string \<Rightarrow> ('s \<Rightarrow> (int \<times> string) \<times> 's) \<Rightarrow> ('p, 'e) apiServer \<Rightarrow> 's \<Rightarrow> (int \<times> string) \<times> ('p, 'e) apiServer \<times> 's" where
  "guarded sha hmac seal now fresh nonce auth meth handler s st =
     (case dualAuthMiddleware sha hmac now fresh auth meth (as_uiAuth s) (as_auth s) of
        (Next, a) \<Rightarrow>
          (case handler st of (resp, st') \<Rightarrow>
             (encryptedResponseMiddleware hmac seal now nonce auth (as_uiAuth s) resp, s\<lparr>as_auth := a\<rparr>, st'))
      | (InvalidSession, a) \<Rightarrow> ((401, errorBody ''invalid or expired DRL session''), s\<lparr>as_auth := a\<rparr>, st)
      | (Challenge _, a) \<Rightarrow> ((401, errorBody ''Authentication required''), s\<lparr>as_auth := a\<rparr>, st))"

section \<open>A bulk load accounts for every line\<close>

definition bulkCount :: "string \<Rightarrow> 'w effect list \<Rightarrow> nat" where
  "bulkCount l out = length (filter (\<lambda>x. case x of Metric (IncAccountingBulkLoad l') \<Rightarrow> l' = l | _ \<Rightarrow> False) out)"

lemma bulkCount_append [simp]: "bulkCount l (xs @ ys) = bulkCount l xs + bulkCount l ys"
  by (simp add: bulkCount_def)

lemma bulkCount_Nil [simp]: "bulkCount l [] = 0"
  by (simp add: bulkCount_def)

lemma bulkCount_metric [simp]: "bulkCount l [Metric (IncAccountingBulkLoad l')] = (if l' = l then 1 else 0)"
  by (simp add: bulkCount_def)

lemma bulkCount_Enqueue: "bulkCount l (snd (fst (Enqueue marshal send now addr h n a f))) = 0"
  by (auto simp: bulkCount_def Enqueue_def flushNode_def Let_def split: option.split prod.split)

lemma BulkLoad_returns:
  assumes "radix_tree (e_rx v) contents"
  shows "\<exists>r e' out. BulkLoad v now ip path hs distr e = Some (r, e', out) \<and> en_blocklist e' = en_blocklist e \<and>
    en_limiter e' = en_limiter e \<and> (\<forall>l. bulkCount l out = (if l = bulkLabel r then 1 else 0))"
proof -
  have "resolveEntity v ip path hs e \<noteq> None"
    using matchRule_returns [OF assms, of "en_rules e" path] by (simp add: resolveEntity_def Let_def split: option.split)
  then obtain o1 where o1: "resolveEntity v ip path hs e = Some o1" by blast
  show ?thesis
  proof (cases o1)
    case None
    with o1 show ?thesis by (simp add: BulkLoad_def)
  next
    case (Some x)
    obtain rule ent h k where x: "x = (rule, ent, h, k)" by (metis prod.exhaust)
    note res = o1 [unfolded Some x]
    show ?thesis
    proof (cases "IsOwner (e_rg v) k (en_accounting e) \<or> \<not> distr \<or> en_flusher e = None")
      case True
      with res show ?thesis by (auto simp: BulkLoad_def Let_def bulkCount_def)
    next
      case False
      then obtain f where f: "en_flusher e = Some f" by auto
      obtain f' o2 a where q: "Enqueue (e_marshal v) (e_send v) now (GetOwner (e_rg v) k (en_accounting e)) h 1
          (en_accounting e) f = ((f', o2), a)" by (metis prod.exhaust)
      then have "bulkCount l o2 = 0" for l
        using bulkCount_Enqueue [of l "e_marshal v" "e_send v" now "GetOwner (e_rg v) k (en_accounting e)" h 1 "en_accounting e" f] by simp
      with q f res False show ?thesis
        by (auto simp: BulkLoad_def Let_def bulkCount_def)
    qed
  qed
qed

text \<open>What the response says so far, against the lines read and the metric events.\<close>

definition tally :: "nat \<Rightarrow> bulkLoadResponse \<Rightarrow> 'w effect list \<Rightarrow> bool" where
  "tally n r out \<longleftrightarrow>
     br_Total r = n \<and>
     br_Total r = br_AcceptedLocal r + br_AcceptedRemote r + br_Dropped r + br_NoMatch r + br_Invalid r \<and>
     bulkCount ''accepted_local'' out = br_AcceptedLocal r \<and> bulkCount ''accepted_remote'' out = br_AcceptedRemote r \<and>
     bulkCount ''dropped'' out = br_Dropped r \<and> bulkCount ''no_match'' out = br_NoMatch r \<and>
     bulkCount ''invalid'' out = br_Invalid r \<and> length (br_Errors r) \<le> min maxBulkLoadParseErrors (br_Invalid r)"

lemma tally_invalid:
  "tally n r out \<Longrightarrow> tally (Suc n) (invalidLine err r) (out @ [Metric (IncAccountingBulkLoad ''invalid'')])"
  by (auto simp: tally_def invalidLine_def)

lemma tally_outcome:
  assumes "tally n r out" and "\<forall>l. bulkCount l out' = (if l = bulkLabel oc then 1 else 0)"
  shows "tally (Suc n) (countOutcome oc (r\<lparr>br_Total := br_Total r + 1\<rparr>)) (out @ out')"
  using assms by (cases oc) (simp_all add: tally_def countOutcome_def)

abbreviation nonblank :: "string list \<Rightarrow> nat" where
  "nonblank ls \<equiv> length (filter (\<lambda>l. TrimSpace l \<noteq> '''') ls)"

lemma loadLines_returns:
  assumes "radix_tree (e_rx v) contents" and "tally n resp out"
  shows "\<exists>resp' sample' e' out'. loadLines v unmarshal now distr lineNo ls (resp, sample, e, out) = Some (resp', sample', e', out') \<and>
    tally (n + nonblank ls) resp' out' \<and> en_blocklist e' = en_blocklist e \<and> en_limiter e' = en_limiter e"
  using assms(2)
proof (induction ls arbitrary: n lineNo resp sample e out)
  case (Cons line ls)
  show ?case
  proof (cases "TrimSpace line = ''''")
    case True
    with Cons show ?thesis by (simp add: Let_def)
  next
    case nb: False
    note bad = Cons.IH [OF tally_invalid [OF Cons.prems]]
    show ?thesis
    proof (cases "unmarshal (TrimSpace line)")
      case None
      with bad nb show ?thesis by (simp add: Let_def)
    next
      case (Some rec)
      obtain r e1 o1 where b: "BulkLoad v now (bl_SourceIP rec) (bl_Path rec) (bl_Headers rec) distr e = Some (r, e1, o1)"
        "en_blocklist e1 = en_blocklist e" "en_limiter e1 = en_limiter e" "\<forall>l. bulkCount l o1 = (if l = bulkLabel r then 1 else 0)"
        using BulkLoad_returns [OF assms(1)] by metis
      note good = Cons.IH [OF tally_outcome [OF Cons.prems b(4)], where e = e1]
      show ?thesis using bad good b(1-3) nb Some
        by (cases "bl_SourceIP rec = '''' \<or> bl_Path rec = ''''") (simp_all add: Let_def)
    qed
  qed
qed simp

text \<open>
  C24. A bulk load accounts for every line. With a valid \<open>distributionEnabled\<close> the handler answers 200; the total is the
  number of non-blank lines read, it is the sum of the five outcomes, each outcome's metric moved by exactly
  the number reported, at most twenty parse errors are echoed (and one read error), and neither blocklist
  nor limiter changed.
\<close>

theorem bulk_load_accounts:
  assumes "radix_tree (e_rx v) contents" and "distr \<in> {''true'', ''1'', '''', ''false'', ''0''}"
  shows "\<exists>resp e' out. handleAccountingLoad v unmarshal now distr body e = Some ((200, resp), e', out) \<and>
    br_Total resp = nonblank (fst (scanLines body)) \<and>
    br_Total resp = br_AcceptedLocal resp + br_AcceptedRemote resp + br_Dropped resp + br_NoMatch resp + br_Invalid resp \<and>
    bulkCount ''accepted_local'' out = br_AcceptedLocal resp \<and> bulkCount ''accepted_remote'' out = br_AcceptedRemote resp \<and>
    bulkCount ''dropped'' out = br_Dropped resp \<and> bulkCount ''no_match'' out = br_NoMatch resp \<and> bulkCount ''invalid'' out = br_Invalid resp \<and>
    length (br_Errors resp) \<le> (if snd (scanLines body) then 20 else 21) \<and>
    en_blocklist e' = en_blocklist e \<and> en_limiter e' = en_limiter e"
proof -
  have "tally 0 (newBulkResponse now) []" by (simp add: tally_def newBulkResponse_def)
  from loadLines_returns [OF assms(1) this, of unmarshal now "distr \<in> set [''true'', ''1'']" 0 "fst (scanLines body)" "[]" e]
  obtain resp sample e' out where "loadLines v unmarshal now (distr \<in> set [''true'', ''1'']) 0 (fst (scanLines body)) (newBulkResponse now, [], e, []) =
      Some (resp, sample, e', out)" "tally (nonblank (fst (scanLines body))) resp out" "en_blocklist e' = en_blocklist e" "en_limiter e' = en_limiter e"
    by auto
  then show ?thesis
    using assms(2) by (auto simp: handleAccountingLoad_def tally_def maxBulkLoadParseErrors_def split: prod.split)
qed

theorem bulk_load_accounts_witness:
  "\<exists>resp e' out. handleAccountingLoad demo_env (\<lambda>_. None) 5 ''1'' (''a'' @ CHR 0x0A # CHR 0x0A # ''b'') (demo_engine 0 (emptyAccounting ''n1'' [''n1''])) =
     Some ((200, resp), e', out) \<and> br_Total resp = 2"
proof -
  have "nonblank (fst (scanLines (''a'' @ CHR 0x0A # CHR 0x0A # ''b''))) = 2"
    by (simp add: scanLines_def rawLines_def dropCR_def bulkLoadScannerMaxLine_def TrimSuffix_def HasSuffix_def HasPrefix_def TrimSpace_def is_space_def)
  moreover have "radix_tree (e_rx demo_env) map_of" by (simp add: demo_env_def lradix.radix_tree_axioms)
  moreover note bulk_load_accounts [OF this, of "''1''" "\<lambda>_. None" 5 "''a'' @ CHR 0x0A # CHR 0x0A # ''b''" "demo_engine 0 (emptyAccounting ''n1'' [''n1''])"]
  ultimately show ?thesis by simp blast
qed

section \<open>Administrative blocks\<close>

lemma canonical_head:
  assumes "CHR ''|'' \<notin> set (IP a)" and "CHR ''|'' \<notin> set (IP b)" and "Path a \<noteq> ''''" and "Path b \<noteq> ''''" and "entityCanonical a = entityCanonical b"
  shows "IP a = IP b \<and> hd (Path a) = hd (Path b)"
proof -
  obtain xs ys where c: "IP a @ CHR ''|'' # Path a @ xs = IP b @ CHR ''|'' # Path b @ ys"
    using assms(5) by (auto simp: entityCanonical_def)
  then have "IP a = IP b" using assms(1,2) by (metis split_list_first SplitN2_sep list.inject)
  with c have "Path a @ xs = Path b @ ys" by simp
  then have "hd (Path a @ xs) = hd (Path b @ ys)" by simp
  with \<open>IP a = IP b\<close> assms(3,4) show ?thesis by simp
qed

lemma rule_in_config:
  assumes "radix_tree rx contents" and "distinct (map (\<lambda>(_, r). PathPrefix r) rules)" and "matchRuleV2 rx (createPathRadixTree rx rules) path = Some (Some w)"
  shows "rn_Rule w \<in> snd ` set rules"
proof -
  obtain p where "contents (createPathRadixTree rx rules) p = Some w"
    using radix_tree.matchLoop_eq [OF assms(1), of path path "createPathRadixTree rx rules"] assms(3) by (auto simp: matchRuleV2_def longestUnder_def)
  then show ?thesis using contents_rules [OF assms(1,2)] by force
qed

lemma Check_other_key:
  assumes "requestParts req = (sip, p, hs)" and "BuildEntityKey v sip p hs e = Some key"
    and "key \<noteq> '''' \<Longrightarrow> blocked_until (e_bl v) t key b' = blocked_until (e_bl v) t key (en_blocklist e)"
  shows "map_option fst (Check v t t' req (e\<lparr>en_blocklist := b'\<rparr>)) = map_option fst (Check v t t' req e)"
proof -
  have "BuildEntityKey v sip p hs (e\<lparr>en_blocklist := b'\<rparr>) = Some key" using assms(2) by (simp add: BuildEntityKey_def cong: option.case_cong)
  from Check_cases [OF assms(1) this, of t t'] Check_cases [OF assms(1,2), of t t'] assms(3)
  show ?thesis by (cases "key = ''''") (auto simp: Let_def split: option.split)
qed

text \<open>
  A block entered the way the documentation shows it, \<open>/v1/blocked-entity/192.168.1.10/_path/api/v1/payments\<close>, never
  affects traffic. The handler reports success, but the path it stores has no leading slash, while the entities
  of requests carry the path prefix of their rule, which starts with one: the keys differ (unless the
  hash function collides on the stored entity), so every request is answered as before.
\<close>

theorem admin_block_misses:
  assumes rx: "radix_tree (e_rx v) contents" and bl: "otter_cache (e_bl v) stored room" and rm: "room (Suc n) (bc_cache (en_blocklist e))"
    and "parseEntityFromWildcard wildcard = Inr (path, headers)" and "hd path \<noteq> CHR ''/''" and "parseTTLQuery ttlQuery fallback = Inr ttl"
    and "en_rules e = createPathRadixTree (e_rx v) rules" and "distinct (map (\<lambda>(_, r). PathPrefix r) rules)"
    and slash: "\<forall>(_, r) \<in> set rules. HasPrefix (PathPrefix r) ''/''"
    and "requestParts req = (sip, p, hs)" and "CHR ''|'' \<notin> set ip" and "CHR ''|'' \<notin> set (extractSourceIP sip hs (en_settings e))"
    and hash: "\<forall>c. c \<noteq> entityCanonical \<lparr>IP = ip, Path = path, Headers = headers\<rparr> \<longrightarrow>
                e_xx v c \<noteq> e_xx v (entityCanonical \<lparr>IP = ip, Path = path, Headers = headers\<rparr>)"
    and "now \<le> t"
    and add: "handleBlockEntityAdd (e_xx v) (e_bl v) (e_marshal v) cv now fallback ip wildcard ttlQuery (en_blocklist e) = (resp, b', out)"
  shows "fst resp = 200 \<and> map_option fst (Check v t t' req (e\<lparr>en_blocklist := b'\<rparr>)) = map_option fst (Check v t t' req e)"
proof -
  let ?ent = "\<lparr>IP = ip, Path = path, Headers = headers\<rparr>"
  have path: "path \<noteq> ''''" using assms(4) by (auto simp: parseEntityFromWildcard_def Let_def split: if_splits option.splits sum.splits)
  have resp: "fst resp = 200" and b': "b' = Block (e_bl v) now (Key (e_xx v) ?ent) ttl (Some ?ent) (en_blocklist e)"
    using add assms(4,6) by (auto simp: handleBlockEntityAdd_def Let_def)
  obtain res where m: "matchRuleV2 (e_rx v) (en_rules e) p = Some res" using matchRule_returns [OF rx] by blast
  obtain key where key: "BuildEntityKey v sip p hs e = Some key" and
    res: "key = '''' \<or> (\<exists>w. res = Some w \<and> key = Key (e_xx v) (buildEntity (en_settings e) sip w hs))"
    by (cases res) (simp_all add: BuildEntityKey_def m)
  have other: "key \<noteq> Key (e_xx v) ?ent" if ne: "key \<noteq> ''''"
  proof -
    obtain w where w: "res = Some w" "key = Key (e_xx v) (buildEntity (en_settings e) sip w hs)" using res ne by blast
    let ?req = "buildEntity (en_settings e) sip w hs"
    have "rn_Rule w \<in> snd ` set rules" using rule_in_config [OF rx assms(8)] m w(1) assms(7) by simp
    then have "HasPrefix (Path ?req) ''/''" using slash by (auto simp: buildEntity_def)
    then have "Path ?req \<noteq> ''''" "hd (Path ?req) = CHR ''/''" by (cases "Path ?req"; simp add: HasPrefix_def)+
    then have "entityCanonical ?req \<noteq> entityCanonical ?ent"
      using canonical_head [of ?req ?ent] assms(5,11,12) path by (auto simp: buildEntity_def)
    then show ?thesis using hash w(2) by (simp add: Key_def Hash_def)
  qed
  have "blocked_until (e_bl v) t key b' = blocked_until (e_bl v) t key (en_blocklist e)" if "key \<noteq> ''''"
    using blocklist_cache.until_set_other [OF blocklist_cacheI [OF bl] rm other [OF that] assms(14)] by (simp add: b' Block_eq)
  with Check_other_key [OF assms(10) key, of t b' t'] resp show ?thesis by blast
qed

theorem admin_block_misses_witness:
  "\<exists>resp b' out. handleBlockEntityAdd (\<lambda>c. if c = ''10.0.0.1|api'' then 1 else 2) ttl_ops (e_marshal demo_env) None 0 Minute ''10.0.0.1'' ''api'' '''' emptyBlocklist =
       (resp, b', out) \<and> fst resp = 200 \<and>
     map_option fst (Check (demo_env\<lparr>e_xx := (\<lambda>c. if c = ''10.0.0.1|api'' then 1 else 2)\<rparr>) 5 5
         \<lparr>cr_Source = Some ''10.0.0.1'', cr_Http = Some \<lparr>ha_Path = ''/api'', ha_Host = '''', ha_Headers = []\<rparr>\<rparr>
         ((demo_engine 0 (emptyAccounting ''n1'' [''n1'']))\<lparr>en_blocklist := b'\<rparr>)) =
     map_option fst (Check (demo_env\<lparr>e_xx := (\<lambda>c. if c = ''10.0.0.1|api'' then 1 else 2)\<rparr>) 5 5
         \<lparr>cr_Source = Some ''10.0.0.1'', cr_Http = Some \<lparr>ha_Path = ''/api'', ha_Host = '''', ha_Headers = []\<rparr>\<rparr>
         (demo_engine 0 (emptyAccounting ''n1'' [''n1''])))"
proof -
  let ?xx = "\<lambda>c. if c = ''10.0.0.1|api'' then 1 else (2 :: uint64)" and ?e = "demo_engine 0 (emptyAccounting ''n1'' [''n1''])"
  let ?v = "demo_env\<lparr>e_xx := ?xx\<rparr>"
  let ?req = "\<lparr>cr_Source = Some ''10.0.0.1'', cr_Http = Some \<lparr>ha_Path = ''/api'', ha_Host = '''', ha_Headers = []\<rparr>\<rparr>"
  obtain resp b' out where add: "handleBlockEntityAdd ?xx ttl_ops (e_marshal demo_env) None 0 Minute ''10.0.0.1'' ''api'' '''' emptyBlocklist = (resp, b', out)"
    by (metis prod.exhaust)
  have fields: "e_rx ?v = list_radix" "e_bl ?v = ttl_ops" "e_xx ?v = ?xx" "e_marshal ?v = e_marshal demo_env" by (simp_all add: demo_env_def)
  have parse: "parseEntityFromWildcard ''api'' = Inr (''api'', [])" "parseTTLQuery '''' Minute = Inr Minute"
    by (simp_all add: parseEntityFromWildcard_def headerMarker_def HasPrefix_def parseTTLQuery_def)
  have canon: "entityCanonical \<lparr>IP = ''10.0.0.1'', Path = ''api'', Headers = []\<rparr> = ''10.0.0.1|api''" by (simp add: entityCanonical_def)
  have rules: "en_rules ?e = createPathRadixTree list_radix [(''api'', demo_rule\<lparr>Limit := 0\<rparr>)]" by (simp add: demo_engine_def NewEngine_def)
  have src: "extractSourceIP ''10.0.0.1'' [] (en_settings ?e) = ''10.0.0.1''"
    by (simp add: demo_engine_def NewEngine_def extractSourceIP_def demo_settings_def settings_defaults_def NewConfig_def)
  have "fst resp = 200 \<and> map_option fst (Check ?v 5 5 ?req (?e\<lparr>en_blocklist := b'\<rparr>)) = map_option fst (Check ?v 5 5 ?req ?e)"
    by (rule admin_block_misses [where contents = map_of and stored = ttl_stored and room = ttl_room and n = 0 and path = "''api''"
          and headers = "[]" and ttl = Minute and fallback = Minute and wildcard = "''api''" and ttlQuery = "''''" and ip = "''10.0.0.1''"
          and rules = "[(''api'', demo_rule\<lparr>Limit := 0\<rparr>)]" and sip = "''10.0.0.1''" and p = "''/api''" and hs = "[]" and now = 0 and cv = None and out = out])
       (simp_all add: fields parse canon rules src add [simplified] lradix.radix_tree_axioms ttl.otter_cache_axioms emptyBlocklist_room demo_rule_def
          HasPrefix_def requestParts_def)
  with add show ?thesis by blast
qed



section \<open>What guards the administrative routes\<close>

text \<open>The credentials a request behind the dual middleware can present.\<close>

definition authenticated ::
  "(string \<Rightarrow> string) \<Rightarrow> (string \<Rightarrow> string \<Rightarrow> string) \<Rightarrow> gotime \<Rightarrow> string \<Rightarrow> string \<Rightarrow> ('p, 'e) apiServer \<Rightarrow> bool" where
  "authenticated sha hmac now auth meth s \<longleftrightarrow>
     (if sessionTokenOf auth \<noteq> '''' then ValidateSession hmac now (sessionTokenOf auth) (as_uiAuth s)
      else \<exists>fresh. fst (Middleware sha now fresh auth meth (as_auth s)) = Next)"

lemma Middleware_Next_fresh:
  "fst (Middleware sha now fresh auth meth a) = Next \<longleftrightarrow> fst (Middleware sha now fresh' auth meth a) = Next"
  unfolding Middleware_def Let_def by (simp add: sendChallengeWithStale_def split: option.split)

lemma dual_iff: "fst (dualAuthMiddleware sha hmac now fresh auth meth (as_uiAuth s) (as_auth s)) = Next \<longleftrightarrow> authenticated sha hmac now auth meth s"
proof -
  have "(\<exists>f. fst (Middleware sha now f auth meth (as_auth s)) = Next) \<longleftrightarrow> fst (Middleware sha now fresh auth meth (as_auth s)) = Next"
    by (metis Middleware_Next_fresh)
  then show ?thesis by (simp add: dualAuthMiddleware_def authenticated_def Let_def)
qed

definition wrapped :: "string \<Rightarrow> string \<Rightarrow> string" where
  "wrapped iv ciphertext = ''{'' @ [CHR 0x22] @ ''data'' @ [CHR 0x22, CHR '':'', CHR 0x22] @ ciphertext @ [CHR 0x22, CHR '','', CHR 0x22] @
     ''iv'' @ [CHR 0x22, CHR '':'', CHR 0x22] @ iv @ [CHR 0x22] @ ''}''"

lemma sessionTokenOf_session: "sessionTokenOf (''DRL-Session '' @ token) = token"
  unfolding sessionTokenOf_def by (simp only: HasPrefix_append TrimPrefix_append if_True)

lemma encrypted_body:
  assumes "GetSessionSharedKey hmac now token m = Some k" and "200 \<le> status" "status < 300" and "body \<noteq> ''''" and "seal k n body = Some c"
  shows "encryptedResponseMiddleware hmac seal now (Some n) (''DRL-Session '' @ token) m (status, body) =
     (status, wrapped (b64_encode std_alphabet n) (b64_encode std_alphabet c))"
proof -
  have "HasPrefix (''DRL-Session '' @ token) ''DRL-Session ''" by (simp only: HasPrefix_append)
  with assms show ?thesis
    unfolding encryptedResponseMiddleware_def sessionTokenOf_session by (simp add: encryptWithSharedKey_def wrapped_def)
qed


definition demo_server :: "(unit, unit) apiServer" where
  "demo_server = \<lparr>as_auth = demo_auth, as_uiAuth = demo_manager, as_address = '':8082'', as_apiPort = ''8082'', as_clusterName = ''drl'',
     as_nodeID = ''n1'', as_version = ''1'', as_startTime = 0, as_blocklistHeaderRedactions = [], as_defaultBlockTTL = Minute, as_bulkLoader = True\<rparr>"


end
