(* ===== verification/Proxy.thy ===== *)
theory Proxy
  imports Engine Base64 "HOL-Library.Multiset"
begin

text \<open>
  Package \<open>internal/proxy\<close>: the embedded reverse proxy. The DNS round robin (\<open>balancer.go\<close>), the OIDC
  middleware (\<open>middleware_oidc.go\<close>), and the routing table, director and rate-limit middleware
  (\<open>proxy.go\<close>). Token verification (\<open>go-oidc\<close>), the upstream and the router (\<open>chi\<close>) are parameters: the
  routing table is the sequence of registrations handed to the router.
\<close>

section \<open>Package net: host and port\<close>

definition SplitHostPort :: "string \<Rightarrow> (string \<times> string) option" where
  "SplitHostPort hostport =
     (case split_last (CHR '':'') hostport of
        None \<Rightarrow> None
      | Some (before, port) \<Rightarrow>
          if take 1 hostport = ''[''
          then (case dropWhile (\<lambda>c. c \<noteq> CHR '']'') hostport of
                  [] \<Rightarrow> None
                | _ # rest \<Rightarrow>
                    if rest \<noteq> CHR '':'' # port then None
                    else let host = drop 1 (takeWhile (\<lambda>c. c \<noteq> CHR '']'') hostport)
                         in if CHR ''['' \<in> set (drop 1 hostport) \<or> CHR '']'' \<in> set rest then None else Some (host, port))
          else if CHR '':'' \<in> set before \<or> CHR ''['' \<in> set hostport \<or> CHR '']'' \<in> set hostport then None
          else Some (before, port))"

definition JoinHostPort :: "string \<Rightarrow> string \<Rightarrow> string" where
  "JoinHostPort host port =
     (if CHR '':'' \<in> set host then ''['' @ host @ '']:'' @ port else host @ '':'' @ port)"

section \<open>The balancer\<close>

record roundRobinDirector =
  rr_ips :: "string list"
  rr_counter :: uint64

definition NewRoundRobinDirector :: roundRobinDirector where
  "NewRoundRobinDirector = \<lparr>rr_ips = [], rr_counter = 0\<rparr>"

text \<open>One lookup of \<open>WatchDNS\<close>: the answer replaces the pool unless it is an error or empty.\<close>

definition WatchDNS_tick :: "string list option \<Rightarrow> roundRobinDirector \<Rightarrow> roundRobinDirector" where
  "WatchDNS_tick answer rrd =
     (case answer of
        None \<Rightarrow> rrd
      | Some ips \<Rightarrow> if 0 < length ips then rrd\<lparr>rr_ips := ips\<rparr> else rrd)"

definition SetIPs :: "string list \<Rightarrow> roundRobinDirector \<Rightarrow> roundRobinDirector" where
  "SetIPs ips rrd = rrd\<lparr>rr_ips := ips\<rparr>"

record request =
  rq_RemoteAddr :: string
  rq_Scheme :: string
  rq_URLHost :: string
  rq_URLPath :: string
  rq_Host :: string
  rq_Header :: "(string \<times> string list) list"

definition DirectRequest :: "request \<Rightarrow> roundRobinDirector \<Rightarrow> request \<times> roundRobinDirector" where
  "DirectRequest req rrd =
     (if rr_ips rrd = [] then (req, rrd)
      else let n = rr_counter rrd + 1;
               idx = unat (n mod of_nat (length (rr_ips rrd)));
               targetIP = rr_ips rrd ! idx;
               port = (case SplitHostPort (rq_URLHost req) of
                         Some (_, p) \<Rightarrow> p
                       | None \<Rightarrow> if rq_Scheme req = ''https'' then ''443'' else ''80'')
           in (req\<lparr>rq_URLHost := JoinHostPort targetIP port\<rparr>, rrd\<lparr>rr_counter := n\<rparr>))"

section \<open>The OIDC middleware\<close>

record oidcClaims =
  oc_Subject :: string
  oc_Scopes :: "string list"
  oc_Roles :: "string list"

record oidcVerifier =
  ov_cfg :: proxyOIDCConfig
  ov_scopesField :: string
  ov_rolesField :: string

text \<open>
  \<open>newOIDCVerifier\<close>; \<open>discover\<close> says whether the provider's discovery document can be fetched. The outer
  option is the error, the inner one the nil verifier of a host without issuer.
\<close>

definition newOIDCVerifier :: "(string \<Rightarrow> bool) \<Rightarrow> proxyOIDCConfig \<Rightarrow> oidcVerifier option option" where
  "newOIDCVerifier discover cfg =
     (if Issuer cfg = '''' then Some None
      else if \<not> discover (Issuer cfg) then None
      else Some (Some \<lparr>ov_cfg = cfg,
             ov_scopesField = (if ClaimsScopes cfg \<noteq> '''' then ClaimsScopes cfg else ''scope''),
             ov_rolesField = (if ClaimsRoles cfg \<noteq> '''' then ClaimsRoles cfg else ''roles'')\<rparr>))"

text \<open>A JSON claim; an item of an array is \<open>None\<close> when it is not a string.\<close>

datatype claim = ClaimString string | ClaimArray "string option list" | ClaimStrings "string list" | ClaimOther

text \<open>\<open>strings.FieldsFunc\<close>: the maximal runs of bytes that are no separators.\<close>

function FieldsFunc :: "(char \<Rightarrow> bool) \<Rightarrow> string \<Rightarrow> string list" where
  "FieldsFunc sep s =
     (case dropWhile sep s of
        [] \<Rightarrow> []
      | t \<Rightarrow> takeWhile (\<lambda>c. \<not> sep c) t # FieldsFunc sep (dropWhile (\<lambda>c. \<not> sep c) t))"
  by pat_completeness auto

termination
proof (relation "measure (\<lambda>(sep, s). length s)", goal_cases)
  case (2 sep s c t)
  then have "\<not> sep c" by (metis dropWhile_eq_Cons_conv)
  then have "length (dropWhile (\<lambda>c. \<not> sep c) (c # t)) \<le> length t" by (simp add: length_dropWhile_le)
  moreover have "Suc (length t) \<le> length s" using 2 length_dropWhile_le [of sep s] by simp
  ultimately show ?case by simp
qed simp

declare FieldsFunc.simps [simp del]

definition extractStringSliceClaim :: "(string \<times> claim) list \<Rightarrow> string \<Rightarrow> string list" where
  "extractStringSliceClaim claims field =
     (case map_of claims field of
        None \<Rightarrow> []
      | Some (ClaimString s) \<Rightarrow> FieldsFunc (\<lambda>r. r = CHR '' '' \<or> r = CHR '','') s
      | Some (ClaimArray items) \<Rightarrow> concat (map (case_option [] (\<lambda>s. [s])) items)
      | Some (ClaimStrings ss) \<Rightarrow> ss
      | Some ClaimOther \<Rightarrow> [])"

definition hasRequiredScopes :: "string list \<Rightarrow> string list \<Rightarrow> bool" where
  "hasRequiredScopes tokenScopes required = list_all (\<lambda>req. req \<in> set tokenScopes) required"

definition classifyOIDCError :: "string \<Rightarrow> string" where
  "classifyOIDCError err =
     (let msg = ToLower err
      in if Contains msg ''expired'' then ''token_expired''
         else if Contains msg ''signature'' then ''invalid_signature''
         else ''invalid_token'')"

text \<open>What \<open>Verify\<close> returns for a token it accepts; \<open>id_Claims\<close> is \<open>None\<close> when they do not unmarshal.\<close>

record idToken =
  id_Subject :: string
  id_Audience :: "string list"
  id_Claims :: "(string \<times> claim) list option"

datatype gate = Reject int | Forward oidcClaims

definition headerGet :: "request \<Rightarrow> string \<Rightarrow> string" where
  "headerGet r k = (case map_of (rq_Header r) k of Some (v # _) \<Rightarrow> v | _ \<Rightarrow> '''')"

definition oidcMiddleware ::
  "(proxyOIDCConfig \<Rightarrow> string \<Rightarrow> string + idToken) \<Rightarrow> duration \<Rightarrow> string \<Rightarrow> oidcVerifier \<Rightarrow> string list \<Rightarrow> request \<Rightarrow>
   gate \<times> 'w effect list" where
  "oidcMiddleware verify took hostname v requiredScopes r =
     (let m = (\<lambda>s. Metric (IncOIDCRequest hostname (rq_URLPath r) s));
          authHeader = headerGet r ''Authorization''
      in if \<not> HasPrefix authHeader ''Bearer '' then (Reject 401, [m ''missing_token''])
         else case verify (ov_cfg v) (TrimPrefix authHeader ''Bearer '') of
                Inl err \<Rightarrow> (Reject 401, [m (classifyOIDCError err)])
              | Inr tok \<Rightarrow>
                  let lat = Metric (ObserveOIDCLatency hostname (rq_URLPath r) took)
                  in if Audience (ov_cfg v) \<noteq> '''' \<and> Audience (ov_cfg v) \<notin> set (id_Audience tok)
                     then (Reject 403, [lat, m ''forbidden_scope''])
                     else case id_Claims tok of
                            None \<Rightarrow> (Reject 401, [lat, m ''invalid_token''])
                          | Some rawClaims \<Rightarrow>
                              let tokenScopes = extractStringSliceClaim rawClaims (ov_scopesField v);
                                  tokenRoles = extractStringSliceClaim rawClaims (ov_rolesField v)
                              in if requiredScopes \<noteq> [] \<and> \<not> hasRequiredScopes tokenScopes requiredScopes
                                 then (Reject 403, [lat, m ''forbidden_scope''])
                                 else (Forward \<lparr>oc_Subject = id_Subject tok, oc_Scopes = tokenScopes, oc_Roles = tokenRoles\<rparr>,
                                       [lat, m ''success'']))"

section \<open>Upstreams\<close>

record transport =
  tr_DialTimeout :: duration
  tr_KeepAlive :: duration
  tr_MaxIdleConns :: int
  tr_MaxIdleConnsPerHost :: int
  tr_MaxConnsPerHost :: int
  tr_IdleConnTimeout :: duration
  tr_ResponseHeaderTimeout :: duration
  tr_TLSHandshakeTimeout :: duration
  tr_ExpectContinueTimeout :: duration

text \<open>\<open>lo.CoalesceOrEmpty\<close> of two integers: the first that is not zero.\<close>

definition coalesce :: "int \<Rightarrow> int \<Rightarrow> int" where
  "coalesce x y = (if x \<noteq> 0 then x else y)"

definition buildUpstreamTransport :: "proxyRouteConfig \<Rightarrow> transport" where
  "buildUpstreamTransport rt =
     \<lparr>tr_DialTimeout = coalesce (DialTimeout rt) (30 * Second), tr_KeepAlive = 30 * Second, tr_MaxIdleConns = 100,
      tr_MaxIdleConnsPerHost = coalesce (MaxIdleConnsPerHost rt) 32, tr_MaxConnsPerHost = MaxConnsPerHost rt,
      tr_IdleConnTimeout = coalesce (IdleConnTimeout rt) (90 * Second),
      tr_ResponseHeaderTimeout = coalesce (ResponseHeaderTimeout rt) (30 * Second),
      tr_TLSHandshakeTimeout = 10 * Second, tr_ExpectContinueTimeout = Second\<rparr>"

text \<open>
  \<open>buildReverseProxy\<close>; \<open>parseURL\<close> stands for \<open>url.Parse\<close> and gives scheme, host and host name. \<open>up_watch\<close> is
  the name and the interval of the DNS watcher it starts.
\<close>

record upstream =
  up_Scheme :: string
  up_Host :: string
  up_transport :: transport
  up_watch :: "(string \<times> duration) option"

definition buildReverseProxy :: "(string \<Rightarrow> (string \<times> string \<times> string) option) \<Rightarrow> proxyRouteConfig \<Rightarrow> upstream option" where
  "buildReverseProxy parseURL rt =
     (case parseURL (Upstream rt) of
        None \<Rightarrow> None
      | Some (scheme, host, name) \<Rightarrow>
          Some \<lparr>up_Scheme = scheme, up_Host = host, up_transport = buildUpstreamTransport rt,
                up_watch = (if EqualFold (BalanceStrategy rt) ''dns-round-robin''
                            then Some (name, if DNSRefreshInterval rt \<le> 0 then 5 * Second else DNSRefreshInterval rt)
                            else None)\<rparr>)"

text \<open>The \<open>Director\<close> it installs, with the pool of the route.\<close>

definition Director :: "upstream \<Rightarrow> request \<Rightarrow> roundRobinDirector \<Rightarrow> request \<times> roundRobinDirector" where
  "Director up req rrd =
     (let req1 = req\<lparr>rq_Scheme := up_Scheme up, rq_URLHost := up_Host up, rq_Host := up_Host up\<rparr>;
          (req2, rrd') = (if up_watch up \<noteq> None then DirectRequest req1 rrd else (req1, rrd))
      in (req2\<lparr>rq_Header := mdel ''Trailers'' (mdel ''Te'' (rq_Header req2))\<rparr>, rrd'))"

text \<open>\<open>ModifyResponse\<close> and \<open>ErrorHandler\<close>: a response of the upstream, or the error that became a 502.\<close>

definition upstreamDone :: "string \<Rightarrow> string \<Rightarrow> duration \<Rightarrow> int option \<Rightarrow> int \<times> 'w effect list" where
  "upstreamDone hostname routePrefix took status =
     (case status of
        Some code \<Rightarrow> (code, [Metric (ObserveProxyLatency hostname routePrefix took), Metric (IncProxyRequest hostname routePrefix (dec_int code))])
      | None \<Rightarrow> (502, [Metric (IncProxyError hostname routePrefix ''upstream'')]))"

section \<open>The rate-limit middleware\<close>

definition lowerHeaders :: "request \<Rightarrow> strmap" where
  "lowerHeaders r = fold (\<lambda>(k, _). mput (ToLower k) (headerGet r k)) (rq_Header r) []"

definition remoteIP :: "request \<Rightarrow> string" where
  "remoteIP r = (case SplitHostPort (rq_RemoteAddr r) of Some (ip, _) \<Rightarrow> ip | None \<Rightarrow> rq_RemoteAddr r)"

text \<open>
  \<open>rateLimitMiddleware\<close>, with the blocklist check when both a blocklist and an engine are configured. The
  result: whether the request is passed on, the engine, the effects of the check, and the arguments of
  the accounting goroutine that is started after the upstream has answered.
\<close>

definition rateLimitMiddleware ::
  "('t, 'c, 'r, 'b, 'z, 'w) env \<Rightarrow> gotime \<Rightarrow> string \<Rightarrow> string \<Rightarrow> bool \<Rightarrow> request \<Rightarrow> ('t, 'c, 'r, 'b) engine option \<Rightarrow>
   (bool \<times> ('t, 'c, 'r, 'b) engine option \<times> 'w effect list \<times> (string \<times> string \<times> strmap) option) option" where
  "rateLimitMiddleware v now hostname routePrefix hasBlocklist r en =
     (case en of
        None \<Rightarrow> Some (True, None, [], None)
      | Some e \<Rightarrow>
          let ip = remoteIP r; headers = lowerHeaders r; acc = (ip, rq_URLPath r, headers)
          in if \<not> hasBlocklist then Some (True, Some e, [], Some acc)
             else case BuildEntityKey v ip (rq_URLPath r) headers e of
                    None \<Rightarrow> None
                  | Some key \<Rightarrow>
                      (case IsBlockedWithExpiration (e_bl v) now key (en_blocklist e) of (found, b) \<Rightarrow>
                         let e' = e\<lparr>en_blocklist := b\<rparr>
                         in if found \<noteq> None
                            then Some (False, Some e', [Metric (IncProxyRequest hostname routePrefix ''429'')], None)
                            else Some (True, Some e', [], Some acc)))"

section \<open>The routing table\<close>

record route =
  rt_Pattern :: string
  rt_Hostname :: string
  rt_Prefix :: string
  rt_Auth :: "(oidcVerifier \<times> string list) option"
  rt_Upstream :: upstream

definition routePattern :: "string \<Rightarrow> string" where
  "routePattern pfx = (if HasSuffix pfx ''*'' then pfx else TrimSuffix pfx ''/'' @ ''/*'')"

text \<open>The first loop of \<open>buildRouter\<close>: the verifiers by host name, and the hosts to skip.\<close>

definition initVerifiers ::
  "(string \<Rightarrow> bool) \<Rightarrow> proxyHostConfig list \<Rightarrow> (string \<times> oidcVerifier) list \<times> string list" where
  "initVerifiers discover hosts =
     fold (\<lambda>h (vs, skipped).
             if Issuer (OIDC h) = '''' then (vs, skipped)
             else case newOIDCVerifier discover (OIDC h) of
                    None \<Rightarrow> (vs, Hostname h # skipped)
                  | Some None \<Rightarrow> (vs, skipped)
                  | Some (Some ov) \<Rightarrow> (mput (Hostname h) ov vs, skipped))
       hosts ([], [])"

definition routeFor ::
  "(string \<Rightarrow> (string \<times> string \<times> string) option) \<Rightarrow> (string \<times> oidcVerifier) list \<Rightarrow> string \<Rightarrow> proxyRouteConfig \<Rightarrow> route option" where
  "routeFor parseURL verifiers hostname rc =
     map_option (\<lambda>up. \<lparr>rt_Pattern = routePattern (Prefix rc), rt_Hostname = hostname, rt_Prefix = Prefix rc,
                        rt_Auth = (if RequireAuth rc then map_option (\<lambda>ov. (ov, Scopes rc)) (map_of verifiers hostname) else None),
                        rt_Upstream = up\<rparr>)
       (buildReverseProxy parseURL rc)"

fun registerRoutes ::
  "(string \<Rightarrow> (string \<times> string \<times> string) option) \<Rightarrow> (string \<times> oidcVerifier) list \<Rightarrow> (string \<times> proxyRouteConfig) list \<Rightarrow> route list option" where
  "registerRoutes parseURL verifiers [] = Some []"
| "registerRoutes parseURL verifiers ((hostname, rc) # rcs) =
     (case routeFor parseURL verifiers hostname rc of
        None \<Rightarrow> None
      | Some rt \<Rightarrow> map_option (Cons rt) (registerRoutes parseURL verifiers rcs))"

definition buildRouter ::
  "(string \<Rightarrow> bool) \<Rightarrow> (string \<Rightarrow> (string \<times> string \<times> string) option) \<Rightarrow> embeddedProxyConfig \<Rightarrow> route list option" where
  "buildRouter discover parseURL cfg =
     (case initVerifiers discover (Hosts cfg) of (verifiers, skipped) \<Rightarrow>
        registerRoutes parseURL verifiers
          (concat (map (\<lambda>h. if Hostname h \<in> set skipped then [] else map (Pair (Hostname h)) (Routes h)) (Hosts cfg))))"

text \<open>
  \<open>buildTLSConfig\<close> and the synchronous part of \<open>Start\<close>; \<open>keyPair\<close> stands for \<open>tls.X509KeyPair\<close>.
\<close>

datatype proxyError = EBuildRouter | EDecodeCert | EDecodeKey | EKeyPair

definition buildTLSConfig ::
  "(string \<Rightarrow> string \<Rightarrow> 'k option) \<Rightarrow> embeddedProxyConfig \<Rightarrow> proxyError + 'k" where
  "buildTLSConfig keyPair cfg =
     (case b64_decode std_alphabet (TLSCert cfg) of
        None \<Rightarrow> Inl EDecodeCert
      | Some certPEM \<Rightarrow>
          (case b64_decode std_alphabet (TLSKey cfg) of
             None \<Rightarrow> Inl EDecodeKey
           | Some keyPEM \<Rightarrow> (case keyPair certPEM keyPEM of None \<Rightarrow> Inl EKeyPair | Some cert \<Rightarrow> Inr cert)))"

definition Proxy_Start ::
  "(string \<Rightarrow> bool) \<Rightarrow> (string \<Rightarrow> (string \<times> string \<times> string) option) \<Rightarrow>
   (string \<Rightarrow> string \<Rightarrow> 'k option) \<Rightarrow> embeddedProxyConfig \<Rightarrow> proxyError + (route list \<times> 'k option)" where
  "Proxy_Start discover parseURL keyPair cfg =
     (case buildRouter discover parseURL cfg of
        None \<Rightarrow> Inl EBuildRouter
      | Some routes \<Rightarrow>
          if TLSEnabled cfg
          then (case buildTLSConfig keyPair cfg of Inl err \<Rightarrow> Inl err | Inr cert \<Rightarrow> Inr (routes, Some cert))
          else Inr (routes, None))"

text \<open>A request served by one registered route: OIDC first, then the rate limit.\<close>

datatype outcome = Answered int | ToUpstream

definition serveRoute ::
  "(proxyOIDCConfig \<Rightarrow> string \<Rightarrow> string + idToken) \<Rightarrow> duration \<Rightarrow> ('t, 'c, 'r, 'b, 'z, 'w) env \<Rightarrow> gotime \<Rightarrow> bool \<Rightarrow> route \<Rightarrow> request \<Rightarrow>
   ('t, 'c, 'r, 'b) engine option \<Rightarrow>
   (outcome \<times> ('t, 'c, 'r, 'b) engine option \<times> 'w effect list \<times> (string \<times> string \<times> strmap) option) option" where
  "serveRoute verify took v now hasBlocklist rt r en =
     (let limit = (\<lambda>out. map_option (\<lambda>(pass, en', out', acc). (if pass then ToUpstream else Answered 429, en', out @ out', acc))
                           (rateLimitMiddleware v now (rt_Hostname rt) (rt_Prefix rt) hasBlocklist r en))
      in case rt_Auth rt of
           None \<Rightarrow> limit []
         | Some (ov, scopes) \<Rightarrow>
             (case oidcMiddleware verify took (rt_Hostname rt) ov scopes r of
                (Reject code, out) \<Rightarrow> Some (Answered code, en, out, None)
              | (Forward _, out) \<Rightarrow> limit out))"

section \<open>What reaches an upstream\<close>

text \<open>The specification of the OIDC gate.\<close>

definition authorised :: "(proxyOIDCConfig \<Rightarrow> string \<Rightarrow> string + idToken) \<Rightarrow> oidcVerifier \<Rightarrow> string list \<Rightarrow> request \<Rightarrow> bool" where
  "authorised verify ov scopes r \<longleftrightarrow>
     (\<exists>raw tok claims. headerGet r ''Authorization'' = ''Bearer '' @ raw \<and> verify (ov_cfg ov) raw = Inr tok \<and>
        (Audience (ov_cfg ov) = '''' \<or> Audience (ov_cfg ov) \<in> set (id_Audience tok)) \<and>
        id_Claims tok = Some claims \<and> set scopes \<subseteq> set (extractStringSliceClaim claims (ov_scopesField ov)))"

lemma HasPrefix_split: "HasPrefix s p \<Longrightarrow> s = p @ TrimPrefix s p"
  by (metis HasPrefix_iff_prefix TrimPrefix_append prefix_def)

lemma oidc_forward_iff:
  "(\<exists>c. fst (oidcMiddleware verify took host ov scopes r) = Forward c) \<longleftrightarrow> authorised verify ov scopes r"
proof (cases "HasPrefix (headerGet r ''Authorization'') ''Bearer ''")
  case False
  then have "\<not> authorised verify ov scopes r" by (auto simp: authorised_def simp del: append_Cons)
  with False show ?thesis by (simp add: oidcMiddleware_def Let_def)
next
  case True
  let ?raw = "TrimPrefix (headerGet r ''Authorization'') ''Bearer ''"
  have "authorised verify ov scopes r \<longleftrightarrow> (\<exists>tok claims. verify (ov_cfg ov) ?raw = Inr tok \<and>
        (Audience (ov_cfg ov) = '''' \<or> Audience (ov_cfg ov) \<in> set (id_Audience tok)) \<and>
        id_Claims tok = Some claims \<and> set scopes \<subseteq> set (extractStringSliceClaim claims (ov_scopesField ov)))"
    unfolding authorised_def using HasPrefix_split [OF True] by (metis TrimPrefix_append)
  then show ?thesis
    using True
    by (cases "verify (ov_cfg ov) ?raw") (auto simp: oidcMiddleware_def Let_def hasRequiredScopes_def list_all_iff split: option.splits if_splits)
qed

lemma rateLimit_result:
  assumes "engine_env v contents storedA roomA storedB roomB"
  shows "\<exists>key e' out. BuildEntityKey v (remoteIP r) (rq_URLPath r) (lowerHeaders r) e = Some key \<and>
    rateLimitMiddleware v now host pfx True r (Some e) =
      (if fst (IsBlocked (e_bl v) now key (en_blocklist e)) then Some (False, Some e', out, None)
       else Some (True, Some e', out, Some (remoteIP r, rq_URLPath r, lowerHeaders r)))"
proof -
  obtain key where key: "BuildEntityKey v (remoteIP r) (rq_URLPath r) (lowerHeaders r) e = Some key"
    using engine_env.resolve_returns [OF assms, of "remoteIP r" "rq_URLPath r" "lowerHeaders r" e]
    by (auto simp: resolveEntity_def BuildEntityKey_def Let_def split: option.splits)
  then show ?thesis
    by (auto simp: rateLimitMiddleware_def Let_def IsBlocked_def case_prod_unfold)
qed

text \<open>
  C22. What reaches the upstream: a request is forwarded by a route exactly when its token passes the
  route's OIDC gate (a verified bearer token with the configured audience and every required scope; no
  gate when none is registered) and its entity is not blocked; every forwarded request is accounted
  and no other is.
\<close>

theorem proxy_forwards_iff:
  assumes env: "engine_env (v :: ('t, 'c, 'r, 'b, 'z, 'w) env) contents storedA roomA storedB roomB"
  shows "\<exists>key o' en out acc. BuildEntityKey v (remoteIP r) (rq_URLPath r) (lowerHeaders r) e = Some key \<and>
    serveRoute verify took v now True rt r (Some e) = Some (o', en, out, acc) \<and>
    (o' = ToUpstream \<longleftrightarrow>
       (case rt_Auth rt of None \<Rightarrow> True | Some (ov, scopes) \<Rightarrow> authorised verify ov scopes r) \<and>
       \<not> fst (IsBlocked (e_bl v) now key (en_blocklist e))) \<and>
    acc = (if o' = ToUpstream then Some (remoteIP r, rq_URLPath r, lowerHeaders r) else None)"
proof -
  obtain key e' out where k: "BuildEntityKey v (remoteIP r) (rq_URLPath r) (lowerHeaders r) e = Some key"
    and rl: "rateLimitMiddleware v now (rt_Hostname rt) (rt_Prefix rt) True r (Some e) =
      (if fst (IsBlocked (e_bl v) now key (en_blocklist e)) then Some (False, Some e', out, None)
       else Some (True, Some e', out, Some (remoteIP r, rq_URLPath r, lowerHeaders r)))"
    using rateLimit_result [OF env] by blast
  show ?thesis
  proof (cases "rt_Auth rt")
    case None
    with k rl show ?thesis by (auto simp: serveRoute_def)
  next
    case (Some a)
    obtain ov scopes where a: "a = (ov, scopes)" by (cases a)
    obtain g and out' :: "'w effect list" where g: "oidcMiddleware verify took (rt_Hostname rt) ov scopes r = (g, out')" by fastforce
    have "(\<exists>cl. fst (oidcMiddleware verify took (rt_Hostname rt) ov scopes r :: gate \<times> 'w effect list) = Forward cl) \<longleftrightarrow>
        authorised verify ov scopes r" by (rule oidc_forward_iff)
    with g have "(\<exists>cl. g = Forward cl) \<longleftrightarrow> authorised verify ov scopes r" by simp
    then show ?thesis
      using k rl Some g by (cases g; cases "fst (IsBlocked (e_bl v) now key (en_blocklist e))") (simp_all add: serveRoute_def a)
  qed
qed

definition demo_routeConfig :: proxyRouteConfig where
  "demo_routeConfig =
     \<lparr>Prefix = ''/'', Upstream = ''http://u'', BalanceStrategy = '''', DNSRefreshInterval = 0, RequireAuth = True, Scopes = [],
      MaxIdleConnsPerHost = 0, MaxConnsPerHost = 0, IdleConnTimeout = 0, ResponseHeaderTimeout = 0, DialTimeout = 0\<rparr>"

definition demo_oidc :: proxyOIDCConfig where
  "demo_oidc = \<lparr>Issuer = ''https://idp'', ClientID = [], Audience = [], ClaimsScopes = [], ClaimsRoles = [], JWKSCacheTTL = 0\<rparr>"

definition demo_request :: request where
  "demo_request = \<lparr>rq_RemoteAddr = ''10.0.0.1:4000'', rq_Scheme = ''http'', rq_URLHost = ''svc:80'', rq_URLPath = ''/'', rq_Host = ''h'', rq_Header = []\<rparr>"

theorem proxy_forwards_iff_witness:
  "\<exists>o' en out acc. serveRoute (\<lambda>_ _. Inl ''expired'') 0 demo_env 5 True
       \<lparr>rt_Pattern = ''/*'', rt_Hostname = ''h'', rt_Prefix = ''/'', rt_Auth = Some (\<lparr>ov_cfg = demo_oidc, ov_scopesField = ''scope'', ov_rolesField = ''roles''\<rparr>, []),
        rt_Upstream = \<lparr>up_Scheme = ''http'', up_Host = ''u'', up_transport = buildUpstreamTransport demo_routeConfig, up_watch = None\<rparr>\<rparr>
       demo_request (Some (demo_engine 0 (emptyAccounting ''n1'' [''n1'']))) = Some (o', en, out, acc) \<and> o' \<noteq> ToUpstream"
  using proxy_forwards_iff [OF demo.engine_env_axioms, of demo_request "demo_engine 0 (emptyAccounting ''n1'' [''n1''])" "\<lambda>_ _. Inl ''expired''" 0 5]
  by (fastforce simp: authorised_def)

section \<open>Balancing\<close>

fun directAll :: "request list \<Rightarrow> roundRobinDirector \<Rightarrow> string list \<times> roundRobinDirector" where
  "directAll [] rrd = ([], rrd)"
| "directAll (r # rs) rrd =
     (case DirectRequest r rrd of (r', rrd') \<Rightarrow> case directAll rs rrd' of (hosts, rrd'') \<Rightarrow> (rq_URLHost r' # hosts, rrd''))"

lemma unat_plus_small: "unat (c :: 64 word) + n < 2 ^ 64 \<Longrightarrow> unat (c + of_nat n) = unat c + n"
  by (simp add: unat_word_ariths unat_of_nat take_bit_nat_eq_self mod_less)

lemma directAll_targets:
  assumes ips: "rr_ips rrd = ips" "ips \<noteq> []" and port: "SplitHostPort (rq_URLHost req) = Some (h, port)"
  shows "unat (rr_counter rrd) + n < 2 ^ 64 \<Longrightarrow> length ips < 2 ^ 64 \<Longrightarrow>
    directAll (replicate n req) rrd =
      (map (\<lambda>i. JoinHostPort (ips ! ((unat (rr_counter rrd) + 1 + i) mod length ips)) port) [0..<n],
       rrd\<lparr>rr_counter := rr_counter rrd + of_nat n\<rparr>)"
  using ips(1)
proof (induction n arbitrary: rrd)
  case (Suc n)
  let ?rrd = "rrd\<lparr>rr_counter := rr_counter rrd + 1\<rparr>"
  have u: "unat (rr_counter rrd + 1) = unat (rr_counter rrd) + 1"
    using unat_plus_small [of "rr_counter rrd" 1] Suc.prems(1) by simp
  have "unat ((rr_counter rrd + 1) mod of_nat (length ips)) = (unat (rr_counter rrd) + 1) mod length ips"
    using Suc.prems(2) by (simp only: unat_mod u) (simp add: unat_of_nat take_bit_nat_eq_self)
  then have d: "DirectRequest req rrd = (req\<lparr>rq_URLHost := JoinHostPort (ips ! ((unat (rr_counter rrd) + 1) mod length ips)) port\<rparr>, ?rrd)"
    using ips(2) port Suc.prems(3) by (simp add: DirectRequest_def Let_def)
  have "directAll (replicate n req) ?rrd =
      (map (\<lambda>i. JoinHostPort (ips ! ((unat (rr_counter ?rrd) + 1 + i) mod length ips)) port) [0..<n],
       ?rrd\<lparr>rr_counter := rr_counter ?rrd + of_nat n\<rparr>)"
    using Suc.prems u by (intro Suc.IH) simp_all
  with d u show ?case by (simp add: upt_conv_Cons map_Suc_upt [symmetric] comp_def del: upt_Suc map_Suc_upt)
qed simp

text \<open>
  Round robin is fair: while the counter does not wrap and the pool does not change, any as many
  consecutive requests as there are addresses go to every address exactly once (to each occurrence, if
  an address is listed twice), on the upstream's port.
\<close>

theorem round_robin_fair:
  assumes "rr_ips rrd \<noteq> []" and "SplitHostPort (rq_URLHost req) = Some (h, port)"
    and "unat (rr_counter rrd) + length (rr_ips rrd) < 2 ^ 64"
  shows "mset (fst (directAll (replicate (length (rr_ips rrd)) req) rrd)) = mset (map (\<lambda>ip. JoinHostPort ip port) (rr_ips rrd))"
proof -
  let ?ips = "rr_ips rrd"
  define c where "c = unat (rr_counter rrd) + 1"
  have rot: "map (\<lambda>i. ?ips ! ((c + i) mod length ?ips)) [0..<length ?ips] = rotate c ?ips"
    by (rule nth_equalityI) (simp_all add: nth_rotate)
  have "map (\<lambda>i. JoinHostPort (?ips ! ((c + i) mod length ?ips)) port) [0..<length ?ips] =
      map (\<lambda>ip. JoinHostPort ip port) (map (\<lambda>i. ?ips ! ((c + i) mod length ?ips)) [0..<length ?ips])" by simp
  then have "map (\<lambda>i. JoinHostPort (?ips ! ((c + i) mod length ?ips)) port) [0..<length ?ips] = map (\<lambda>ip. JoinHostPort ip port) (rotate c ?ips)"
    by (simp only: rot)
  moreover have "mset (rotate c ?ips) = mset ?ips"
    by (metis append_take_drop_id mset_append rotate_drop_take union_commute)
  moreover have "fst (directAll (replicate (length ?ips) req) rrd) = map (\<lambda>i. JoinHostPort (?ips ! ((c + i) mod length ?ips)) port) [0..<length ?ips]"
    using directAll_targets [OF refl assms(1,2,3)] assms(3) by (simp add: c_def)
  ultimately show ?thesis by (metis mset_map)
qed

theorem round_robin_fair_witness:
  "mset (fst (directAll [demo_request, demo_request] (SetIPs [''10.0.0.5'', ''10.0.0.6''] NewRoundRobinDirector))) =
     mset [''10.0.0.5:80'', ''10.0.0.6:80'']"
proof -
  have "SplitHostPort (rq_URLHost demo_request) = Some (''svc'', ''80'')" by code_simp
  from round_robin_fair [OF _ this, of "SetIPs [''10.0.0.5'', ''10.0.0.6''] NewRoundRobinDirector"] show ?thesis
    by (simp add: SetIPs_def NewRoundRobinDirector_def JoinHostPort_def)
qed

section \<open>Registrations\<close>

lemma registerRoutes_all:
  "registerRoutes parseURL vs rcs = Some rts \<Longrightarrow> list_all2 (\<lambda>(h, rc) rt. routeFor parseURL vs h rc = Some rt) rcs rts"
  by (induction parseURL vs rcs arbitrary: rts rule: registerRoutes.induct) (auto split: option.splits)

lemma list_all2_ex: "list_all2 P xs ys \<Longrightarrow> x \<in> set xs \<Longrightarrow> \<exists>y \<in> set ys. P x y"
  by (induction rule: list_all2_induct) auto

lemma initVerifiers_other:
  assumes "list_all (\<lambda>h. Hostname h = n \<longrightarrow> Issuer (OIDC h) = '''') hosts"
  shows "map_of (fst (initVerifiers discover hosts)) n = None \<and> n \<notin> set (snd (initVerifiers discover hosts))"
proof -
  let ?f = "\<lambda>h (vs, skipped).
             if Issuer (OIDC h) = '''' then (vs, skipped)
             else case newOIDCVerifier discover (OIDC h) of
                    None \<Rightarrow> (vs, Hostname h # skipped)
                  | Some None \<Rightarrow> (vs, skipped)
                  | Some (Some ov) \<Rightarrow> (mput (Hostname h) ov vs, skipped)"
  have "map_of (fst (fold ?f hosts (vs, sk))) n = map_of vs n \<and> (n \<in> set (snd (fold ?f hosts (vs, sk))) \<longleftrightarrow> n \<in> set sk)" for vs sk
    using assms by (induction hosts arbitrary: vs sk) (auto split: option.split)
  then show ?thesis by (simp add: initVerifiers_def)
qed

text \<open>
  C39. A route that requires authentication fails open: when its host has no issuer configured, the route
  is registered all the same, under a pattern that does not mention the host, with no authentication at
  all; the configuration error is only logged.
\<close>

theorem require_auth_fails_open:
  assumes "buildRouter discover parseURL cfg = Some routes" and "h \<in> set (Hosts cfg)" and "rc \<in> set (Routes h)" and "RequireAuth rc"
    and "list_all (\<lambda>h'. Hostname h' = Hostname h \<longrightarrow> Issuer (OIDC h') = '''') (Hosts cfg)"
  shows "\<exists>rt \<in> set routes. rt_Pattern rt = routePattern (Prefix rc) \<and> rt_Hostname rt = Hostname h \<and> rt_Auth rt = None"
proof -
  obtain vs sk where v: "initVerifiers discover (Hosts cfg) = (vs, sk)" by fastforce
  with initVerifiers_other [OF assms(5), of discover] have n: "map_of vs (Hostname h) = None" "Hostname h \<notin> set sk" by simp_all
  let ?rcs = "concat (map (\<lambda>h. if Hostname h \<in> set sk then [] else map (Pair (Hostname h)) (Routes h)) (Hosts cfg))"
  have "(Hostname h, rc) \<in> set ?rcs" using assms(2,3) n(2) by force
  moreover have "list_all2 (\<lambda>(h, rc) rt. routeFor parseURL vs h rc = Some rt) ?rcs routes"
    using assms(1) v by (intro registerRoutes_all) (simp add: buildRouter_def)
  ultimately obtain rt where "rt \<in> set routes" "routeFor parseURL vs (Hostname h) rc = Some rt"
    using list_all2_ex [of _ ?rcs routes "(Hostname h, rc)"] by fastforce
  moreover from this(2) n(1) assms(4) have "rt_Pattern rt = routePattern (Prefix rc)" "rt_Hostname rt = Hostname h" "rt_Auth rt = None"
    by (auto simp: routeFor_def)
  ultimately show ?thesis by blast
qed

theorem require_auth_fails_open_witness:
  "\<exists>rt \<in> set (the (buildRouter (\<lambda>_. True) (\<lambda>u. Some (''http'', u, u))
       \<lparr>ProxyEnabled = True, ProxyListen = '':80'', TLSEnabled = False, TLSCert = '''', TLSKey = '''',
        Hosts = [\<lparr>Hostname = ''a.local'', OIDC = demo_oidc\<lparr>Issuer := ''''\<rparr>, Routes = [demo_routeConfig]\<rparr>]\<rparr>)).
     rt_Hostname rt = ''a.local'' \<and> rt_Auth rt = None"
proof -
  let ?h = "\<lparr>Hostname = ''a.local'', OIDC = demo_oidc\<lparr>Issuer := ''''\<rparr>, Routes = [demo_routeConfig]\<rparr>"
  let ?cfg = "\<lparr>ProxyEnabled = True, ProxyListen = '':80'', TLSEnabled = False, TLSCert = '''', TLSKey = '''', Hosts = [?h]\<rparr>"
  have "\<exists>routes. buildRouter (\<lambda>_. True) (\<lambda>u. Some (''http'', u, u)) ?cfg = Some routes"
    by (simp add: buildRouter_def initVerifiers_def routeFor_def buildReverseProxy_def)
  then show ?thesis
    using require_auth_fails_open [of "\<lambda>_. True" "\<lambda>u. Some (''http'', u, u)" ?cfg _ ?h demo_routeConfig]
    by (auto simp: demo_routeConfig_def)
qed

end
