(* ===== verification/Node.thy ===== *)
theory Node
  imports AdminApi Proxy Metrics
begin

text \<open>
  Package \<open>internal/cmd\<close>: how a node is put together and taken down. The constructors return an error to
  \<open>Execute\<close> (here \<open>MissingDependency\<close> with the dependency's name), end the process, or succeed; \<open>Execute\<close> ends
  the process on every error. What the operating system and the libraries answer is the record \<open>host\<close>.
\<close>

section \<open>Constructors\<close>

text \<open>\<open>GetInstanceIP\<close> of \<open>internal/utils\<close>: the first IPv4 address of the host's name, the empty string when there is none.\<close>

definition GetInstanceIP :: "netIP list option \<Rightarrow> string option" where
  "GetInstanceIP lookup =
     map_option (\<lambda>ips. case filter (\<lambda>ip. To4 ip \<noteq> None) ips of [] \<Rightarrow> '''' | ip # _ \<Rightarrow> IP_String (the (To4 ip))) lookup"

datatype logLevel = LevelDebug | LevelInfo | LevelWarn | LevelError

definition parseLogLevel :: "string \<Rightarrow> logLevel" where
  "parseLogLevel level =
     (let l = ToLower level
      in if l = ''debug'' then LevelDebug else if l = ''warn'' then LevelWarn else if l = ''error'' then LevelError else LevelInfo)"

text \<open>\<open>newLoggerSlogCompatible\<close>: \<open>parseLevel\<close> says whether \<open>zerolog.ParseLevel\<close> accepts the level.\<close>

definition newLoggerSlogCompatible :: "(string \<Rightarrow> bool) \<Rightarrow> loggingConfig \<Rightarrow> logLevel option" where
  "newLoggerSlogCompatible parseLevel cfg =
     (if ToLower (LogFormat cfg) \<notin> set [''text'', ''json''] then None
      else if \<not> parseLevel (LogLevel cfg) then None
      else Some (parseLogLevel (LogLevel cfg)))"

definition newMetrics :: "'m prom \<Rightarrow> bool \<Rightarrow> 'm startup" where
  "newMetrics pr hasLog =
     (case NewMetrics pr of
        None \<Rightarrow> ProcessExit 2
      | Some m \<Rightarrow> if \<not> hasLog then MissingDependency ''logger'' else Running m)"

text \<open>The header redactions of all rules; the first definition of a header wins, a pattern that does not compile is skipped.\<close>

definition compileRedactions :: "(string \<Rightarrow> 'e option) \<Rightarrow> (string \<times> accountingRule) list \<Rightarrow> (string \<times> 'e) list" where
  "compileRedactions compile rules =
     fold (\<lambda>(_, rule). fold (\<lambda>(header, pattern) m.
         if map_of m header \<noteq> None then m
         else case compile pattern of None \<Rightarrow> m | Some x \<Rightarrow> mput header x m) (HeaderRedactions rule)) rules []"

definition newApiServer ::
  "(string \<Rightarrow> string) \<Rightarrow> (string \<Rightarrow> string \<Rightarrow> string) \<Rightarrow> 'p option \<Rightarrow> (string \<Rightarrow> 'e option) \<Rightarrow> (string \<Rightarrow> string) \<Rightarrow> gotime \<Rightarrow>
   config \<Rightarrow> string \<Rightarrow> string \<Rightarrow> bool \<Rightarrow> bool \<Rightarrow> bool \<Rightarrow> bool \<Rightarrow> bool \<Rightarrow> ('p, 'e) apiServer option startup" where
  "newApiServer sha hmac generateKey compile getenv now cfg localIP version hasCache hasCluster hasEngine hasMetrics hasLog =
     (if \<not> hasCluster then MissingDependency ''cluster manager''
      else if \<not> hasCache then MissingDependency ''cache manager''
      else if \<not> hasEngine then MissingDependency ''accounting engine''
      else if \<not> hasMetrics then MissingDependency ''metrics manager''
      else if \<not> hasLog then MissingDependency ''logger''
      else if APIEnabled (InternalAPI cfg)
      then (if ValidatePrivateAPIKey getenv \<noteq> None then ProcessExit 1
            else case NewServer sha hmac generateKey now
                   \<lparr>sc_Address = APIAddress (InternalAPI cfg), sc_APIKey = getenv ''DRL_PRIVATE_API_KEY'',
                    sc_ClusterName = ServiceName (Membership cfg), sc_NodeID = localIP, sc_Version = version,
                    sc_BlocklistHeaderRedactions = compileRedactions compile (Rules cfg),
                    sc_DefaultBlockTTL = wrap64 (BlocklistDefaultTTLSeconds (Cache cfg) * Second), sc_BulkLoader = True\<rparr> of
                   Inl _ \<Rightarrow> ProcessExit 1
                 | Inr s \<Rightarrow> Running (Some s))
      else Running None)"

text \<open>\<open>listen\<close> says whether the gRPC address can be bound.\<close>

definition newGRPCServer :: "(string \<Rightarrow> bool) \<Rightarrow> config \<Rightarrow> bool \<Rightarrow> bool \<Rightarrow> bool \<Rightarrow> bool \<Rightarrow> bool \<Rightarrow> string startup" where
  "newGRPCServer listen cfg hasCache hasEngine hasApiServer hasMetrics hasLog =
     (if \<not> hasCache then MissingDependency ''cache manager''
      else if \<not> hasMetrics then MissingDependency ''metrics manager''
      else if \<not> hasEngine then MissingDependency ''accounting engine''
      else if \<not> hasApiServer then MissingDependency ''API server''
      else if \<not> hasLog then MissingDependency ''logger''
      else if \<not> listen (ListenGRPC (Listen cfg)) then ProcessExit 1
      else Running (ListenGRPC (Listen cfg)))"

definition newEmbeddedProxy ::
  "(string \<Rightarrow> bool) \<Rightarrow> (string \<Rightarrow> (string \<times> string \<times> string) option) \<Rightarrow> (string \<Rightarrow> string \<Rightarrow> 'x option) \<Rightarrow> config \<Rightarrow> bool \<Rightarrow> bool \<Rightarrow> bool \<Rightarrow>
   (route list \<times> 'x option) option startup" where
  "newEmbeddedProxy discover parseURL keyPair cfg hasCache hasMetrics hasLog =
     (if \<not> ProxyEnabled (EmbeddedProxy cfg) then Running None
      else if \<not> hasCache then MissingDependency ''cache manager''
      else if \<not> hasMetrics then MissingDependency ''metrics manager''
      else if \<not> hasLog then MissingDependency ''logger''
      else case Proxy_Start discover parseURL keyPair (EmbeddedProxy cfg) of
             Inl _ \<Rightarrow> MissingDependency ''embedded proxy''
           | Inr s \<Rightarrow> Running (Some s))"

section \<open>Starting a node\<close>

record ('t, 'c, 'r, 'b, 'z, 'w, 'k, 'm, 'p, 'e, 'x) host =
  h_versionFlag :: bool
  h_loader :: loader
  h_configPath :: string
  h_version :: string
  h_parseLevel :: "string \<Rightarrow> bool"
  h_lookup :: "netIP list option"
  h_prom :: "'m prom"
  h_env :: "('t, 'c, 'r, 'b, 'z, 'w) env"
  h_mkB :: "uint64 \<Rightarrow> 'b option"
  h_mkA :: "uint64 \<Rightarrow> 'c option"
  h_ring :: 'r
  h_keyring :: "string list \<Rightarrow> string \<Rightarrow> 'k option"
  h_lan :: "'k memberlistConfig"
  h_create :: "'k memberlistConfig \<Rightarrow> node list option"
  h_channelListen :: "string \<Rightarrow> int \<Rightarrow> bool"
  h_sha :: "string \<Rightarrow> string"
  h_hmac :: "string \<Rightarrow> string \<Rightarrow> string"
  h_generateKey :: "'p option"
  h_compile :: "string \<Rightarrow> 'e option"
  h_now :: gotime
  h_grpcListen :: "string \<Rightarrow> bool"
  h_discover :: "string \<Rightarrow> bool"
  h_parseURL :: "string \<Rightarrow> (string \<times> string \<times> string) option"
  h_keyPair :: "string \<Rightarrow> string \<Rightarrow> 'x option"

text \<open>
  The running node. Cache manager, cluster and engine share the accounting cache and the blocklist by
  pointer; the engine's fields are the ones that count.
\<close>

record ('t, 'c, 'r, 'b, 'm, 'p, 'e, 'x) running =
  rn_localIP :: string
  rn_metrics :: 'm
  rn_cluster :: "('b, 'c, 'r) cluster"
  rn_engine :: "('t, 'c, 'r, 'b) engine"
  rn_handover :: "handover option"
  rn_api :: "('p, 'e) apiServer option"
  rn_grpc :: string
  rn_proxy :: "(route list \<times> 'x option) option"

datatype 'n execution = Exit int | Serving 'n

text \<open>An error or an exit of a constructor ends the process.\<close>

definition orExit :: "'a startup \<Rightarrow> ('a \<Rightarrow> 'n execution) \<Rightarrow> 'n execution" where
  "orExit s k = (case s of MissingDependency _ \<Rightarrow> Exit 1 | ProcessExit c \<Rightarrow> Exit c | Running a \<Rightarrow> k a)"

definition fromOption :: "string \<Rightarrow> 'a option \<Rightarrow> 'a startup" where
  "fromOption what x = (case x of None \<Rightarrow> MissingDependency what | Some a \<Rightarrow> Running a)"

definition attachHandover :: "handover option \<Rightarrow> ('b, 'c, 'r) cluster \<Rightarrow> ('b, 'c, 'r) cluster" where
  "attachHandover h c =
     (case h of None \<Rightarrow> c | Some ho \<Rightarrow> c\<lparr>cl_stateDelegate := map_option (SetHandover ho) (cl_stateDelegate c)\<rparr>)"

definition initHandover :: "('t, 'c, 'r, 'b) engine \<Rightarrow> handover option startup" where
  "initHandover e =
     (if en_flusher e = None then Running None
      else case NewHandover True True True True True 0 0 of Inl _ \<Rightarrow> MissingDependency ''handover'' | Inr h \<Rightarrow> Running (Some h))"

definition Execute ::
  "('t, 'c, 'r, 'b, 'z, 'w, 'k, 'm, 'p, 'e, 'x) host \<Rightarrow> ('t, 'c, 'r, 'b, 'm, 'p, 'e, 'x) running execution" where
  "Execute h =
     (if h_versionFlag h then Exit 0
      else case Load (h_loader h) (h_configPath h) of
        Inl _ \<Rightarrow> Exit 1
      | Inr cfg \<Rightarrow>
        orExit (fromOption ''logger'' (newLoggerSlogCompatible (h_parseLevel h) (Logging cfg))) (\<lambda>lvl.
        orExit (fromOption ''instance IP'' (GetInstanceIP (h_lookup h))) (\<lambda>localIP.
        orExit (newMetrics (h_prom h) True) (\<lambda>metrics.
        orExit (case newCache (e_rg (h_env h)) (h_mkB h) (h_mkA h) (h_ring h) (Cache cfg) localIP of
                  None \<Rightarrow> ProcessExit 1 | Some m \<Rightarrow> Running m) (\<lambda>cacheManager.
        orExit (newCluster (h_keyring h) (h_lan h) (h_create h) (h_channelListen h) True True cfg localIP (Some cacheManager)
                  :: (('b, 'c, 'r) cluster \<times> 'w effect list) startup) (\<lambda>(cluster, _).
        orExit (fromOption ''accounting rules'' (newAccountingEngine (h_env h) cfg localIP cacheManager True)) (\<lambda>engine.
        orExit (initHandover engine) (\<lambda>handover.
        orExit (newApiServer (h_sha h) (h_hmac h) (h_generateKey h) (h_compile h) (ld_getenv (h_loader h)) (h_now h) cfg localIP (h_version h)
                  True True True True True) (\<lambda>api.
        orExit (newGRPCServer (h_grpcListen h) cfg True True (api \<noteq> None) True True) (\<lambda>grpc.
        orExit (newEmbeddedProxy (h_discover h) (h_parseURL h) (h_keyPair h) cfg True True True) (\<lambda>proxy.
        Serving \<lparr>rn_localIP = localIP, rn_metrics = metrics, rn_cluster = attachHandover handover cluster, rn_engine = engine,
                 rn_handover = handover, rn_api = api, rn_grpc = grpc, rn_proxy = proxy\<rparr>)))))))))))"

lemma orExit_Serving: "orExit s k = Serving n \<longleftrightarrow> (\<exists>a. s = Running a \<and> k a = Serving n)"
  by (cases s) (simp_all add: orExit_def)

lemma fromOption_Running: "fromOption w x = Running a \<longleftrightarrow> x = Some a"
  by (cases x) (simp_all add: fromOption_def)

lemma newApiServer_Running:
  assumes "newApiServer sha hmac gk compile getenv now cfg ip ver True True True True True = Running (Some s)"
  shows "APIEnabled (InternalAPI cfg) \<and> ValidatePrivateAPIKey getenv = None"
  using assms by (auto simp: newApiServer_def split: if_splits sum.splits)

lemma newCluster_delegate:
  assumes "newCluster nk lan create lst True True cfg ip (Some m) = Running (c, out)"
  shows "cl_stateDelegate c \<noteq> None"
  using assms
  by (auto simp: newCluster_def Start_def Let_def SetStateDelegate_def SetChannelManager_def split: option.splits sum.splits if_splits)

text \<open>
  C18. What is true of every node that serves traffic: its configuration passed \<open>Load\<close> and has at least one accounting
  rule, its administrative interface is on with a private key of at least sixteen characters, and
  its delegate knows the handover that \<open>Execute\<close> will evacuate on shutdown. In particular a node whose
  configuration disables the administrative interface never serves: \<open>newGRPCServer\<close> refuses to start without it.
\<close>

theorem serving_node:
  fixes h :: "('t, 'c, 'r, 'b, 'z, 'w, 'k, 'm, 'p, 'e, 'x) host"
  assumes "Execute h = Serving n"
  shows "\<exists>cfg. Load (h_loader h) (h_configPath h) = Inr cfg \<and> Rules cfg \<noteq> [] \<and> APIEnabled (InternalAPI cfg) \<and>
    16 \<le> length (ld_getenv (h_loader h) ''DRL_PRIVATE_API_KEY'') \<and> rn_api n \<noteq> None \<and>
    (\<exists>d ho. cl_stateDelegate (rn_cluster n) = Some d \<and> sd_handover d = Some ho \<and> rn_handover n = Some ho) \<and>
    en_flusher (rn_engine n) \<noteq> None"
proof -
  from assms obtain cfg where cfg: "Load (h_loader h) (h_configPath h) = Inr cfg" by (auto simp: Execute_def split: if_splits sum.splits)
  with assms obtain lvl ip mt m c out e ho api g px where
    c: "(newCluster (h_keyring h) (h_lan h) (h_create h) (h_channelListen h) True True cfg ip (Some m) :: (_ \<times> 'w effect list) startup) = Running (c, out)" and
    e: "newAccountingEngine (h_env h) cfg ip m True = Some e" and ho: "initHandover e = Running ho" and
    api: "newApiServer (h_sha h) (h_hmac h) (h_generateKey h) (h_compile h) (ld_getenv (h_loader h)) (h_now h) cfg ip (h_version h)
            True True True True True = Running api" and
    g: "newGRPCServer (h_grpcListen h) cfg True True (api \<noteq> None) True True = Running g" and
    n: "n = \<lparr>rn_localIP = ip, rn_metrics = mt, rn_cluster = attachHandover ho c, rn_engine = e, rn_handover = ho, rn_api = api, rn_grpc = g, rn_proxy = px\<rparr>"
    by (auto simp: Execute_def orExit_Serving fromOption_Running split: if_splits)
  have rules: "Rules cfg \<noteq> []" "en_flusher e \<noteq> None" using e by (auto simp: newAccountingEngine_def Let_def NewEngine_def split: if_splits)
  obtain s where s: "api = Some s" using g by (auto simp: newGRPCServer_def split: if_splits)
  have key: "APIEnabled (InternalAPI cfg)" "16 \<le> length (ld_getenv (h_loader h) ''DRL_PRIVATE_API_KEY'')"
    using newApiServer_Running [OF api [unfolded s]] by (auto simp: ValidatePrivateAPIKey_def Let_def split: if_splits)
  obtain x where "ho = Some x" using ho rules(2) by (auto simp: initHandover_def NewHandover_def split: if_splits)
  moreover obtain d where "cl_stateDelegate c = Some d" using newCluster_delegate [OF c] by blast
  ultimately show ?thesis using cfg rules s key by (auto simp: n attachHandover_def SetHandover_def)
qed

section \<open>Stopping a node\<close>

text \<open>
  The steps of \<open>Execute\<close> after the signal, in order, with what each sends. The stopped servers no longer take
  requests; an accounting goroutine they left running may still enqueue after the final flush, which is
  outside this sequence. \<open>None\<close> is the panic of a second \<open>Evacuate\<close>.
\<close>

datatype 'w shutdownStep =
    StopProxy | StopApi | StopGrpc | FinalFlush "'w effect list" | Evacuated "handoverError option" "'w effect list"
  | LeaveCluster "clusterError option" "mlAction list" | CloseCaches | StopMetrics

definition stopFlusher ::
  "('t, 'c, 'r, 'b, 'z, 'w) env \<Rightarrow> gotime \<Rightarrow> ('t, 'c, 'r, 'b) engine \<Rightarrow> 'w shutdownStep list \<times> ('t, 'c, 'r, 'b) engine" where
  "stopFlusher v now e =
     (case en_flusher e of
        None \<Rightarrow> ([], e)
      | Some f \<Rightarrow> (case flush (e_marshal v) (e_send v) now f of (f', out) \<Rightarrow> ([FinalFlush out], e\<lparr>en_flusher := Some f'\<rparr>)))"

definition evacuateNode ::
  "('t, 'c, 'r, 'b, 'z, 'w) env \<Rightarrow> (counterBatch \<Rightarrow> 'z list option) \<Rightarrow> ('z list \<Rightarrow> 'z list) \<Rightarrow> (string \<Rightarrow> 'w list \<Rightarrow> bool) \<Rightarrow>
   (string \<Rightarrow> gotime) \<Rightarrow> gotime \<Rightarrow> ('b, 'c, 'r) cluster \<Rightarrow> ('t, 'c, 'r, 'b) engine \<Rightarrow> handover option \<Rightarrow>
   ('w shutdownStep list \<times> handover option) option" where
  "evacuateNode v marshalB compress reliable clk now c e ho =
     (case ho of
        None \<Rightarrow> Some ([], None)
      | Some h \<Rightarrow> map_option (\<lambda>((err, out), h'). ([Evacuated err out], Some h'))
          (Evacuate (e_ac v) (e_xx v) marshalB compress (e_marshal v) reliable clk now (LocalAddr c) (MemberAddrs c) (en_accounting e) h))"

definition Execute_shutdown ::
  "('t, 'c, 'r, 'b, 'z, 'w) env \<Rightarrow> (counterBatch \<Rightarrow> 'z list option) \<Rightarrow> ('z list \<Rightarrow> 'z list) \<Rightarrow> (string \<Rightarrow> 'w list \<Rightarrow> bool) \<Rightarrow>
   (string \<Rightarrow> gotime) \<Rightarrow> gotime \<Rightarrow> gotime \<Rightarrow> bool \<Rightarrow> bool \<Rightarrow> ('t, 'c, 'r, 'b, 'm, 'p, 'e, 'x) running \<Rightarrow>
   ('w shutdownStep list \<times> ('t, 'c, 'r, 'b, 'm, 'p, 'e, 'x) running) option" where
  "Execute_shutdown v marshalB compress reliable clk now now' leaveOk shutdownOk n =
     (case stopFlusher v now (rn_engine n) of (flushed, e) \<Rightarrow>
      case evacuateNode v marshalB compress reliable clk now' (rn_cluster n) e (rn_handover n) of
        None \<Rightarrow> None
      | Some (moved, ho) \<Rightarrow>
          (case Leave leaveOk shutdownOk (rn_cluster n) of ((lerr, acts), c) \<Rightarrow>
             Some ((if rn_proxy n \<noteq> None then [StopProxy] else []) @ (if rn_api n \<noteq> None then [StopApi] else []) @ [StopGrpc] @
                   flushed @ moved @ [LeaveCluster lerr acts, CloseCaches, StopMetrics],
                   n\<lparr>rn_engine := e, rn_handover := ho, rn_cluster := c\<rparr>)))"

lemma Evacuate_first: "\<not> ho_shutdown h \<Longrightarrow> \<exists>err out h'. Evacuate ot xx marshalB compress marshal send clk now local addrs a h = Some ((err, out), h')"
  by (auto simp: Evacuate_def Let_def split: option.split)

lemma Evacuate_adopter:
  assumes "Evacuate ot xx marshalB compress marshal send clk now local addrs a h = Some ((None, out), h')" and "SnapshotAll ot now a \<noteq> []"
  shows "\<exists>x d pre. x \<in> set addrs \<and> x \<noteq> local \<and> send x d \<and> (\<forall>y \<in> set pre. \<not> send y d) \<and>
    filter (\<lambda>u. case u of Metric _ \<Rightarrow> False | _ \<Rightarrow> True) out = map (\<lambda>y. SendReliable y d) (pre @ [x])"
proof -
  obtain n d where t: "tryAdopters send clk now (now + ho_timeout h) n d (filter (\<lambda>x. x \<noteq> local) addrs) = (None, out)"
    using assms by (auto simp: Evacuate_def Let_def split: if_splits option.splits)
  from tryAdopters_success [OF t] obtain pre x post where p: "filter (\<lambda>x. x \<noteq> local) addrs = pre @ x # post" "send x d"
      "\<forall>y \<in> set pre. \<not> send y d" "out = map (\<lambda>x. SendReliable x d) (pre @ [x]) @
         [Metric (AddHandoverOut n), Metric (ObserveHandoverDuration ((clk x - now) div Millisecond))]" by blast
  have "x \<in> set (filter (\<lambda>x. x \<noteq> local) addrs)" unfolding p(1) by simp
  moreover have "filter (\<lambda>u. case u of Metric _ \<Rightarrow> False | _ \<Rightarrow> True) out = map (\<lambda>y. SendReliable y d) (pre @ [x])"
    by (simp add: p(4) filter_map comp_def)
  ultimately show ?thesis using p(2,3) by auto
qed


definition demo_host ::
  "((string \<times> accountingRuleWithName) list, nat ttl_map, string list, blocklistEntryData ttl_map, unit, unit drlMessage,
    unit, registry, unit, unit, unit) host" where
  "demo_host =
     \<lparr>h_versionFlag = False,
      h_loader = demo_loader\<lparr>ld_kdl := (\<lambda>_ _. Some (demo_config\<lparr>InternalAPI := \<lparr>APIEnabled = True, APIAddress = '':8082''\<rparr>\<rparr>)),
                             ld_getenv := (\<lambda>k. if k = ''DRL_PRIVATE_API_KEY'' then ''0123456789abcdef'' else '''')\<rparr>,
      h_configPath = '''', h_version = ''1'', h_parseLevel = (\<lambda>_. True), h_lookup = Some [[10, 0, 0, 1]], h_prom = list_prom, h_env = demo_env,
      h_mkB = (\<lambda>_. Some ttl_empty), h_mkA = (\<lambda>_. Some ttl_empty), h_ring = [], h_keyring = (\<lambda>_ _. Some ()),
      h_lan = \<lparr>ml_Name = '''', ml_BindAddr = '''', ml_BindPort = 0, ml_AdvertiseAddr = '''', ml_AdvertisePort = 0,
               ml_GossipInterval = 0, ml_GossipNodes = 3, ml_Keyring = None, ml_Delegate = False\<rparr>,
      h_create = (\<lambda>c. Some [(ml_Name c, ml_AdvertiseAddr c)]), h_channelListen = (\<lambda>_ _. True), h_sha = demo_sha, h_hmac = demo_hmac,
      h_generateKey = Some (), h_compile = (\<lambda>_. Some ()), h_now = 0, h_grpcListen = (\<lambda>_. True), h_discover = (\<lambda>_. True),
      h_parseURL = (\<lambda>_. None), h_keyPair = (\<lambda>_ _. None)\<rparr>"

lemma demo_host_serves: "case Execute demo_host of Serving _ \<Rightarrow> True | Exit _ \<Rightarrow> False"
  by code_simp

theorem serving_node_witness:
  "\<exists>n cfg. Execute demo_host = Serving n \<and> Load (h_loader demo_host) '''' = Inr cfg \<and> APIEnabled (InternalAPI cfg) \<and> rn_handover n \<noteq> None"
proof -
  obtain n where n: "Execute demo_host = Serving n" using demo_host_serves by (cases "Execute demo_host") auto
  from serving_node [OF n] n show ?thesis by (auto simp: demo_host_def)
qed

definition demo_running ::
  "((string \<times> accountingRuleWithName) list, nat ttl_map, string list, blocklistEntryData ttl_map, unit, unit, unit, unit) running" where
  "demo_running =
     \<lparr>rn_localIP = ''n1'', rn_metrics = (),
      rn_cluster = NewCluster NewConfig ''n1'' \<lparr>mg_Blocklist = emptyBlocklist, mg_Accounting = emptyAccounting ''n1'' [''n1'']\<rparr>,
      rn_engine = demo_engine 0 (emptyAccounting ''n1'' [''n1'']),
      rn_handover = Some \<lparr>ho_shutdown = False, ho_hasFlusher = True, ho_settling = 0, ho_timeout = 10\<rparr>,
      rn_api = None, rn_grpc = '''', rn_proxy = None\<rparr>"


end
