(* ===== verification/Fleet.thy ===== *)
theory Fleet
  imports GrpcServer Delegate
begin

text \<open>
  Several nodes and the packets between them: the components of one node (\<open>internal/accounting\<close>,
  \<open>internal/cache\<close>, \<open>internal/membership\<close>) composed into a cluster. A step is one operation of one node,
  the delivery of one packet, or its loss; packets are delivered in any order, or never, but each at
  most once. Nothing is assumed about the members each node knows, about the times of the calls, or
  about the space in the caches.
\<close>

section \<open>Hits as natural numbers\<close>

text \<open>
  The hits for one entity in the containers of the code. The counters wrap, so a sum of their values
  is only ever an upper bound; that is the direction the bounds below need.
\<close>

definition tableHits :: "(uint64 \<times> uint64) list \<Rightarrow> uint64 \<Rightarrow> nat" where
  "tableHits m h = sum_list (map (\<lambda>(k, v). if k = h then unat v else 0) m)"

definition tablesHits :: "(string \<times> (uint64 \<times> uint64) list) list \<Rightarrow> uint64 \<Rightarrow> nat" where
  "tablesHits m h = sum_list (map (\<lambda>(_, b). tableHits b h) m)"

definition entriesHits :: "counterEntry list \<Rightarrow> uint64 \<Rightarrow> nat" where
  "entriesHits es h = sum_list (map (\<lambda>en. if EntityHash en = h then unat (Hits en) else 0) es)"

definition cacheHits :: "('c \<Rightarrow> string \<Rightarrow> (nat \<times> gotime) option) \<Rightarrow> ('c, 'r) accountingCache \<Rightarrow> uint64 \<Rightarrow> nat" where
  "cacheHits stored a h = (case counter stored a (HashToEntityKey h) of None \<Rightarrow> 0 | Some (n, _) \<Rightarrow> unat n)"

lemma unat_plus_le: "unat (a + b :: 64 word) \<le> unat a + unat b"
  by (simp add: unat_word_ariths)

lemma sint_le_unat: "sint (n :: 64 word) \<le> int (unat n)"
proof -
  have "take_bit 64 (uint n) = uint n" using uint_lt2p [of n] by (simp add: take_bit_int_eq_self)
  then show ?thesis by (simp add: sint_uint signed_take_bit_eq_take_bit_minus)
qed

lemma hits_Nil [simp]: "tableHits [] h = 0" "tablesHits [] h = 0" "entriesHits [] h = 0"
  by (simp_all add: tableHits_def tablesHits_def entriesHits_def)

lemma hits_Cons [simp]:
  "tableHits ((k, v) # m) h = (if k = h then unat v else 0) + tableHits m h"
  "tablesHits ((x, b) # ms) h = tableHits b h + tablesHits ms h"
  "entriesHits (en # es) h = (if EntityHash en = h then unat (Hits en) else 0) + entriesHits es h"
  by (simp_all add: tableHits_def tablesHits_def entriesHits_def)

lemma entriesHits_toEntries [simp]: "entriesHits (toEntries m) h = tableHits m h"
  by (induction m) (auto simp: toEntries_def)

lemma tableHits_mput: "tableHits (mput k v m) h \<le> tableHits m h + (if k = h then unat v else 0)"
  by (induction k v m rule: mput.induct) auto

lemma tableHits_replace:
  "map_of m k = Some w \<Longrightarrow> tableHits (mput k v m) k + unat w = tableHits m k + unat v"
  by (induction k v m rule: mput.induct) (auto split: if_splits)

lemma tableHits_madd: "tableHits (madd k v m) h \<le> tableHits m h + (if k = h then unat v else 0)"
proof (cases "k = h")
  case True
  show ?thesis
  proof (cases "map_of m k")
    case (Some w)
    with True show ?thesis
      using tableHits_replace [OF Some, of "w + v"] unat_plus_le [of w v] by (simp add: madd_def)
  qed (use True tableHits_mput [of k v m h] in \<open>simp add: madd_def\<close>)
qed (use tableHits_mput [of k _ m h] in \<open>simp add: madd_def\<close>)

lemma tableHits_merge: "tableHits (fold (\<lambda>(k, v). madd k v) es m) h \<le> tableHits m h + tableHits es h"
proof (induction es arbitrary: m)
  case (Cons e es)
  obtain k v where e: "e = (k, v)" by (cases e)
  show ?case using Cons.IH [of "madd k v m"] tableHits_madd [of k v m h] by (simp add: e)
qed simp

lemma tablesHits_mput:
  "tablesHits (mput x b ms) h + (case map_of ms x of None \<Rightarrow> 0 | Some b' \<Rightarrow> tableHits b' h) = tablesHits ms h + tableHits b h"
  by (induction x b ms rule: mput.induct) auto

lemma tablesHits_mdel:
  "tablesHits (mdel x ms) h + (case map_of ms x of None \<Rightarrow> 0 | Some b \<Rightarrow> tableHits b h) \<le> tablesHits ms h"
  by (induction ms) (auto simp: mdel_def split: option.split)

section \<open>What each operation does to the hits\<close>

context accounting_cache
begin

lemma Increment_cacheHits:
  assumes wf: "ac_wf stored a"
  shows "cacheHits stored (snd (Increment ot t (HashToEntityKey g) \<delta> a)) h \<le> cacheHits stored a h + (if h = g then unat \<delta> else 0)"
proof (cases "otter_GetIfPresent ot t (HashToEntityKey g) (ac_cache a)")
  case (Some p)
  then obtain d where p: "stored (ac_cache a) (HashToEntityKey g) = Some (p, d)" by (auto simp: get live_Some_iff)
  have "q = p \<longleftrightarrow> h = g" if "stored (ac_cache a) (HashToEntityKey h) = Some (q, d')" for q d'
    using wf p that HashToEntityKey_inject unfolding ac_wf_def by (metis option.inject prod.inject)
  with Some p show ?thesis
    using unat_plus_le [of "ac_heap a p" \<delta>]
    by (cases "stored (ac_cache a) (HashToEntityKey h)") (auto simp: Increment_def cacheHits_def counter_def)
next
  case None
  let ?c = "otter_Set ot t (ac_windowSize a) (HashToEntityKey g) (ac_next a) (ac_cache a)"
  have old: "stored (ac_cache a) (HashToEntityKey h) = Some (q, d) \<and> q \<noteq> ac_next a"
    if "stored ?c (HashToEntityKey h) = Some (q, d)" "h \<noteq> g" for q d
    using set_sound_other [of "HashToEntityKey h" "HashToEntityKey g" t "ac_windowSize a" "ac_next a" "ac_cache a" "(q, d)"]
      wf that HashToEntityKey_inject [of h g] unfolding ac_wf_def by (metis less_irrefl)
  have new: "q = ac_next a" if "stored ?c (HashToEntityKey g) = Some (q, d)" for q d
    using set_sound_same that by blast
  show ?thesis
    using None old new
    by (cases "h = g"; cases "stored ?c (HashToEntityKey h)") (auto simp: Increment_def cacheHits_def counter_def Let_def)
qed

lemma Increment_result: "unat (fst (Increment ot t (HashToEntityKey g) \<delta> a)) \<le> cacheHits stored a g + unat \<delta>"
proof -
  have "unat (reading t (HashToEntityKey g) (counter stored a)) \<le> cacheHits stored a g"
    by (cases "(t, counter stored a (HashToEntityKey g))" rule: live.cases) (simp_all add: reading_def cacheHits_def)
  then show ?thesis using unat_plus_le [of "reading t (HashToEntityKey g) (counter stored a)" \<delta>] by (simp add: Increment_value)
qed

lemma Increment_canonical:
  assumes "canonical_keys stored a"
  shows "canonical_keys stored (snd (Increment ot t (HashToEntityKey g) \<delta> a))"
  using assms set_sound_other
  by (auto simp: canonical_keys_def Increment_def Let_def split: option.split) (metis rangeI)

end

context accounting_cache
begin

lemma inval_cacheHits:
  "stored c = (stored (ac_cache a))(k := None) \<Longrightarrow>
    cacheHits stored (a\<lparr>ac_cache := c\<rparr>) h = (if HashToEntityKey h = k then 0 else cacheHits stored a h)"
  by (simp add: cacheHits_def counter_def)

lemma takeCounters_hits:
  assumes "canonical_keys stored a" and "takeCounters ot t ks tr a = (tr', a')"
  shows "tableHits tr' h + cacheHits stored a' h \<le> tableHits tr h + cacheHits stored a h"
  using assms
proof (induction ks arbitrary: tr a)
  case (Cons k ks)
  show ?case
  proof (cases "EntityKeyToHash k")
    case (Inl err)
    with Cons show ?thesis by simp
  next
    case (Inr hash)
    obtain w c where i: "otter_Invalidate ot t k (ac_cache a) = (w, c)" by fastforce
    then have w: "w = live t (stored (ac_cache a) k)" and c: "stored c = (stored (ac_cache a))(k := None)"
      using inval_value [of t k "ac_cache a"] inval_stored [of t k "ac_cache a"] by simp_all
    have can: "canonical_keys stored (a\<lparr>ac_cache := c\<rparr>)" using Cons.prems(1) by (simp add: canonical_keys_def c)
    show ?thesis
    proof (cases w)
      case None
      with Cons.prems(2) Inr i have "takeCounters ot t ks tr (a\<lparr>ac_cache := c\<rparr>) = (tr', a')" by simp
      from Cons.IH [OF can this] show ?thesis by (simp add: inval_cacheHits [OF c] split: if_splits)
    next
      case (Some v)
      with w have "live t (stored (ac_cache a) k) = Some v" by simp
      then obtain d where v: "stored (ac_cache a) k = Some (v, d)" by (auto simp: live_Some_iff)
      then obtain g where k: "k = HashToEntityKey g" using Cons.prems(1) by (force simp: canonical_keys_def)
      with Inr have "hash = g" by (simp add: key_hash_roundtrip)
      with Cons.prems(2) Inr i Some have "takeCounters ot t ks (mput g (ac_heap a v) tr) (a\<lparr>ac_cache := c\<rparr>) = (tr', a')" by simp
      from Cons.IH [OF can this]
      have "tableHits tr' h + cacheHits stored a' h \<le> tableHits (mput g (ac_heap a v) tr) h + (if h = g then 0 else cacheHits stored a h)"
        by (simp add: inval_cacheHits [OF c] k)
      moreover have "cacheHits stored a g = unat (ac_heap a v)" using v by (simp add: cacheHits_def counter_def k)
      ultimately show ?thesis using tableHits_mput [of g "ac_heap a v" tr h] by (cases "h = g") simp_all
    qed
  qed
qed simp

text \<open>A change of membership moves hits between the cache and the waiting tables, and never makes any up.\<close>

lemma updateTransferable_hits:
  "canonical_keys stored a \<Longrightarrow>
    tablesHits (ac_transferable (updateTransferableLocked ot rg t ms a)) h + cacheHits stored (updateTransferableLocked ot rg t ms a) h
      \<le> tablesHits (ac_transferable a) h + cacheHits stored a h"
proof (induction ms arbitrary: a)
  case (Cons m ms)
  obtain tr a1 where g: "getTransferableLocked ot rg t m a = (tr, a1)" by fastforce
  note mv = getTransferable_moves [OF Cons.prems g]
  let ?a2 = "a1\<lparr>ac_transferable := mput m tr (ac_transferable a1)\<rparr>"
  have can: "canonical_keys stored ?a2"
    using mv(5) Cons.prems by (auto simp: canonical_keys_def) (metis option.distinct(1))
  have "ac_transferable a1 = ac_transferable a" by (subst mv(4)) simp
  moreover have "tableHits tr h + cacheHits stored a1 h \<le> cacheHits stored a h"
    using takeCounters_hits [OF Cons.prems g [unfolded getTransferableLocked_def Let_def], of h] by simp
  moreover have "cacheHits stored ?a2 h = cacheHits stored a1 h" by (simp add: cacheHits_def counter_def)
  ultimately show ?case
    using Cons.IH [OF can] tablesHits_mput [of m tr "ac_transferable a1" h] by (simp add: g)
qed simp

lemma UpdateNodes_hits:
  assumes "canonical_keys stored a"
  shows "tablesHits (ac_transferable (UpdateNodes ot rg t ns a)) h + cacheHits stored (UpdateNodes ot rg t ns a) h
    \<le> tablesHits (ac_transferable a) h + cacheHits stored a h"
  using updateTransferable_hits [of "a\<lparr>ac_ring := updateRing rg ns (ac_ring a)\<rparr>" t _ h] assms
  by (simp add: UpdateNodes_def Let_def canonical_keys_def cacheHits_def)

lemma UpdateNodes_wf:
  "canonical_keys stored a \<Longrightarrow> ac_wf stored a \<Longrightarrow>
    ac_wf stored (UpdateNodes ot rg t ns a) \<and> canonical_keys stored (UpdateNodes ot rg t ns a)"
  using handed_over_wf [OF UpdateNodes_moves, of a ns t] handed_over_canonical [OF UpdateNodes_moves, of a ns t]
  by (simp add: ac_wf_def canonical_keys_def)

end

section \<open>Packets\<close>

text \<open>The serialisers of the nodes: protobuf for messages and batches, zstd for handovers, msgpack for blocklist entries.\<close>

record ('z, 'w) wire =
  w_unmarshal :: "'w list \<Rightarrow> 'z drlMessage option"
  w_marshalB :: "counterBatch \<Rightarrow> 'z list option"
  w_unmarshalB :: "'z list \<Rightarrow> counterBatch option"
  w_compress :: "'z list \<Rightarrow> 'z list"
  w_decompress :: "'z list \<Rightarrow> 'z list option"
  w_marshalE :: "blocklistEntry list \<Rightarrow> 'w list option"
  w_unmarshalE :: "'w list \<Rightarrow> blocklistEntry list option"

text \<open>The counter entries a packet brings to its receiver.\<close>

definition packetEntries :: "('z, 'w) wire \<Rightarrow> 'w list \<Rightarrow> counterEntry list" where
  "packetEntries w data =
     (case w_unmarshal w data of
        Some (Counters b) \<Rightarrow> cb_Entries b
      | Some (HandoverMsg p) \<Rightarrow>
          (case Option.bind (w_decompress w (hp_CompressedEntries p)) (w_unmarshalB w) of Some b \<Rightarrow> cb_Entries b | None \<Rightarrow> [])
      | _ \<Rightarrow> [])"

fun packetHits :: "('z, 'w) wire \<Rightarrow> uint64 \<Rightarrow> 'w effect \<Rightarrow> nat" where
  "packetHits w h (SendBestEffort _ data) = entriesHits (packetEntries w data) h"
| "packetHits w h (SendReliable _ data) = entriesHits (packetEntries w data) h"
| "packetHits w h _ = 0"

definition netHits :: "('z, 'w) wire \<Rightarrow> 'w effect list \<Rightarrow> uint64 \<Rightarrow> nat" where
  "netHits w xs h = sum_list (map (packetHits w h) xs)"

text \<open>The effects that put something on the network.\<close>

fun isPacket :: "'w effect \<Rightarrow> bool" where
  "isPacket (Metric _) = False"
| "isPacket _ = True"

lemma netHits_simps [simp]:
  "netHits w [] h = 0" "netHits w (x # xs) h = packetHits w h x + netHits w xs h"
  "netHits w (xs @ ys) h = netHits w xs h + netHits w ys h"
  by (simp_all add: netHits_def)

lemma netHits_packets [simp]: "netHits w (filter isPacket xs) h = netHits w xs h"
proof (induction xs)
  case (Cons x xs)
  then show ?case by (cases x) simp_all
qed simp

lemma flushNode_hits:
  assumes "codec enc (w_unmarshal w)" and "flushNode enc send t addr f = (f', out)"
  shows "netHits w out h + tablesHits (fl_buffers f') h \<le> tablesHits (fl_buffers f) h"
proof -
  let ?m = "Counters \<lparr>cb_SenderId = fl_senderID f, cb_Timestamp = unixMilli t, cb_Entries = toEntries (buffer addr f)\<rparr>"
  have f': "f' = setBuffer addr [] f" using assms(2) by (auto simp: flushNode_def Let_def split: option.splits if_splits)
  have "tablesHits (fl_buffers f') h + tableHits (buffer addr f) h = tablesHits (fl_buffers f) h"
    using tablesHits_mput [of addr "[]" "fl_buffers f" h] by (simp add: f' setBuffer_def buffer_def split: option.splits)
  moreover have "netHits w out h \<le> tableHits (buffer addr f) h"
  proof (cases "enc ?m")
    case (Some data)
    with codec.dec_enc [OF assms(1) Some] have "entriesHits (packetEntries w data) h = tableHits (buffer addr f) h"
      by (simp add: packetEntries_def)
    with Some assms(2) show ?thesis by (auto simp: flushNode_def Let_def split: if_splits)
  qed (use assms(2) in \<open>simp add: flushNode_def Let_def\<close>)
  ultimately show ?thesis by simp
qed

lemma flush_loop_hits:
  assumes "codec enc (w_unmarshal w)" and "flush_loop enc send t addrs f = (f', out)"
  shows "netHits w out h + tablesHits (fl_buffers f') h \<le> tablesHits (fl_buffers f) h"
  using assms(2)
proof (induction addrs arbitrary: f f' out)
  case (Cons addr addrs)
  obtain f1 out1 where 1: "flushNode enc send t addr f = (f1, out1)" by fastforce
  obtain f2 out2 where 2: "flush_loop enc send t addrs f1 = (f2, out2)" by fastforce
  from Cons.IH [OF 2] flushNode_hits [OF assms(1) 1, of h] Cons.prems Cons.IH [of f f' out] 1 2 show ?case
    by (auto split: if_splits)
qed simp

lemma Enqueue_hits:
  assumes co: "codec enc (w_unmarshal w)" and e: "Enqueue enc send t addr g n a f = ((f', out), a')"
  shows "netHits w out h + tablesHits (fl_buffers f') h + tablesHits (ac_transferable a') h
      \<le> tablesHits (fl_buffers f) h + tablesHits (ac_transferable a) h + (if h = g then unat n else 0)"
    and "a' = a\<lparr>ac_transferable := mdel addr (ac_transferable a)\<rparr>"
proof -
  let ?es = "madd g n (buffer addr f)"
  let ?es' = "case map_of (ac_transferable a) addr of None \<Rightarrow> ?es | Some tr \<Rightarrow> fold (\<lambda>(k, v). madd k v) tr ?es"
  let ?f = "setBuffer addr ?es' f"
  show a': "a' = a\<lparr>ac_transferable := mdel addr (ac_transferable a)\<rparr>"
    using e by (auto simp: Enqueue_def ConsumeTransferable_def Let_def)
  have fo: "(f', out) = (if fl_maxBatchSize f \<le> int (length ?es') then flushNode enc send t addr ?f else (?f, []))"
    using e by (auto simp: Enqueue_def ConsumeTransferable_def Let_def)
  have out: "netHits w out h + tablesHits (fl_buffers f') h \<le> tablesHits (fl_buffers ?f) h"
    using fo flushNode_hits [OF co, of send t addr ?f f' out h] by (cases "fl_maxBatchSize f \<le> int (length ?es')") simp_all
  have buf: "tablesHits (fl_buffers ?f) h + tableHits (buffer addr f) h = tablesHits (fl_buffers f) h + tableHits ?es' h"
    using tablesHits_mput [of addr ?es' "fl_buffers f" h] by (simp add: setBuffer_def buffer_def split: option.splits)
  have "tableHits ?es h \<le> tableHits (buffer addr f) h + (if h = g then unat n else 0)"
    using tableHits_madd [of g n "buffer addr f" h] by (auto split: if_splits)
  moreover have "tableHits ?es' h \<le> tableHits ?es h + (case map_of (ac_transferable a) addr of None \<Rightarrow> 0 | Some tr \<Rightarrow> tableHits tr h)"
    using tableHits_merge by (simp split: option.split)
  ultimately show "netHits w out h + tablesHits (fl_buffers f') h + tablesHits (ac_transferable a') h
      \<le> tablesHits (fl_buffers f) h + tablesHits (ac_transferable a) h + (if h = g then unat n else 0)"
    using out buf tablesHits_mdel [of addr "ac_transferable a" h] by (simp add: a')
qed

section \<open>The cluster as a step relation\<close>

text \<open>The engine and the delegate of a node work on the same two caches.\<close>

definition managerOf :: "('t, 'c, 'r, 'b) engine \<Rightarrow> ('b, 'c, 'r) manager" where
  "managerOf e = \<lparr>mg_Blocklist = en_blocklist e, mg_Accounting = en_accounting e\<rparr>"

definition withManager :: "('b, 'c, 'r) manager \<Rightarrow> ('t, 'c, 'r, 'b) engine \<Rightarrow> ('t, 'c, 'r, 'b) engine" where
  "withManager m e = e\<lparr>en_blocklist := mg_Blocklist m, en_accounting := mg_Accounting m\<rparr>"

text \<open>The broadcaster of the engine is the delegate's \<open>QueueBlockEvent\<close>; its error is only logged.\<close>

definition broadcastBlock ::
  "('z drlMessage \<Rightarrow> 'w list option) \<Rightarrow> clusterView option \<Rightarrow> gotime \<Rightarrow> string \<Rightarrow> duration \<Rightarrow> entity option \<Rightarrow> 'w effect list" where
  "broadcastBlock marshal cv now key ttl ent = (case QueueBlockEvent marshal cv now key ttl ent of None \<Rightarrow> [] | Some (out, _) \<Rightarrow> out)"

definition broadcastUnblock :: "('z drlMessage \<Rightarrow> 'w list option) \<Rightarrow> clusterView option \<Rightarrow> string \<Rightarrow> 'w effect list" where
  "broadcastUnblock marshal cv key = (case QueueUnblockEvent marshal cv key of None \<Rightarrow> [] | Some (out, _) \<Rightarrow> out)"

text \<open>
  What a node does with a packet. A handover is redistributed after the settling period, at time
  \<open>t'\<close>, with no other operation of the node in between.
\<close>

definition notify ::
  "('t, 'c, 'r, 'b, 'z, 'w) env \<Rightarrow> ('z, 'w) wire \<Rightarrow> gotime \<Rightarrow> gotime \<Rightarrow> delegate \<Rightarrow> 'w list \<Rightarrow> ('t, 'c, 'r, 'b) engine \<Rightarrow>
   ('t, 'c, 'r, 'b) engine \<times> 'w effect list" where
  "notify v w t t' d data e =
     (case NotifyMsg (e_ac v) (e_bl v) (w_unmarshal w) (w_decompress w) (w_unmarshalB w) t data d (managerOf e) of
        ((m, out), batch) \<Rightarrow>
          let e1 = withManager m e
          in case batch of
               None \<Rightarrow> (e1, out)
             | Some b \<Rightarrow>
                 (case redistribute (e_ac v) (e_rg v) (e_marshal v) (e_send v) t' b (en_accounting e1) (en_flusher e1) of
                    (a, f, out') \<Rightarrow> (e1\<lparr>en_accounting := a, en_flusher := f\<rparr>, out @ out')))"

fun receive ::
  "('t, 'c, 'r, 'b, 'z, 'w) env \<Rightarrow> ('z, 'w) wire \<Rightarrow> gotime \<Rightarrow> gotime \<Rightarrow> delegate \<Rightarrow> 'w effect \<Rightarrow> ('t, 'c, 'r, 'b) engine \<Rightarrow>
   ('t, 'c, 'r, 'b) engine \<times> 'w effect list" where
  "receive v w t t' d (SendBestEffort _ data) e = notify v w t t' d data e"
| "receive v w t t' d (SendReliable _ data) e = notify v w t t' d data e"
| "receive v w t t' d (ChannelSend _ msg) e =
     (case dispatch (e_bl v) t msg (managerOf e) of (m, out) \<Rightarrow> (withManager m e, out))"
| "receive v w t t' d (Metric _) e = (e, [])"

fun destination :: "'w effect \<Rightarrow> string option" where
  "destination (SendBestEffort addr _) = Some addr"
| "destination (SendReliable addr _) = Some addr"
| "destination (ChannelSend addr _) = Some addr"
| "destination (Metric _) = None"

text \<open>
  \<open>ft_hits\<close> and \<open>ft_admin\<close> are history: the requests of each entity that were accounted so far, and the
  keys an administrator has blocked.
\<close>

record ('t, 'c, 'r, 'b, 'w) fleet =
  ft_up :: "string list"
  ft_node :: "string \<Rightarrow> ('t, 'c, 'r, 'b) engine"
  ft_net :: "'w effect list"
  ft_hits :: "uint64 \<Rightarrow> nat"
  ft_admin :: "string list"

definition putNode :: "string \<Rightarrow> ('t, 'c, 'r, 'b) engine \<Rightarrow> 'w effect list \<Rightarrow> ('t, 'c, 'r, 'b, 'w) fleet \<Rightarrow> ('t, 'c, 'r, 'b, 'w) fleet" where
  "putNode n e out F = F\<lparr>ft_node := (ft_node F)(n := e), ft_net := ft_net F @ filter isPacket out\<rparr>"

definition countHit ::
  "('t, 'c, 'r, 'b, 'z, 'w) env \<Rightarrow> string \<Rightarrow> string \<Rightarrow> strmap \<Rightarrow> ('t, 'c, 'r, 'b) engine \<Rightarrow> (uint64 \<Rightarrow> nat) \<Rightarrow> uint64 \<Rightarrow> nat" where
  "countHit v ip path hs e H =
     (case resolveEntity v ip path hs e of Some (Some (_, _, h, _)) \<Rightarrow> H(h := Suc (H h)) | _ \<Rightarrow> H)"

text \<open>
  The steps. \<open>Join\<close>: a process starts with the engine \<open>fresh n\<close>. \<open>Request\<close>, \<open>Load\<close>: a request, or a line of a
  bulk load, is accounted. \<open>Tick\<close>: the flusher runs. \<open>Members\<close>: the ring is told a member list. \<open>Deliver\<close>, \<open>Drop\<close>:
  a packet arrives or is lost. \<open>Sync\<close>: node \<open>m\<close> merges the blocklist of node \<open>n\<close>. \<open>AdminBlock\<close>,
  \<open>AdminUnblock\<close>: the administrative handlers. \<open>Leave\<close>: after its listeners and its flusher have stopped, a node
  evacuates its counters; one of the attempted sends goes through. \<open>Crash\<close>: a node is gone, with all it held.
\<close>

inductive fleet_step ::
  "('t, 'c, 'r, 'b, 'z, 'w) env \<Rightarrow> ('z, 'w) wire \<Rightarrow> (string \<Rightarrow> ('t, 'c, 'r, 'b) engine) \<Rightarrow>
   ('t, 'c, 'r, 'b, 'w) fleet \<Rightarrow> ('t, 'c, 'r, 'b, 'w) fleet \<Rightarrow> bool" for v w fresh where
  Join: "n \<notin> set (ft_up F) \<Longrightarrow> fleet_step v w fresh F (F\<lparr>ft_up := n # ft_up F, ft_node := (ft_node F)(n := fresh n)\<rparr>)"
| Request: "n \<in> set (ft_up F) \<Longrightarrow>
    Process (v\<lparr>e_bcast := broadcastBlock (e_marshal v) cv\<rparr>) t ip path hs (ft_node F n) = Some (e, out) \<Longrightarrow>
    fleet_step v w fresh F ((putNode n e out F)\<lparr>ft_hits := countHit v ip path hs (ft_node F n) (ft_hits F)\<rparr>)"
| Load: "n \<in> set (ft_up F) \<Longrightarrow> BulkLoad v t ip path hs enabled (ft_node F n) = Some (r, e, out) \<Longrightarrow>
    fleet_step v w fresh F ((putNode n e out F)\<lparr>ft_hits := countHit v ip path hs (ft_node F n) (ft_hits F)\<rparr>)"
| Tick: "n \<in> set (ft_up F) \<Longrightarrow> en_flusher (ft_node F n) = Some f \<Longrightarrow> flush (e_marshal v) (e_send v) t f = (f', out) \<Longrightarrow>
    fleet_step v w fresh F (putNode n ((ft_node F n)\<lparr>en_flusher := Some f'\<rparr>) out F)"
| Members: "n \<in> set (ft_up F) \<Longrightarrow>
    fleet_step v w fresh F
      (putNode n ((ft_node F n)\<lparr>en_accounting := UpdateNodes (e_ac v) (e_rg v) t ns (en_accounting (ft_node F n))\<rparr>) [] F)"
| Deliver: "ft_net F = xs @ x # ys \<Longrightarrow> destination x = Some n \<Longrightarrow> n \<in> set (ft_up F) \<Longrightarrow>
    receive v w t t' d x (ft_node F n) = (e, out) \<Longrightarrow>
    fleet_step v w fresh F (putNode n e out (F\<lparr>ft_net := xs @ ys\<rparr>))"
| Drop: "ft_net F = xs @ x # ys \<Longrightarrow> fleet_step v w fresh F (F\<lparr>ft_net := xs @ ys\<rparr>)"
| Sync: "m \<in> set (ft_up F) \<Longrightarrow> n \<in> set (ft_up F) \<Longrightarrow>
    MergeRemoteState (e_xx v) (e_bl v) (w_unmarshalE w) t t' (LocalState (e_bl v) (w_marshalE w) t0 (managerOf (ft_node F n))) d
      (managerOf (ft_node F m)) = ((d', mg), out :: 'w effect list) \<Longrightarrow>
    fleet_step v w fresh F (putNode m (withManager mg (ft_node F m)) [] F)"
| AdminBlock: "n \<in> set (ft_up F) \<Longrightarrow> k = Key (e_xx v) ent \<Longrightarrow>
    fleet_step v w fresh F
      ((putNode n ((ft_node F n)\<lparr>en_blocklist := Block (e_bl v) t k ttl (Some ent) (en_blocklist (ft_node F n))\<rparr>)
         (broadcastBlock (e_marshal v) cv t k ttl (Some ent)) F)\<lparr>ft_admin := k # ft_admin F\<rparr>)"
| AdminUnblock: "n \<in> set (ft_up F) \<Longrightarrow>
    fleet_step v w fresh F
      (putNode n ((ft_node F n)\<lparr>en_blocklist := Unblock (e_bl v) t k (en_blocklist (ft_node F n))\<rparr>)
         (broadcastUnblock (e_marshal v) cv k) F)"
| Leave: "n \<in> set (ft_up F) \<Longrightarrow>
    Evacuate (e_ac v) (e_xx v) (w_marshalB w) (w_compress w) (e_marshal v) reliable clk t n addrs (en_accounting (ft_node F n)) ho =
      Some ((None, out), ho') \<Longrightarrow> SendReliable addr data \<in> set out \<Longrightarrow>
    fleet_step v w fresh F (F\<lparr>ft_up := removeAll n (ft_up F), ft_net := ft_net F @ [SendReliable addr data]\<rparr>)"
| Crash: "fleet_step v w fresh F (F\<lparr>ft_up := removeAll n (ft_up F)\<rparr>)"

inductive_cases fleet_stepE: "fleet_step v w fresh F F'"

inductive fleet_reachable ::
  "('t, 'c, 'r, 'b, 'z, 'w) env \<Rightarrow> ('z, 'w) wire \<Rightarrow> (string \<Rightarrow> ('t, 'c, 'r, 'b) engine) \<Rightarrow> ('t, 'c, 'r, 'b, 'w) fleet \<Rightarrow> bool"
  for v w fresh where
  Start: "fleet_reachable v w fresh \<lparr>ft_up = [], ft_node = fresh, ft_net = [], ft_hits = (\<lambda>_. 0), ft_admin = []\<rparr>"
| Next: "fleet_reachable v w fresh F \<Longrightarrow> fleet_step v w fresh F F' \<Longrightarrow> fleet_reachable v w fresh F'"

section \<open>Broadcasts carry no hits\<close>

lemma channelSends_mem: "x \<in> set (fst (channelSends msg addrs cm)) \<Longrightarrow> \<exists>a. x = ChannelSend a msg"
proof (induction addrs arbitrary: cm)
  case (Cons addr addrs)
  then show ?case by (auto simp: case_prod_unfold split: if_splits)
qed simp

lemma viaChannel_mem: "x \<in> set (fst (sendToAllPeersViaChannel cv msg)) \<Longrightarrow> \<exists>a. x = ChannelSend a msg"
  using channelSends_mem by (auto simp: sendToAllPeersViaChannel_def case_prod_unfold split: option.splits)

lemma async_mem: "x \<in> set (sendToAllPeersAsync cv data) \<Longrightarrow> \<exists>a. x = SendReliable a data"
  by (auto simp: sendToAllPeersAsync_def split: option.splits)

lemma broadcastBlock_mem:
  assumes x: "x \<in> set (broadcastBlock enc cv t k ttl ent)"
  shows "(\<exists>a data. x = SendReliable a data \<and> enc (BlockWithExpiresAtMsg (blockEventFor t k ttl ent)) = Some data) \<or>
    (\<exists>a. x = ChannelSend a (Ch_BlockWithExpiresAt (blockEventFor t k ttl ent)))"
proof (cases "useChannel cv")
  case True
  with x show ?thesis
    using viaChannel_mem [of x cv] by (simp add: broadcastBlock_def QueueBlockEvent_def Let_def case_prod_unfold)
next
  case False
  with x show ?thesis
    using async_mem [of x cv] by (cases "enc (BlockWithExpiresAtMsg (blockEventFor t k ttl ent))")
      (auto simp: broadcastBlock_def QueueBlockEvent_def Let_def)
qed

lemma broadcastUnblock_mem:
  assumes x: "x \<in> set (broadcastUnblock enc cv k)"
  shows "(\<exists>a data. x = SendReliable a data \<and> enc (UnblockMsg k) = Some data) \<or> (\<exists>a. x = ChannelSend a (Ch_Unblock k))"
proof (cases "useChannel cv")
  case True
  with x show ?thesis
    using viaChannel_mem [of x cv] by (simp add: broadcastUnblock_def QueueUnblockEvent_def case_prod_unfold)
next
  case False
  with x show ?thesis
    using async_mem [of x cv] by (cases "enc (UnblockMsg k)") (auto simp: broadcastUnblock_def QueueUnblockEvent_def)
qed

lemma netHits_zero: "(\<And>x. x \<in> set xs \<Longrightarrow> packetHits w h x = 0) \<Longrightarrow> netHits w xs h = 0"
  by (induction xs) simp_all

lemma broadcastBlock_hits: "codec enc (w_unmarshal w) \<Longrightarrow> netHits w (broadcastBlock enc cv t k ttl ent) h = 0"
  by (rule netHits_zero) (auto dest!: broadcastBlock_mem simp: packetEntries_def codec.dec_enc)

lemma broadcastUnblock_hits: "codec enc (w_unmarshal w) \<Longrightarrow> netHits w (broadcastUnblock enc cv k) h = 0"
  by (rule netHits_zero) (auto dest!: broadcastUnblock_mem simp: packetEntries_def codec.dec_enc)

lemma limiter_metrics_hits [simp]: "netHits w (limiter_metrics name d) h = 0"
  by (simp add: limiter_metrics_def)

section \<open>One node\<close>

definition nodeHits :: "('c \<Rightarrow> string \<Rightarrow> (nat \<times> gotime) option) \<Rightarrow> ('t, 'c, 'r, 'b) engine \<Rightarrow> uint64 \<Rightarrow> nat" where
  "nodeHits stored e h =
     cacheHits stored (en_accounting e) h + tablesHits (ac_transferable (en_accounting e)) h +
     (case en_flusher e of None \<Rightarrow> 0 | Some f \<Rightarrow> tablesHits (fl_buffers f) h)"

text \<open>What every operation keeps of a node that was started as \<open>e0\<close>.\<close>

definition engineOk ::
  "('c \<Rightarrow> string \<Rightarrow> (nat \<times> gotime) option) \<Rightarrow> ('t, 'c, 'r, 'b) engine \<Rightarrow> ('t, 'c, 'r, 'b) engine \<Rightarrow> bool" where
  "engineOk stored e0 e \<longleftrightarrow> ac_wf stored (en_accounting e) \<and> canonical_keys stored (en_accounting e) \<and>
     en_limiter e = SlidingWindow \<and> en_rules e = en_rules e0 \<and> en_settings e = en_settings e0"

lemma cacheHits_transferable [simp]:
  "cacheHits stored (a\<lparr>ac_transferable := tr\<rparr>) h = cacheHits stored a h"
  "ac_wf stored (a\<lparr>ac_transferable := tr\<rparr>) = ac_wf stored a"
  "canonical_keys stored (a\<lparr>ac_transferable := tr\<rparr>) = canonical_keys stored a"
  by (simp_all add: cacheHits_def counter_def ac_wf_def canonical_keys_def)

lemma Process_resolve:
  "resolveEntity (v\<lparr>e_bcast := b\<rparr>) ip path hs e = resolveEntity v ip path hs e"
  by (simp add: resolveEntity_def cong: option.case_cong)

locale fleet_env = engine_env v contents storedA roomA storedB roomB
  for v :: "('t, 'c, 'r, 'b, 'z, 'w) env" and contents storedA roomA storedB roomB +
  fixes w :: "('z, 'w) wire"
  assumes messages: "codec (e_marshal v) (w_unmarshal w)"
    and batches: "codec (w_marshalB w) (w_unmarshalB w)"
    and entries: "codec (w_marshalE w) (w_unmarshalE w)"
    and zstd: "w_decompress w (w_compress w z) = Some z"
begin

abbreviation hitsOf where "hitsOf \<equiv> nodeHits storedA"

lemma Enqueue_node:
  assumes "engineOk storedA e0 e" and "en_flusher e = Some f"
    and "Enqueue (e_marshal v) send t addr g n (en_accounting e) f = ((f', out), a')"
  shows "engineOk storedA e0 (e\<lparr>en_flusher := Some f', en_accounting := a'\<rparr>) \<and>
    hitsOf (e\<lparr>en_flusher := Some f', en_accounting := a'\<rparr>) h + netHits w out h \<le> hitsOf e h + (if h = g then unat n else 0)"
  using Enqueue_hits(1) [OF messages assms(3), of h] Enqueue_hits(2) [OF messages assms(3)] assms(1,2)
  by (simp add: engineOk_def nodeHits_def)

lemma Increment_node:
  assumes "engineOk storedA e0 e"
  shows "engineOk storedA e0 (e\<lparr>en_accounting := snd (Increment (e_ac v) t (HashToEntityKey g) n (en_accounting e))\<rparr>) \<and>
    hitsOf (e\<lparr>en_accounting := snd (Increment (e_ac v) t (HashToEntityKey g) n (en_accounting e))\<rparr>) h \<le> hitsOf e h + (if h = g then unat n else 0)"
  using assms ac.Increment_cacheHits [of "en_accounting e" t g n h] ac.Increment_wf [of "en_accounting e" t "HashToEntityKey g" n]
    ac.Increment_canonical [where a = "en_accounting e" and t = t and g = g and \<delta> = n]
  by (simp add: engineOk_def nodeHits_def ac.Increment_frame)

end

section \<open>Blocks and block events\<close>

text \<open>The key, and the entity if any, that a packet tells its receiver to block.\<close>

definition messageBlocks :: "'z drlMessage option \<Rightarrow> (string \<times> entity option) option" where
  "messageBlocks msg =
     (case msg of
        Some (BlockMsg ev) \<Rightarrow> Some (ev_Key ev, eventEntity (ev_EntityIp ev) (ev_EntityPath ev) (ev_EntityHdrs ev))
      | Some (BlockWithExpiresAtMsg ev) \<Rightarrow> Some (ex_Key ev, eventEntity (ex_EntityIp ev) (ex_EntityPath ev) (ex_EntityHdrs ev))
      | _ \<Rightarrow> None)"

fun packetBlocks :: "('z, 'w) wire \<Rightarrow> 'w effect \<Rightarrow> (string \<times> entity option) option" where
  "packetBlocks w (ChannelSend _ (Ch_BlockWithExpiresAt ev)) =
     Some (ex_Key ev, eventEntity (ex_EntityIp ev) (ex_EntityPath ev) (ex_EntityHdrs ev))"
| "packetBlocks w (SendBestEffort _ data) = messageBlocks (w_unmarshal w data)"
| "packetBlocks w (SendReliable _ data) = messageBlocks (w_unmarshal w data)"
| "packetBlocks w _ = None"

text \<open>\<open>J\<close> says which keys may be blocked; the entity kept with a block has that key.\<close>

definition blockOk :: "(string \<Rightarrow> uint64) \<Rightarrow> (string \<Rightarrow> bool) \<Rightarrow> string \<Rightarrow> entity option \<Rightarrow> bool" where
  "blockOk xx J k eo \<longleftrightarrow> J k \<and> (\<forall>e. eo = Some e \<longrightarrow> Key xx e = k)"

definition packetOk :: "('z, 'w) wire \<Rightarrow> (string \<Rightarrow> uint64) \<Rightarrow> (string \<Rightarrow> bool) \<Rightarrow> 'w effect \<Rightarrow> bool" where
  "packetOk w xx J x \<longleftrightarrow> (case packetBlocks w x of None \<Rightarrow> True | Some (k, eo) \<Rightarrow> blockOk xx J k eo)"

definition netOk :: "('z, 'w) wire \<Rightarrow> (string \<Rightarrow> uint64) \<Rightarrow> (string \<Rightarrow> bool) \<Rightarrow> 'w effect list \<Rightarrow> bool" where
  "netOk w xx J xs \<longleftrightarrow> list_all (packetOk w xx J) xs"

definition listOk ::
  "('b \<Rightarrow> string \<Rightarrow> (blocklistEntryData \<times> gotime) option) \<Rightarrow> (string \<Rightarrow> uint64) \<Rightarrow> (string \<Rightarrow> bool) \<Rightarrow> 'b blocklistCache \<Rightarrow> bool" where
  "listOk stored xx J b \<longleftrightarrow> (\<forall>k d x. stored (bc_cache b) k = Some (d, x) \<longrightarrow> blockOk xx J k (bd_entity d))"

lemma netOk_simps [simp]:
  "netOk w xx J []" "netOk w xx J (x # xs) \<longleftrightarrow> packetOk w xx J x \<and> netOk w xx J xs"
  "netOk w xx J (xs @ ys) \<longleftrightarrow> netOk w xx J xs \<and> netOk w xx J ys" "packetOk w xx J (Metric ev)"
  by (simp_all add: netOk_def packetOk_def)

lemma netOkI: "(\<And>x. x \<in> set xs \<Longrightarrow> packetOk w xx J x) \<Longrightarrow> netOk w xx J xs"
  by (simp add: netOk_def list_all_iff)

lemma netOk_packets [simp]: "netOk w xx J (filter isPacket xs) \<longleftrightarrow> netOk w xx J xs"
proof -
  have "packetOk w xx J x" if "\<not> isPacket x" for x using that by (cases x) simp_all
  then show ?thesis unfolding netOk_def list_all_iff by force
qed

lemma Ok_mono:
  assumes "\<And>k. J k \<Longrightarrow> J' k"
  shows "netOk w xx J xs \<Longrightarrow> netOk w xx J' xs" and "listOk stored xx J b \<Longrightarrow> listOk stored xx J' b"
  using assms unfolding netOk_def list_all_iff packetOk_def listOk_def blockOk_def by (fastforce split: option.splits)+

lemma entity_eta [simp]: "\<lparr>IP = IP e, Path = Path e, Headers = Headers e\<rparr> = e"
  by (cases e) simp

lemma eventEntity_ok:
  "blockOk xx J k (Some e) \<Longrightarrow> blockOk xx J k (eventEntity (IP e) (Path e) (Headers e))"
  by (simp add: blockOk_def eventEntity_def)

lemma broadcastBlock_ok:
  assumes co: "codec enc (w_unmarshal w)" and ok: "blockOk xx J k (Some ent)"
  shows "netOk w xx J (broadcastBlock enc cv t k ttl (Some ent))"
  using eventEntity_ok [OF ok]
  by (intro netOkI) (auto simp: packetOk_def messageBlocks_def codec.dec_enc [OF co] blockEventFor_def dest!: broadcastBlock_mem)

lemma broadcastUnblock_ok: "codec enc (w_unmarshal w) \<Longrightarrow> netOk w xx J (broadcastUnblock enc cv k)"
  by (rule netOkI) (auto simp: packetOk_def messageBlocks_def codec.dec_enc dest!: broadcastUnblock_mem)

lemma flushNode_ok: "codec enc (w_unmarshal w) \<Longrightarrow> netOk w xx J (snd (flushNode enc send t addr f))"
  by (auto simp: packetOk_def messageBlocks_def flushNode_def Let_def codec.dec_enc split: option.split)

lemma flush_loop_ok: "codec enc (w_unmarshal w) \<Longrightarrow> netOk w xx J (snd (flush_loop enc send t addrs f))"
proof (induction addrs arbitrary: f)
  case (Cons addr addrs)
  then show ?case using flushNode_ok [OF Cons.prems, of xx J send t addr f] by (simp add: case_prod_unfold)
qed simp

lemma Enqueue_ok: "codec enc (w_unmarshal w) \<Longrightarrow> netOk w xx J (snd (fst (Enqueue enc send t addr g n a f)))"
  by (auto simp: Enqueue_def Let_def flushNode_ok case_prod_unfold)

lemma limiter_metrics_ok [simp]: "netOk w xx J (limiter_metrics name d)"
  by (simp add: limiter_metrics_def)

context blocklist_cache
begin

lemma Set_ok:
  assumes "listOk stored xx J b" and "blockOk xx J k (bd_entity d)"
  shows "listOk stored xx J (bl_Set ot t k d b)"
  unfolding listOk_def
proof (intro allI impI)
  fix k' d' x assume s: "stored (bc_cache (bl_Set ot t k d b)) k' = Some (d', x)"
  show "blockOk xx J k' (bd_entity d')"
  proof (cases "k' = k")
    case True
    with s have "d' = d" using set_sound_same [of t _ k d "bc_cache b" d' x] by (simp add: bl_Set_def)
    with True assms(2) show ?thesis by simp
  next
    case False
    from s have "stored (otter_Set ot t (blocklist_expiry t d) k d (bc_cache b)) k' = Some (d', x)" by (simp add: bl_Set_def)
    then have "stored (bc_cache b) k' = Some (d', x)" by (rule set_sound_other [OF False])
    with assms(1) show ?thesis by (auto simp: listOk_def)
  qed
qed

lemma Block_ok: "listOk stored xx J b \<Longrightarrow> blockOk xx J k eo \<Longrightarrow> listOk stored xx J (Block ot t k ttl eo b)"
  by (simp add: Block_def Set_ok)

lemma BlockWithExpiresAt_ok:
  "listOk stored xx J b \<Longrightarrow> blockOk xx J k eo \<Longrightarrow> listOk stored xx J (BlockWithExpiresAt ot t k x eo b)"
  by (simp add: BlockWithExpiresAt_def Set_ok split: option.split)

lemma Unblock_ok: "listOk stored xx J b \<Longrightarrow> listOk stored xx J (Unblock ot t k b)"
  by (simp add: listOk_def Unblock_def inval_stored)

text \<open>An entry of a peer's list, sent and merged, blocks the key it had there.\<close>

lemma merge_ok:
  assumes "listOk stored xx J b" and "blockOk xx J k (bd_entity d)"
  shows "listOk stored xx J (mergeEntry xx ot t (toEntry (k, d)) b)"
  using assms
  by (cases "bd_entity d")
     (auto simp: mergeEntry_def receivedEntity_def toEntry_def Let_def blockOk_def intro!: Set_ok split: option.split)

lemma state_ok:
  assumes co: "codec enc de" and src: "listOk stored xx J b0" and b: "listOk stored xx J b"
    and s: "GetState ot enc t0 b0 = Some data"
  shows "listOk stored xx J (snd (MergeState xx ot de t data b))"
proof -
  let ?es = "filter (\<lambda>(key, d). t0 < bd_expiresAt d) (otter_All ot t0 (bc_cache b0))"
  have "de data = Some (map toEntry ?es)" using s codec.dec_enc [OF co] by (simp add: GetState_def Let_def)
  moreover have "listOk stored xx J (fold (mergeEntry xx ot t) (map toEntry es) b)" if "set es \<subseteq> set ?es" for es
    using that b
  proof (induction es arbitrary: b)
    case (Cons e es)
    obtain k d where e: "e = (k, d)" by (cases e)
    with Cons.prems(1) obtain x where "stored (bc_cache b0) k = Some (d, x)" using all_sound by fastforce
    with src have "blockOk xx J k (bd_entity d)" by (auto simp: listOk_def)
    with Cons merge_ok [of xx J b k d t] show ?case by (simp add: e)
  qed simp
  ultimately show ?thesis using b by (simp add: MergeState_def)
qed

end

section \<open>The operations of a node\<close>

text \<open>
  The contract of an operation that takes engine \<open>e\<close> to \<open>e'\<close> and emits \<open>out\<close>: it keeps the node well formed,
  blocks only what \<open>J\<close> allows, and adds at most the hits \<open>H\<close>.
\<close>

definition node_op ::
  "('c \<Rightarrow> string \<Rightarrow> (nat \<times> gotime) option) \<Rightarrow> ('b \<Rightarrow> string \<Rightarrow> (blocklistEntryData \<times> gotime) option) \<Rightarrow> ('z, 'w) wire \<Rightarrow>
   (string \<Rightarrow> uint64) \<Rightarrow> (string \<Rightarrow> bool) \<Rightarrow> ('t, 'c, 'r, 'b) engine \<Rightarrow> ('t, 'c, 'r, 'b) engine \<Rightarrow> ('t, 'c, 'r, 'b) engine \<Rightarrow>
   'w effect list \<Rightarrow> (uint64 \<Rightarrow> nat) \<Rightarrow> bool" where
  "node_op storedA storedB w xx J e0 e e' out H \<longleftrightarrow>
     (engineOk storedA e0 e \<and> listOk storedB xx J (en_blocklist e) \<longrightarrow>
      engineOk storedA e0 e' \<and> listOk storedB xx J (en_blocklist e') \<and> netOk w xx J out \<and>
      (\<forall>h. nodeHits storedA e' h + netHits w out h \<le> nodeHits storedA e h + H h))"

lemma node_opI:
  assumes "engineOk storedA e0 e \<Longrightarrow> listOk storedB xx J (en_blocklist e) \<Longrightarrow>
    engineOk storedA e0 e' \<and> listOk storedB xx J (en_blocklist e') \<and> netOk w xx J out"
    and "\<And>h. engineOk storedA e0 e \<Longrightarrow> nodeHits storedA e' h + netHits w out h \<le> nodeHits storedA e h + H h"
  shows "node_op storedA storedB w xx J e0 e e' out H"
  using assms by (simp add: node_op_def)

lemma node_op_trans:
  assumes "node_op storedA storedB w xx J e0 e e1 out1 H1" and "node_op storedA storedB w xx J e0 e1 e2 out2 H2"
  shows "node_op storedA storedB w xx J e0 e e2 (out1 @ out2) (\<lambda>h. H1 h + H2 h)"
  unfolding node_op_def
proof (intro impI conjI allI)
  assume pre: "engineOk storedA e0 e \<and> listOk storedB xx J (en_blocklist e)"
  note 1 = assms(1) [unfolded node_op_def, THEN mp, OF pre]
  note 2 = assms(2) [unfolded node_op_def, THEN mp]
  show "engineOk storedA e0 e2" "listOk storedB xx J (en_blocklist e2)" "netOk w xx J (out1 @ out2)" using 1 2 by simp_all
  fix h show "nodeHits storedA e2 h + netHits w (out1 @ out2) h \<le> nodeHits storedA e h + (H1 h + H2 h)"
  proof -
    have "nodeHits storedA e1 h + netHits w out1 h \<le> nodeHits storedA e h + H1 h" using 1 by blast
    moreover have "nodeHits storedA e2 h + netHits w out2 h \<le> nodeHits storedA e1 h + H2 h" using 1 2 by blast
    ultimately show ?thesis by simp
  qed
qed

lemma node_op_id: "node_op storedA storedB w xx J e0 e e [] H"
  by (simp add: node_op_def)

lemma node_op_weaken: "node_op storedA storedB w xx J e0 e e' out H \<Longrightarrow> (\<And>h. H h \<le> H' h) \<Longrightarrow> node_op storedA storedB w xx J e0 e e' out H'"
  unfolding node_op_def by (meson add_left_mono order_trans)

lemma node_op_tracked: "node_op sa sb w xx J e0 (e\<lparr>en_tracked := n\<rparr>) e' out H \<longleftrightarrow> node_op sa sb w xx J e0 e e' out H"
  by (simp add: node_op_def engineOk_def nodeHits_def)

lemma node_op_metrics [simp]:
  "node_op sa sb w xx J e0 e e' (Metric m # out) H \<longleftrightarrow> node_op sa sb w xx J e0 e e' out H"
  "node_op sa sb w xx J e0 e e' (out @ [Metric m]) H \<longleftrightarrow> node_op sa sb w xx J e0 e e' out H"
  "node_op sa sb w xx J e0 e e' (out @ [Metric m, Metric m']) H \<longleftrightarrow> node_op sa sb w xx J e0 e e' out H"
  by (simp_all add: node_op_def)

context fleet_env
begin

abbreviation op where "op \<equiv> node_op storedA storedB w (e_xx v)"

definition one :: "uint64 \<Rightarrow> nat \<Rightarrow> uint64 \<Rightarrow> nat" where
  "one g n = (\<lambda>h. if h = g then n else 0)"

lemma op_Enqueue:
  assumes "en_flusher e = Some f" and "Enqueue (e_marshal v) send t addr g n (en_accounting e) f = ((f', out), a')"
  shows "op J e0 e (e\<lparr>en_flusher := Some f', en_accounting := a'\<rparr>) out (one g (unat n))"
  using Enqueue_node [OF _ assms] Enqueue_ok [OF messages, of "e_xx v" J send t addr g n "en_accounting e" f] assms(2)
  by (intro node_opI) (simp_all add: one_def)

lemma op_Increment:
  "op J e0 e (e\<lparr>en_accounting := snd (Increment (e_ac v) t (HashToEntityKey g) n (en_accounting e))\<rparr>) [] (one g (unat n))"
  using Increment_node [of e0 e t g n] by (intro node_opI) (simp_all add: one_def)

lemma op_BulkLoad:
  assumes "BulkLoad v t ip path hs enabled e = Some (r, e', out)"
  shows "op J e0 e e' out (countHit v ip path hs e (\<lambda>_. 0))"
proof (cases "resolveEntity v ip path hs e")
  case (Some res)
  show ?thesis
  proof (cases res)
    case None
    with Some assms show ?thesis using node_op_id [of storedA storedB w "e_xx v" J e0 e] by (auto simp: BulkLoad_def)
  next
    case (Some q)
    then obtain rule ent g k where q: "resolveEntity v ip path hs e = Some (Some (rule, ent, g, k))"
      using \<open>resolveEntity v ip path hs e = Some res\<close> by (cases q) auto
    then have k: "k = HashToEntityKey g" using resolve_key by blast
    have H: "countHit v ip path hs e (\<lambda>_. 0) = one g (unat (1 :: uint64))" by (simp add: countHit_def q one_def fun_eq_iff)
    let ?e1 = "e\<lparr>en_tracked := en_tracked e + 1\<rparr>"
    have "op J e0 ?e1 e' out (one g (unat (1 :: uint64)))"
    proof (cases "IsOwner (e_rg v) k (en_accounting e)")
      case True
      with assms q op_Increment [of J e0 ?e1 t g 1] show ?thesis by (auto simp: BulkLoad_def Let_def k)
    next
      case False
      show ?thesis
      proof (cases "enabled \<and> en_flusher e \<noteq> None")
        case True
        then obtain f where f: "en_flusher e = Some f" by auto
        obtain f' out' a' where en: "Enqueue (e_marshal v) (e_send v) t (GetOwner (e_rg v) k (en_accounting e)) g 1 (en_accounting e) f = ((f', out'), a')"
          by (metis prod.exhaust)
        with assms q False True f show ?thesis
          using op_Enqueue [of ?e1 f "e_send v" t _ g 1 f' out' a' J e0] by (auto simp: BulkLoad_def Let_def)
      next
        case no: False
        with assms q False have "e' = ?e1" "out = [Metric (IncAccountingBulkLoad (bulkLabel BulkLoadDropped))]"
          by (auto simp: BulkLoad_def Let_def split: option.splits if_splits)
        then show ?thesis using node_op_id [of storedA storedB w "e_xx v" J e0 ?e1] by simp
      qed
    qed
    then show ?thesis by (simp add: H node_op_tracked)
  qed
qed (use assms in \<open>simp add: BulkLoad_def\<close>)

end

context fleet_env
begin

text \<open>\<open>Process\<close> blocks a key only when the hits the node had for it, plus this one, exceed the limit.\<close>

lemma op_Process_owner:
  assumes p: "Process (v\<lparr>e_bcast := broadcastBlock (e_marshal v) cv\<rparr>) t ip path hs e = Some (e', out)"
    and ok: "engineOk storedA e0 e" and q: "resolveEntity v ip path hs e = Some (Some (rule, ent, g, k))"
    and own: "IsOwner (e_rg v) k (en_accounting e)"
    and J: "sint (Limit (rn_Rule rule)) < int (Suc (hitsOf e g)) \<Longrightarrow> J k"
  shows "op J e0 e e' out (one g (unat (1 :: uint64)))"
proof -
  let ?v = "v\<lparr>e_bcast := broadcastBlock (e_marshal v) cv\<rparr>"
  let ?e1 = "e\<lparr>en_accounting := snd (Increment (e_ac v) t k 1 (en_accounting e))\<rparr>"
  have k: "k = HashToEntityKey g" "Key (e_xx v) ent = k" using resolve_key [OF q] by blast+
  obtain n a where inc: "Increment (e_ac v) t k 1 (en_accounting e) = (n, a)" by fastforce
  let ?d = "SlidingWindow_Evaluate k n (rn_Rule rule) (rn_Name rule)"
  have ev: "Evaluate (e_rnd v) t k n (rn_Rule rule) (rn_Name rule) (en_limiter e) = (?d, SlidingWindow)"
    using ok by (simp add: engineOk_def)
  note r = Process_owner_eq [of ?v, simplified, unfolded Process_resolve, OF q own inc ev]
  have "blockOk (e_xx v) J k (Some ent)" if "Blocked ?d"
  proof -
    have "unat n \<le> Suc (hitsOf e g)"
      using ac.Increment_result [of t g 1 "en_accounting e"] inc by (simp add: k nodeHits_def)
    moreover have "sint n \<le> int (unat n)" by (rule sint_le_unat)
    moreover have "sint (Limit (rn_Rule rule)) < sint n" using that SlidingWindow_blocked(1) by blast
    ultimately have "sint (Limit (rn_Rule rule)) < int (Suc (hitsOf e g))" by linarith
    with J k(2) show ?thesis by (simp add: blockOk_def)
  qed
  then have "op J e0 ?e1 e' out (\<lambda>_. 0)"
    using p r inc broadcastBlock_ok [OF messages, of "e_xx v" J k ent cv t] broadcastBlock_hits [OF messages]
    by (intro node_opI) (auto simp: engineOk_def nodeHits_def intro!: bl.Block_ok)
  from node_op_trans [OF op_Increment [of J e0 e t g 1, folded k(1)] this] show ?thesis by simp
qed

lemma op_Process_remote:
  assumes p: "Process (v\<lparr>e_bcast := b\<rparr>) t ip path hs e = Some (e', out)"
    and q: "resolveEntity v ip path hs e = Some (Some (rule, ent, g, k))" and other: "\<not> IsOwner (e_rg v) k (en_accounting e)"
  shows "op J e0 e e' out (one g (unat (1 :: uint64)))"
proof -
  obtain f where f: "en_flusher e = Some f"
    using p q other by (auto simp: Process_def Process_resolve Let_def split: option.splits)
  obtain f' out' a' where en: "Enqueue (e_marshal v) (e_send v) t (GetOwner (e_rg v) k (en_accounting e)) g 1 (en_accounting e) f = ((f', out'), a')"
    by (metis prod.exhaust)
  have "op J e0 (e\<lparr>en_tracked := en_tracked e + 1\<rparr>) e' out (one g (unat (1 :: uint64)))"
    using p q other f en op_Enqueue [of "e\<lparr>en_tracked := en_tracked e + 1\<rparr>" f "e_send v" t _ g 1 f' out' a' J e0]
    by (auto simp: Process_def Process_resolve Let_def)
  then show ?thesis by (simp add: node_op_tracked)
qed

lemma op_Process:
  assumes p: "Process (v\<lparr>e_bcast := broadcastBlock (e_marshal v) cv\<rparr>) t ip path hs e = Some (e', out)"
    and ok: "engineOk storedA e0 e"
    and J: "\<And>rule ent g k. resolveEntity v ip path hs e = Some (Some (rule, ent, g, k)) \<Longrightarrow>
      sint (Limit (rn_Rule rule)) < int (Suc (hitsOf e g)) \<Longrightarrow> J k"
  shows "op J e0 e e' out (countHit v ip path hs e (\<lambda>_. 0))"
proof (cases "resolveEntity v ip path hs e")
  case (Some res)
  show ?thesis
  proof (cases res)
    case None
    with Some p show ?thesis using node_op_id by (auto simp: Process_def Process_resolve)
  next
    case (Some q)
    then obtain rule ent g k where q: "resolveEntity v ip path hs e = Some (Some (rule, ent, g, k))"
      using \<open>resolveEntity v ip path hs e = Some res\<close> by (cases q) auto
    have H: "countHit v ip path hs e (\<lambda>_. 0) = one g (unat (1 :: uint64))" by (simp add: countHit_def q one_def fun_eq_iff)
    show ?thesis unfolding H
      using op_Process_owner [OF p ok q, where J = J] J [OF q] op_Process_remote [OF p q] by blast
  qed
qed (use p in \<open>simp add: Process_def Process_resolve\<close>)

end

lemma manager_eta [simp]: "withManager (managerOf e) e = e"
  by (simp add: withManager_def managerOf_def)

context fleet_env
begin

lemma op_batch:
  "op J e0 e (e\<lparr>en_accounting := fold (\<lambda>en a. snd (Increment (e_ac v) t (hexpad 16 (unat (EntityHash en))) (Hits en) a)) es
     (en_accounting e)\<rparr>) [] (entriesHits es)"
proof (induction es arbitrary: e)
  case Nil
  show ?case using node_op_id by simp
next
  case (Cons en es)
  let ?e1 = "e\<lparr>en_accounting := snd (Increment (e_ac v) t (hexpad 16 (unat (EntityHash en))) (Hits en) (en_accounting e))\<rparr>"
  have "op J e0 e ?e1 [] (one (EntityHash en) (unat (Hits en)))"
    using op_Increment [of J e0 e t "EntityHash en" "Hits en"] by (simp add: HashToEntityKey_def)
  from node_op_trans [OF this Cons.IH [of ?e1]] show ?case
    by (simp add: one_def eq_commute [of "EntityHash en"])
qed

lemma op_redistribute1:
  assumes "redistribute1 (e_ac v) (e_rg v) (e_marshal v) (e_send v) t en (en_accounting e, en_flusher e, out, n) = (a, f, out', n')"
  shows "\<exists>out1. out' = out @ out1 \<and> op J e0 e (e\<lparr>en_accounting := a, en_flusher := f\<rparr>) out1 (one (EntityHash en) (unat (Hits en)))"
proof (cases "IsOwner (e_rg v) (HashToEntityKey (EntityHash en)) (en_accounting e)")
  case True
  with assms op_Increment [of J e0 e t "EntityHash en" "Hits en"] show ?thesis by (auto simp: redistribute1_def Let_def)
next
  case no: False
  show ?thesis
  proof (cases "en_flusher e")
    case None
    with assms no have same: "e\<lparr>en_accounting := a, en_flusher := f\<rparr> = e" and "out' = out" by (auto simp: redistribute1_def Let_def)
    then show ?thesis unfolding same by (intro exI [of _ "[]"]) (simp add: node_op_id)
  next
    case (Some fl)
    obtain f1 out1 a1 where en: "Enqueue (e_marshal v) (e_send v) t (GetOwner (e_rg v) (HashToEntityKey (EntityHash en)) (en_accounting e))
        (EntityHash en) (Hits en) (en_accounting e) fl = ((f1, out1), a1)" by (metis prod.exhaust)
    with assms no Some have r: "a = a1" "f = Some f1" "out' = out @ out1" by (auto simp: redistribute1_def Let_def)
    have sw: "e\<lparr>en_accounting := a1, en_flusher := Some f1\<rparr> = e\<lparr>en_flusher := Some f1, en_accounting := a1\<rparr>" by simp
    show ?thesis unfolding r sw using op_Enqueue [OF Some en, of J e0] by (intro exI [of _ out1]) simp
  qed
qed

lemma op_redistribute_loop:
  assumes "fold (redistribute1 (e_ac v) (e_rg v) (e_marshal v) (e_send v) t) es (en_accounting e, en_flusher e, out, n) = (a, f, out', n')"
  shows "\<exists>out1. out' = out @ out1 \<and> op J e0 e (e\<lparr>en_accounting := a, en_flusher := f\<rparr>) out1 (entriesHits es)"
  using assms
proof (induction es arbitrary: e out n)
  case Nil
  then show ?case using node_op_id by auto
next
  case (Cons en es)
  obtain a1 f1 o1 n1 where 1: "redistribute1 (e_ac v) (e_rg v) (e_marshal v) (e_send v) t en (en_accounting e, en_flusher e, out, n) = (a1, f1, o1, n1)"
    by (metis prod.exhaust)
  let ?e1 = "e\<lparr>en_accounting := a1, en_flusher := f1\<rparr>"
  from op_redistribute1 [OF 1, of J e0] obtain x1 where x1: "o1 = out @ x1" "op J e0 e ?e1 x1 (one (EntityHash en) (unat (Hits en)))" by blast
  from Cons.IH [of ?e1 o1 n1] Cons.prems 1 obtain x2 where
    x2: "out' = o1 @ x2" "op J e0 ?e1 (e\<lparr>en_accounting := a, en_flusher := f\<rparr>) x2 (entriesHits es)" by auto
  from node_op_trans [OF x1(2) x2(2)] have "op J e0 e (e\<lparr>en_accounting := a, en_flusher := f\<rparr>) (x1 @ x2) (entriesHits (en # es))"
    by (rule node_op_weaken) (simp add: one_def)
  with x1(1) x2(1) show ?case by (intro exI [of _ "x1 @ x2"] conjI) (simp, assumption)
qed

lemma op_blocklist:
  assumes "listOk storedB (e_xx v) J (en_blocklist e) \<Longrightarrow> listOk storedB (e_xx v) J b" and "netOk w (e_xx v) J out" and "\<And>h. netHits w out h = 0"
  shows "op J e0 e (e\<lparr>en_blocklist := b\<rparr>) out (\<lambda>_. 0)"
  using assms by (intro node_opI) (simp_all add: engineOk_def nodeHits_def)

lemma op_handlers:
  assumes "messageBlocks (Some msg) = Some (k, eo)" and "blockOk (e_xx v) J k eo"
  shows "msg = BlockMsg ev \<Longrightarrow> op J e0 e (withManager (fst (handleBlockEvent (e_bl v) t ev (managerOf e))) e) [] (\<lambda>_. 0)"
    and "msg = BlockWithExpiresAtMsg ex \<Longrightarrow> op J e0 e (withManager (fst (handleBlockEventWithExpiresAt (e_bl v) t ex (managerOf e))) e) [] (\<lambda>_. 0)"
  using assms op_blocklist [of J e _ "[]" e0] bl.Block_ok bl.BlockWithExpiresAt_ok
  by (auto simp: messageBlocks_def handleBlockEvent_def handleBlockEventWithExpiresAt_def withManager_def managerOf_def)

lemma op_Unblock: "op J e0 e (withManager (fst (handleUnblockEvent (e_bl v) t k (managerOf e))) e) [] (\<lambda>_. 0)"
  using op_blocklist [of J e _ "[]" e0] bl.Unblock_ok by (simp add: handleUnblockEvent_def withManager_def managerOf_def)

end

context fleet_env
begin

lemma op_redistribute:
  assumes "redistribute (e_ac v) (e_rg v) (e_marshal v) (e_send v) t b (en_accounting e) (en_flusher e) = (a, f, out)"
  shows "op J e0 e (e\<lparr>en_accounting := a, en_flusher := f\<rparr>) out (entriesHits (cb_Entries b))"
proof -
  obtain a1 f1 o1 n1 where 1: "fold (redistribute1 (e_ac v) (e_rg v) (e_marshal v) (e_send v) t) (cb_Entries b)
      (en_accounting e, en_flusher e, [], 0) = (a1, f1, o1, n1)" by (metis prod.exhaust)
  with assms have "a = a1" "f = f1" "out = o1 @ [Metric (AddHandoverIn n1)]" by (simp_all add: redistribute_def)
  with op_redistribute_loop [OF 1, of J e0] show ?thesis by simp
qed

text \<open>A node that handles a packet takes over at most the hits the packet carries.\<close>

lemma op_notify:
  assumes n: "notify v w t t' d data e = (e', out)" and ok: "packetOk w (e_xx v) J (SendReliable a data)"
  shows "op J e0 e e' out (entriesHits (packetEntries w data))"
proof (cases "data = [] \<or> w_unmarshal w data = None")
  case True
  then have "NotifyMsg (e_ac v) (e_bl v) (w_unmarshal w) (w_decompress w) (w_unmarshalB w) t data d (managerOf e) =
      ((managerOf e, [] :: 'w effect list), None)" by (auto simp: NotifyMsg_def)
  with n node_op_id show ?thesis by (auto simp: notify_def)
next
  case False
  then obtain msg where m: "data \<noteq> []" "w_unmarshal w data = Some msg" by auto
  note un = notify_def NotifyMsg_def Let_def m
  have none: "entriesHits [] = (\<lambda>_. 0)" by (simp add: fun_eq_iff)
  show ?thesis
  proof (cases msg)
    case (Counters b)
    with n m op_batch [of J e0 e t "cb_Entries b"] show ?thesis
      by (auto simp: un handleAccountingMsg_def withManager_def managerOf_def packetEntries_def)
  next
    case (BlockMsg ev)
    with n m ok op_handlers(1) [of msg _ _ J ev e0 e t] show ?thesis
      by (auto simp: un handleBlockEvent_def packetOk_def messageBlocks_def packetEntries_def none)
  next
    case (BlockWithExpiresAtMsg ex)
    with n m ok op_handlers(2) [of msg _ _ J ex e0 e t] show ?thesis
      by (auto simp: un handleBlockEventWithExpiresAt_def packetOk_def messageBlocks_def packetEntries_def none)
  next
    case (UnblockMsg k)
    with n m op_Unblock [of J e0 e t k] show ?thesis by (auto simp: un handleUnblockEvent_def packetEntries_def none)
  next
    case (HandoverMsg p)
    show ?thesis
    proof (cases "handleHandoverPayload (w_decompress w) (w_unmarshalB w) p d")
      case None
      with n HandoverMsg node_op_id show ?thesis by (auto simp: un)
    next
      case (Some b)
      then have "packetEntries w data = cb_Entries b"
        by (auto simp: packetEntries_def m HandoverMsg handleHandoverPayload_def HandleIncoming_def split: option.splits if_splits)
      with n Some HandoverMsg show ?thesis by (auto simp: un split: prod.splits intro!: op_redistribute)
    qed
  next
    case NoContent
    with n node_op_id show ?thesis by (auto simp: un)
  qed
qed

lemma op_receive:
  assumes r: "receive v w t t' d x e = (e', out)" and ok: "packetOk w (e_xx v) J x"
  shows "op J e0 e e' out (\<lambda>h. packetHits w h x)"
proof (cases x)
  case (ChannelSend a msg)
  show ?thesis
  proof (cases msg)
    case (Ch_BlockWithExpiresAt ex)
    with r ChannelSend ok op_handlers(2) [of "BlockWithExpiresAtMsg ex" _ _ J ex e0 e t] show ?thesis
      by (auto simp: dispatch_def handleBlockEventWithExpiresAt_def packetOk_def messageBlocks_def)
  next
    case (Ch_Unblock k)
    with r ChannelSend op_Unblock [of J e0 e t k] show ?thesis by (auto simp: dispatch_def handleUnblockEvent_def)
  next
    case Ch_Unknown
    with r ChannelSend node_op_id show ?thesis by (auto simp: dispatch_def)
  qed
qed (use r ok node_op_id op_notify [of t t' d _ e e' out J _ e0] in \<open>auto simp: packetOk_def\<close>)

end

lemma snapshotEntries_hits:
  assumes "set (mkeys s) \<subseteq> range HashToEntityKey" and "distinct (mkeys s)"
  shows "entriesHits (snapshotEntries s) h = unat (mval s (HashToEntityKey h))"
  using assms
proof (induction s)
  case (Cons e s)
  obtain k n where e: "e = (k, n)" by (cases e)
  then obtain g where k: "k = HashToEntityKey g" using Cons.prems by auto
  have "mval s k = 0" using Cons.prems by (simp add: e mval_def map_of_eq_None_iff [THEN iffD2])
  with Cons k show ?case by (auto simp: e snapshotEntries_def mval_Cons key_hash_roundtrip)
qed (simp add: snapshotEntries_def mval_def)

context fleet_env
begin

lemma op_flush:
  assumes "en_flusher e = Some f" and "flush (e_marshal v) (e_send v) t f = (f', out)"
  shows "op J e0 e (e\<lparr>en_flusher := Some f'\<rparr>) out (\<lambda>_. 0)"
  using assms flush_loop_hits [OF messages assms(2) [unfolded flush_def]]
    flush_loop_ok [OF messages, of "e_xx v" J "e_send v" t "mkeys (fl_buffers f)" f]
  by (intro node_opI) (simp_all add: flush_def engineOk_def nodeHits_def add.commute)

lemma op_members:
  "op J e0 e (e\<lparr>en_accounting := UpdateNodes (e_ac v) (e_rg v) t ns (en_accounting e)\<rparr>) [] (\<lambda>_. 0)"
  using ac.UpdateNodes_hits [of "en_accounting e" t ns] ac.UpdateNodes_wf [of "en_accounting e" t ns]
  by (intro node_opI) (simp_all add: engineOk_def nodeHits_def add.commute)

lemma op_sync:
  assumes m: "MergeRemoteState (e_xx v) (e_bl v) (w_unmarshalE w) t t' (LocalState (e_bl v) (w_marshalE w) t0 (managerOf e1)) d (managerOf e) =
      ((d', mg), out)" and src: "listOk storedB (e_xx v) J (en_blocklist e1)"
  shows "op J e0 e (withManager mg e) [] (\<lambda>_. 0)"
proof -
  let ?data = "LocalState (e_bl v) (w_marshalE w) t0 (managerOf e1)"
  have mg: "mg = (managerOf e)\<lparr>mg_Blocklist := snd (MergeState (e_xx v) (e_bl v) (w_unmarshalE w) t ?data (en_blocklist e))\<rparr>"
    using m by (auto simp: MergeRemoteState_def Let_def managerOf_def split: prod.splits if_splits)
  have "listOk storedB (e_xx v) J (snd (MergeState (e_xx v) (e_bl v) (w_unmarshalE w) t ?data (en_blocklist e)))"
    if "listOk storedB (e_xx v) J (en_blocklist e)"
  proof (cases "GetState (e_bl v) (w_marshalE w) t0 (en_blocklist e1)")
    case None
    with that show ?thesis by (simp add: LocalState_def managerOf_def MergeState_def)
  next
    case (Some data)
    with bl.state_ok [OF entries src that Some] show ?thesis by (simp add: LocalState_def managerOf_def)
  qed
  from op_blocklist [where out = "[]" and ?e0.0 = e0, OF this] show ?thesis by (simp add: mg withManager_def managerOf_def)
qed

lemma op_adminBlock:
  assumes "k = Key (e_xx v) ent" and "J k"
  shows "op J e0 e (e\<lparr>en_blocklist := Block (e_bl v) t k ttl (Some ent) (en_blocklist e)\<rparr>)
    (broadcastBlock (e_marshal v) cv t k ttl (Some ent)) (\<lambda>_. 0)"
proof -
  have ok: "blockOk (e_xx v) J k (Some ent)" using assms by (simp add: blockOk_def)
  then show ?thesis
    by (intro op_blocklist bl.Block_ok broadcastBlock_ok [OF messages] broadcastBlock_hits [OF messages]) simp_all
qed

lemma op_adminUnblock:
  "op J e0 e (e\<lparr>en_blocklist := Unblock (e_bl v) t k (en_blocklist e)\<rparr>) (broadcastUnblock (e_marshal v) cv k) (\<lambda>_. 0)"
  by (intro op_blocklist bl.Unblock_ok broadcastUnblock_ok [OF messages] broadcastUnblock_hits [OF messages])

lemma Evacuate_packet:
  assumes ok: "engineOk storedA e0 e"
    and ev: "Evacuate (e_ac v) (e_xx v) (w_marshalB w) (w_compress w) (e_marshal v) reliable clk t n addrs (en_accounting e) ho =
      Some ((None, out), ho')" and x: "SendReliable addr data \<in> set out"
  shows "packetHits w h (SendReliable addr data) \<le> hitsOf e h" and "packetOk w (e_xx v) J (SendReliable addr data)"
proof -
  let ?s = "SnapshotAll (e_ac v) t (en_accounting e)"
  from Evacuate_sent [OF ev x] obtain b bd p where b: "cb_Entries b = snapshotEntries ?s" "w_marshalB w b = Some bd"
    "hp_CompressedEntries p = w_compress w bd" "e_marshal v (HandoverMsg p) = Some data" by blast
  have "w_unmarshal w data = Some (HandoverMsg p)" "w_unmarshalB w bd = Some b"
    using codec.dec_enc [OF messages b(4)] codec.dec_enc [OF batches b(2)] by simp_all
  then have d: "packetEntries w data = snapshotEntries ?s" and "messageBlocks (w_unmarshal w data) = None"
    using b zstd by (simp_all add: packetEntries_def messageBlocks_def)
  then show "packetOk w (e_xx v) J (SendReliable addr data)" by (simp add: packetOk_def)
  have "mval ?s (HashToEntityKey h) = reading t (HashToEntityKey h) (counter storedA (en_accounting e))" "distinct (mkeys ?s)"
    using ac.SnapshotAll_mval by blast+
  moreover have "set (mkeys ?s) \<subseteq> range HashToEntityKey" using ok ac.SnapshotAll_canonical [of "en_accounting e" t] unfolding engineOk_def by blast
  moreover have "unat (reading t (HashToEntityKey h) (counter storedA (en_accounting e))) \<le> cacheHits storedA (en_accounting e) h"
    by (cases "(t, counter storedA (en_accounting e) (HashToEntityKey h))" rule: live.cases) (simp_all add: reading_def cacheHits_def)
  ultimately show "packetHits w h (SendReliable addr data) \<le> hitsOf e h"
    using snapshotEntries_hits [of ?s h] by (simp add: d nodeHits_def)
qed

end

section \<open>The invariant of the cluster\<close>

definition emptyEngine ::
  "('c \<Rightarrow> string \<Rightarrow> (nat \<times> gotime) option) \<Rightarrow> ('b \<Rightarrow> string \<Rightarrow> (blocklistEntryData \<times> gotime) option) \<Rightarrow> ('t, 'c, 'r, 'b) engine \<Rightarrow> bool" where
  "emptyEngine storedA storedB e \<longleftrightarrow>
     (\<forall>k. storedA (ac_cache (en_accounting e)) k = None) \<and> ac_transferable (en_accounting e) = [] \<and>
     (\<forall>f. en_flusher e = Some f \<longrightarrow> fl_buffers f = []) \<and> en_limiter e = SlidingWindow \<and>
     (\<forall>k. storedB (bc_cache (en_blocklist e)) k = None)"

text \<open>Some request of some node resolves to the key, under a rule whose limit the accounted requests exceed.\<close>

definition overLimit ::
  "('t, 'c, 'r, 'b, 'z, 'w) env \<Rightarrow> (string \<Rightarrow> ('t, 'c, 'r, 'b) engine) \<Rightarrow> (uint64 \<Rightarrow> nat) \<Rightarrow> string \<Rightarrow> bool" where
  "overLimit v fresh H k \<longleftrightarrow> (\<exists>n ip path hs rule ent h.
     resolveEntity v ip path hs (fresh n) = Some (Some (rule, ent, h, k)) \<and> sint (Limit (rn_Rule rule)) < int (H h))"

definition justified ::
  "('t, 'c, 'r, 'b, 'z, 'w) env \<Rightarrow> (string \<Rightarrow> ('t, 'c, 'r, 'b) engine) \<Rightarrow> ('t, 'c, 'r, 'b, 'w) fleet \<Rightarrow> string \<Rightarrow> bool" where
  "justified v fresh F k \<longleftrightarrow> k \<in> set (ft_admin F) \<or> overLimit v fresh (ft_hits F) k"

definition fleetHits :: "('c \<Rightarrow> string \<Rightarrow> (nat \<times> gotime) option) \<Rightarrow> ('z, 'w) wire \<Rightarrow> ('t, 'c, 'r, 'b, 'w) fleet \<Rightarrow> uint64 \<Rightarrow> nat" where
  "fleetHits stored w F h = (\<Sum>n \<in> set (ft_up F). nodeHits stored (ft_node F n) h) + netHits w (ft_net F) h"

lemma justified_mono:
  assumes "set (ft_admin F) \<subseteq> set (ft_admin F')" and "\<And>h. ft_hits F h \<le> ft_hits F' h" and "justified v fresh F k"
  shows "justified v fresh F' k"
proof (cases "k \<in> set (ft_admin F)")
  case False
  with assms(3) obtain n ip path hs rule ent h where r: "resolveEntity v ip path hs (fresh n) = Some (Some (rule, ent, h, k))"
      "sint (Limit (rn_Rule rule)) < int (ft_hits F h)" by (auto simp: justified_def overLimit_def)
  moreover have "int (ft_hits F h) \<le> int (ft_hits F' h)" using assms(2) by simp
  ultimately show ?thesis unfolding justified_def overLimit_def by (meson less_le_trans)
qed (use assms(1) in \<open>auto simp: justified_def\<close>)

lemma sum_update:
  fixes f :: "'e \<Rightarrow> nat"
  assumes "finite S" and "n \<in> S"
  shows "(\<Sum>m \<in> S. f ((g(n := e)) m)) + f (g n) = (\<Sum>m \<in> S. f (g m)) + f e"
proof -
  have "(\<Sum>m \<in> S - {n}. f ((g(n := e)) m)) = (\<Sum>m \<in> S - {n}. f (g m))" by (rule sum.cong) simp_all
  then show ?thesis
    using sum.remove [OF assms, of "\<lambda>m. f ((g(n := e)) m)"] sum.remove [OF assms, of "\<lambda>m. f (g m)"] by simp
qed

lemma countHit_add: "countHit v ip path hs e H h = H h + countHit v ip path hs e (\<lambda>_. 0) h"
  by (auto simp: countHit_def split: option.split)

context fleet_env
begin

definition fleet_inv :: "(string \<Rightarrow> ('t, 'c, 'r, 'b) engine) \<Rightarrow> ('t, 'c, 'r, 'b, 'w) fleet \<Rightarrow> bool" where
  "fleet_inv fresh F \<longleftrightarrow> (\<forall>h. fleetHits storedA w F h \<le> ft_hits F h) \<and> netOk w (e_xx v) (justified v fresh F) (ft_net F) \<and>
     (\<forall>n \<in> set (ft_up F). engineOk storedA (fresh n) (ft_node F n) \<and>
        listOk storedB (e_xx v) (justified v fresh F) (en_blocklist (ft_node F n)))"

lemma fleet_invD:
  assumes "fleet_inv fresh F"
  shows "fleetHits storedA w F h \<le> ft_hits F h" and "netOk w (e_xx v) (justified v fresh F) (ft_net F)"
    and "n \<in> set (ft_up F) \<Longrightarrow> engineOk storedA (fresh n) (ft_node F n)"
    and "n \<in> set (ft_up F) \<Longrightarrow> listOk storedB (e_xx v) (justified v fresh F) (en_blocklist (ft_node F n))"
  using assms by (simp_all add: fleet_inv_def)

text \<open>An operation of a node that meets its contract keeps the invariant; it may consume the packets of hits \<open>K\<close>.\<close>

lemma put_inv:
  assumes inv: "fleet_inv fresh F" and n: "n \<in> set (ft_up F)"
    and net: "\<And>h. netHits w net h + K h \<le> netHits w (ft_net F) h" "set net \<subseteq> set (ft_net F)"
    and F': "F' = (putNode n e out (F\<lparr>ft_net := net\<rparr>))\<lparr>ft_hits := H', ft_admin := A'\<rparr>"
    and A': "set (ft_admin F) \<subseteq> set A'" and H': "\<And>h. ft_hits F h + H h \<le> H' h"
    and op: "op (justified v fresh F') (fresh n) (ft_node F n) e out (\<lambda>h. K h + H h)"
  shows "fleet_inv fresh F'"
proof -
  have sel: "ft_up F' = ft_up F" "ft_node F' = (ft_node F)(n := e)" "ft_net F' = net @ filter isPacket out" "ft_hits F' = H'" "ft_admin F' = A'"
    by (simp_all add: F' putNode_def)
  have "ft_hits F h \<le> ft_hits F' h" for h using H' [of h] by (simp add: sel)
  then have mono: "justified v fresh F k \<Longrightarrow> justified v fresh F' k" for k
    using justified_mono [of F F' v fresh k] A' by (simp add: sel)
  note ok = fleet_invD [OF inv]
  have lst: "listOk storedB (e_xx v) (justified v fresh F') (en_blocklist (ft_node F m))" if "m \<in> set (ft_up F)" for m
    using ok(4) [OF that] mono by (rule Ok_mono(2) [rotated])
  have nt: "netOk w (e_xx v) (justified v fresh F') (ft_net F)" using ok(2) mono by (rule Ok_mono(1) [rotated])
  have res: "engineOk storedA (fresh n) e" "listOk storedB (e_xx v) (justified v fresh F') (en_blocklist e)"
      "netOk w (e_xx v) (justified v fresh F') out"
      "\<And>h. hitsOf e h + netHits w out h \<le> hitsOf (ft_node F n) h + (K h + H h)"
    using op ok(3) [OF n] lst [OF n] unfolding node_op_def by blast+
  have "fleetHits storedA w F' h \<le> ft_hits F' h" for h
    using sum_update [of "set (ft_up F)" n "\<lambda>x. hitsOf x h" "ft_node F" e] n ok(1) [of h] net(1) [of h] H' [of h] res(4) [of h]
    by (simp add: fleetHits_def sel)
  moreover have "netOk w (e_xx v) (justified v fresh F') (ft_net F')"
    using nt net(2) res(3) by (simp add: sel) (auto simp: netOk_def list_all_iff)
  ultimately show ?thesis
    using ok(3) lst res(1,2) by (auto simp: fleet_inv_def sel)
qed

end

lemma justified_frame [simp]:
  "justified v fresh (putNode n e out F) = justified v fresh F" "justified v fresh (F\<lparr>ft_net := net\<rparr>) = justified v fresh F"
  "justified v fresh (F\<lparr>ft_up := up\<rparr>) = justified v fresh F" "justified v fresh (F\<lparr>ft_node := nd\<rparr>) = justified v fresh F"
  by (simp_all add: fun_eq_iff justified_def putNode_def)

context fleet_env
begin

lemma put_same:
  assumes "fleet_inv fresh F" and "n \<in> set (ft_up F)" and "\<And>e0. op (justified v fresh F) e0 (ft_node F n) e out (\<lambda>_. 0)"
  shows "fleet_inv fresh (putNode n e out F)"
  by (rule put_inv [where K = "\<lambda>_. 0" and H = "\<lambda>_. 0" and net = "ft_net F" and e = e and out = out and H' = "ft_hits F",
        OF assms(1,2) _ _ _ order_refl])
     (simp_all add: putNode_def assms(3) [unfolded putNode_def])

lemma deliver_inv:
  assumes inv: "fleet_inv fresh F" and n: "n \<in> set (ft_up F)" and net: "ft_net F = xs @ x # ys"
    and r: "receive v w t t' d x (ft_node F n) = (e, out)"
  shows "fleet_inv fresh (putNode n e out (F\<lparr>ft_net := xs @ ys\<rparr>))"
proof (rule put_inv [where K = "\<lambda>h. packetHits w h x" and H = "\<lambda>_. 0" and net = "xs @ ys", OF inv n _ _ _ order_refl])
  have "packetOk w (e_xx v) (justified v fresh F) x" using fleet_invD(2) [OF inv] by (simp add: net)
  from op_receive [OF r this]
  show "op (justified v fresh (putNode n e out (F\<lparr>ft_net := xs @ ys\<rparr>))) (fresh n) (ft_node F n) e out (\<lambda>h. packetHits w h x + 0)" by simp
qed (auto simp: net putNode_def)

lemma account_inv:
  assumes inv: "fleet_inv fresh F" and n: "n \<in> set (ft_up F)"
    and op: "op (justified v fresh (F\<lparr>ft_hits := countHit v ip path hs (ft_node F n) (ft_hits F)\<rparr>)) (fresh n) (ft_node F n) e out
      (countHit v ip path hs (ft_node F n) (\<lambda>_. 0))"
  shows "fleet_inv fresh ((putNode n e out F)\<lparr>ft_hits := countHit v ip path hs (ft_node F n) (ft_hits F)\<rparr>)"
proof (rule put_inv [where K = "\<lambda>_. 0" and H = "countHit v ip path hs (ft_node F n) (\<lambda>_. 0)" and net = "ft_net F", OF inv n _ _ _ order_refl])
  let ?F = "(putNode n e out F)\<lparr>ft_hits := countHit v ip path hs (ft_node F n) (ft_hits F)\<rparr>"
  show "?F = (putNode n e out (F\<lparr>ft_net := ft_net F\<rparr>))\<lparr>ft_hits := countHit v ip path hs (ft_node F n) (ft_hits F), ft_admin := ft_admin F\<rparr>"
    by (simp add: putNode_def)
  have "justified v fresh ?F = justified v fresh (F\<lparr>ft_hits := countHit v ip path hs (ft_node F n) (ft_hits F)\<rparr>)"
    by (simp add: fun_eq_iff justified_def putNode_def)
  with op show "op (justified v fresh ?F) (fresh n) (ft_node F n) e out (\<lambda>h. 0 + countHit v ip path hs (ft_node F n) (\<lambda>_. 0) h)" by simp
qed (simp_all add: countHit_add [of v ip path hs _ "ft_hits F"])

lemma request_inv:
  assumes inv: "fleet_inv fresh F" and n: "n \<in> set (ft_up F)"
    and p: "Process (v\<lparr>e_bcast := broadcastBlock (e_marshal v) cv\<rparr>) t ip path hs (ft_node F n) = Some (e, out)"
  shows "fleet_inv fresh ((putNode n e out F)\<lparr>ft_hits := countHit v ip path hs (ft_node F n) (ft_hits F)\<rparr>)"
proof (rule account_inv [OF inv n op_Process [OF p fleet_invD(3) [OF inv n]]])
  let ?H = "countHit v ip path hs (ft_node F n) (ft_hits F)"
  fix rule ent g k
  assume r: "resolveEntity v ip path hs (ft_node F n) = Some (Some (rule, ent, g, k))"
    and lim: "sint (Limit (rn_Rule rule)) < int (Suc (hitsOf (ft_node F n) g))"
  have "hitsOf (ft_node F n) g \<le> fleetHits storedA w F g"
    using sum.remove [of "set (ft_up F)" n "\<lambda>m. hitsOf (ft_node F m) g"] n by (simp add: fleetHits_def)
  also have "\<dots> \<le> ft_hits F g" by (rule fleet_invD(1) [OF inv])
  finally have "sint (Limit (rn_Rule rule)) < int (?H g)" using lim by (simp add: countHit_def r)
  moreover have "resolveEntity v ip path hs (fresh n) = Some (Some (rule, ent, g, k))"
    using fleet_invD(3) [OF inv n] r resolveEntity_cong [of "ft_node F n" "fresh n" v ip path hs] by (simp add: engineOk_def)
  ultimately show "justified v fresh (F\<lparr>ft_hits := ?H\<rparr>) k" by (auto simp: justified_def overLimit_def)
qed

lemma admin_inv:
  assumes inv: "fleet_inv fresh F" and n: "n \<in> set (ft_up F)" and k: "k = Key (e_xx v) ent"
  shows "fleet_inv fresh ((putNode n ((ft_node F n)\<lparr>en_blocklist := Block (e_bl v) t k ttl (Some ent) (en_blocklist (ft_node F n))\<rparr>)
    (broadcastBlock (e_marshal v) cv t k ttl (Some ent)) F)\<lparr>ft_admin := k # ft_admin F\<rparr>)" (is "fleet_inv fresh ?F")
proof (rule put_inv [where K = "\<lambda>_. 0" and H = "\<lambda>_. 0" and net = "ft_net F" and H' = "ft_hits F" and A' = "k # ft_admin F", OF inv n])
  have "justified v fresh ?F k" by (simp add: justified_def)
  from op_adminBlock [of k ent "justified v fresh ?F", OF k this]
  show "op (justified v fresh ?F) (fresh n) (ft_node F n)
     ((ft_node F n)\<lparr>en_blocklist := Block (e_bl v) t k ttl (Some ent) (en_blocklist (ft_node F n))\<rparr>)
     (broadcastBlock (e_marshal v) cv t k ttl (Some ent)) (\<lambda>h. 0 + 0)" by simp
qed (auto simp: putNode_def)

end

context fleet_env
begin

lemma shrink_inv:
  assumes inv: "fleet_inv fresh F" and up: "set up \<subseteq> set (ft_up F)" and net: "netOk w (e_xx v) (justified v fresh F) net"
    and hits: "\<And>h. (\<Sum>n \<in> set up. hitsOf (ft_node F n) h) + netHits w net h \<le> fleetHits storedA w F h"
  shows "fleet_inv fresh (F\<lparr>ft_up := up, ft_net := net\<rparr>)"
proof -
  have "fleetHits storedA w (F\<lparr>ft_up := up, ft_net := net\<rparr>) h \<le> ft_hits F h" for h
    using hits [of h] fleet_invD(1) [OF inv, of h] by (simp add: fleetHits_def)
  then show ?thesis using net up fleet_invD(3,4) [OF inv] by (auto simp: fleet_inv_def)
qed

lemma drop_inv:
  assumes inv: "fleet_inv fresh F" and net: "ft_net F = xs @ x # ys"
  shows "fleet_inv fresh (F\<lparr>ft_net := xs @ ys\<rparr>)"
  using shrink_inv [OF inv subset_refl, of "xs @ ys"] fleet_invD(2) [OF inv] by (simp add: net fleetHits_def)

lemma crash_inv:
  assumes inv: "fleet_inv fresh F"
  shows "fleet_inv fresh (F\<lparr>ft_up := removeAll n (ft_up F)\<rparr>)"
proof -
  have "(\<Sum>m \<in> set (ft_up F) - {n}. hitsOf (ft_node F m) h) \<le> (\<Sum>m \<in> set (ft_up F). hitsOf (ft_node F m) h)" for h
    by (rule sum_mono2) auto
  then show ?thesis using shrink_inv [OF inv, of "removeAll n (ft_up F)" "ft_net F"] fleet_invD(2) [OF inv] by (auto simp: fleetHits_def)
qed

lemma leave_inv:
  assumes inv: "fleet_inv fresh F" and n: "n \<in> set (ft_up F)"
    and ev: "Evacuate (e_ac v) (e_xx v) (w_marshalB w) (w_compress w) (e_marshal v) reliable clk t n addrs (en_accounting (ft_node F n)) ho =
      Some ((None, out), ho')" and x: "SendReliable addr data \<in> set out"
  shows "fleet_inv fresh (F\<lparr>ft_up := removeAll n (ft_up F), ft_net := ft_net F @ [SendReliable addr data]\<rparr>)"
proof (rule shrink_inv [OF inv])
  note pk = Evacuate_packet [OF fleet_invD(3) [OF inv n] ev x]
  show "netOk w (e_xx v) (justified v fresh F) (ft_net F @ [SendReliable addr data])" using pk(2) fleet_invD(2) [OF inv] by simp
  show "(\<Sum>m \<in> set (removeAll n (ft_up F)). hitsOf (ft_node F m) h) + netHits w (ft_net F @ [SendReliable addr data]) h
      \<le> fleetHits storedA w F h" for h
    using pk(1) [of h] sum.remove [of "set (ft_up F)" n "\<lambda>m. hitsOf (ft_node F m) h"] n by (simp add: fleetHits_def)
qed auto

lemma empty_engine:
  assumes "emptyEngine storedA storedB e"
  shows "engineOk storedA e e" and "listOk storedB xx J (en_blocklist e)" and "hitsOf e h = 0"
  using assms by (auto simp: emptyEngine_def engineOk_def ac_wf_def canonical_keys_def listOk_def nodeHits_def cacheHits_def counter_def split: option.split)

lemma join_inv:
  assumes inv: "fleet_inv fresh F" and n: "n \<notin> set (ft_up F)" and new: "emptyEngine storedA storedB (fresh n)"
  shows "fleet_inv fresh (F\<lparr>ft_up := n # ft_up F, ft_node := (ft_node F)(n := fresh n)\<rparr>)" (is "fleet_inv fresh ?F")
proof -
  have "(\<Sum>m \<in> set (ft_up F). hitsOf (((ft_node F)(n := fresh n)) m) h) = (\<Sum>m \<in> set (ft_up F). hitsOf (ft_node F m) h)" for h
    using n by (intro sum.cong) auto
  then have "fleetHits storedA w ?F h = fleetHits storedA w F h" for h
    using n empty_engine(3) [OF new, of h] by (simp add: fleetHits_def)
  then show ?thesis
    using n inv empty_engine(1,2) [OF new] by (auto simp: fleet_inv_def)
qed

lemma step_inv:
  assumes "fleet_step v w fresh F F'" and "fleet_inv fresh F" and "\<And>n. emptyEngine storedA storedB (fresh n)"
  shows "fleet_inv fresh F'"
  using assms
proof (cases rule: fleet_step.cases)
  case (Load n t ip path hs enabled r e out)
  then show ?thesis using account_inv [OF assms(2) Load(2) op_BulkLoad [OF Load(3)]] by simp
next
  case (Sync m n t t' t0 d d' mg out)
  then show ?thesis using put_same [OF assms(2) Sync(2) op_sync [OF Sync(4) fleet_invD(4) [OF assms(2) Sync(3)]]] by simp
qed (use assms(2,3) in \<open>auto intro: join_inv request_inv deliver_inv drop_inv admin_inv leave_inv crash_inv
      put_same op_flush op_members op_adminUnblock\<close>)

lemma reachable_inv:
  assumes "fleet_reachable v w fresh F" and "\<And>n. emptyEngine storedA storedB (fresh n)"
  shows "fleet_inv fresh F"
  using assms
proof (induction rule: fleet_reachable.induct)
  case Start
  then show ?case by (simp add: fleet_inv_def fleetHits_def)
next
  case (Next F F')
  then show ?case using step_inv by blast
qed

end

section \<open>Properties\<close>

text \<open>
  C2. No false positives, cluster-wide: whatever the network does with the packets (delay, reorder, lose),
  whatever members each node has been told, whoever joins, crashes or hands over, and even when the
  caches evict entries: if \<open>Check\<close> on any node denies a request, then an administrator has blocked its
  key, or the requests of that entity accounted in the whole cluster so far exceed the limit of its rule.
\<close>

theorem denied_only_over_limit:
  assumes env: "fleet_env v contents storedA roomA storedB roomB w"
    and fresh: "\<And>n. emptyEngine storedA storedB (fresh n)"
    and reach: "fleet_reachable v w fresh F" and n: "n \<in> set (ft_up F)"
    and parts: "requestParts req = (ip, path, hs)"
    and denied: "Check v t t' req (ft_node F n) = Some (r, e', out, go)" "rs_Code r = codes_PermissionDenied"
  shows "\<exists>k. BuildEntityKey v ip path hs (ft_node F n) = Some k \<and>
    (k \<in> set (ft_admin F) \<or>
     (\<exists>m ip' path' hs' rule ent h. resolveEntity v ip' path' hs' (fresh m) = Some (Some (rule, ent, h, k)) \<and>
        sint (Limit (rn_Rule rule)) < int (ft_hits F h)))"
proof -
  note inv = fleet_env.reachable_inv [OF env reach fresh]
  obtain k where k: "BuildEntityKey v ip path hs (ft_node F n) = Some k"
    using denied(1) by (auto simp: Check_def parts split: option.splits)
  have "blocked_until (e_bl v) t k (en_blocklist (ft_node F n)) \<noteq> None"
    using denied by (auto simp: Check_cases [OF parts k] codes_OK_def codes_PermissionDenied_def Let_def split: option.splits if_splits)
  then obtain d x where "storedB (bc_cache (en_blocklist (ft_node F n))) k = Some (d, x)"
    using otter_cache.get [OF blocklist_cache.axioms [OF engine_env.axioms(3) [OF fleet_env.axioms(1) [OF env]]]]
    by (auto simp: blocked_until_eq live_Some_iff split: option.splits)
  with fleet_env.fleet_invD(4) [OF env inv n] k show ?thesis
    by (auto simp: listOk_def blockOk_def justified_def overLimit_def)
qed

text \<open>
  C3. No hit is counted twice, cluster-wide: the counts of one entity that all the running nodes can read,
  at whatever times, add up to at most the requests accounted for it, however counters were flushed,
  moved to new owners or handed over.
\<close>

theorem counts_bounded:
  assumes env: "fleet_env v contents storedA roomA storedB roomB w"
    and fresh: "\<And>n. emptyEngine storedA storedB (fresh n)" and reach: "fleet_reachable v w fresh F"
  shows "(\<Sum>n \<in> set (ft_up F). unat (fst (Get (e_ac v) (T n) (HashToEntityKey h) (en_accounting (ft_node F n))))) \<le> ft_hits F h"
proof -
  note ac = engine_env.axioms(2) [OF fleet_env.axioms(1) [OF env]]
  have "unat (fst (Get (e_ac v) t (HashToEntityKey h) (en_accounting e))) \<le> nodeHits storedA e h" for t and e :: "('a, 'b, 'c, 'd) engine"
    unfolding accounting_cache.Get_reading [OF ac]
    by (cases "(t, counter storedA (en_accounting e) (HashToEntityKey h))" rule: live.cases) (simp_all add: reading_def nodeHits_def cacheHits_def)
  then have "(\<Sum>n \<in> set (ft_up F). unat (fst (Get (e_ac v) (T n) (HashToEntityKey h) (en_accounting (ft_node F n))))) \<le>
      (\<Sum>n \<in> set (ft_up F). nodeHits storedA (ft_node F n) h)" by (rule sum_mono)
  also have "\<dots> \<le> fleetHits storedA w F h" by (simp add: fleetHits_def)
  also have "\<dots> \<le> ft_hits F h"
    by (rule fleet_env.fleet_invD(1) [OF env fleet_env.reachable_inv [OF env reach fresh]])
  finally show ?thesis .
qed

section \<open>A cluster to run\<close>

type_synonym demo_byte = "counterBatch drlMessage + blocklistEntry list"

definition demo_fleet_env ::
  "((string \<times> accountingRuleWithName) list, nat ttl_map, string list, blocklistEntryData ttl_map, counterBatch, demo_byte) env" where
  "demo_fleet_env =
     \<lparr>e_rx = list_radix, e_ac = ttl_ops, e_rg = list_ring, e_bl = ttl_ops, e_xx = (\<lambda>_. 7), e_rnd = (\<lambda>x. x),
      e_marshal = (\<lambda>m. Some [Inl m]), e_send = (\<lambda>_ _. True), e_bcast = (\<lambda>_ _ _ _. [])\<rparr>"

definition demo_wire :: "(counterBatch, demo_byte) wire" where
  "demo_wire =
     \<lparr>w_unmarshal = (\<lambda>bs. case bs of [Inl m] \<Rightarrow> Some m | _ \<Rightarrow> None), w_marshalB = cell_enc, w_unmarshalB = cell_dec,
      w_compress = demo_compress, w_decompress = demo_decompress,
      w_marshalE = (\<lambda>es. Some [Inr es]), w_unmarshalE = (\<lambda>bs. case bs of [Inr es] \<Rightarrow> Some es | _ \<Rightarrow> None)\<rparr>"

definition demo_fresh ::
  "string \<Rightarrow> ((string \<times> accountingRuleWithName) list, nat ttl_map, string list, blocklistEntryData ttl_map) engine" where
  "demo_fresh n = demo_engine 0 (emptyAccounting n [n])"

interpretation fdemo: fleet_env demo_fleet_env map_of ttl_stored ttl_room ttl_stored ttl_room demo_wire
proof -
  have "engine_env demo_fleet_env map_of ttl_stored ttl_room ttl_stored ttl_room"
    unfolding demo_fleet_env_def
    by (simp add: engine_env_def lradix.radix_tree_axioms acttl.accounting_cache_axioms blttl.blocklist_cache_axioms)
  then show "fleet_env demo_fleet_env map_of ttl_stored ttl_room ttl_stored ttl_room demo_wire"
    by (simp add: fleet_env_def fleet_env_axioms_def demo_wire_def demo_fleet_env_def codec_def cell.dec_enc demo_compress_def)
qed

lemma demo_fresh_empty: "emptyEngine ttl_stored ttl_stored (demo_fresh n)"
  by (auto simp: emptyEngine_def demo_fresh_def ref_eval NewFlusher_def)

lemma demo_fleet_fields [simp]:
  "e_rg demo_fleet_env = list_ring" "e_ac demo_fleet_env = ttl_ops" "e_bl demo_fleet_env = ttl_ops"
  by (simp_all add: demo_fleet_env_def)

lemma demo_fleet_resolve:
  "resolveEntity demo_fleet_env ip path hs e = resolveEntity demo_env ip path hs e"
  by (simp add: resolveEntity_def demo_fleet_env_def demo_env_def cong: option.case_cong)

text \<open>One node starts and accounts one request of a rule with limit 0: the entity is blocked.\<close>

lemma demo_run:
  "\<exists>F. fleet_reachable demo_fleet_env demo_wire demo_fresh F \<and> ft_up F = [''n1''] \<and> ft_admin F = [] \<and>
     engineOk ttl_stored (demo_fresh ''n1'') (ft_node F ''n1'') \<and>
     blocked_until ttl_ops 6 k7 (en_blocklist (ft_node F ''n1'')) \<noteq> None"
proof -
  let ?e = "demo_fresh ''n1''" and ?v = "demo_fleet_env\<lparr>e_bcast := broadcastBlock (e_marshal demo_fleet_env) None\<rparr>"
  let ?rule = "\<lparr>rn_Rule = demo_rule\<lparr>Limit := 0\<rparr>, rn_Name = ''api''\<rparr>" and ?ent = "\<lparr>IP = ''10.0.0.1'', Path = ''/api'', Headers = []\<rparr>"
  let ?S = "\<lparr>ft_up = [], ft_node = demo_fresh, ft_net = [], ft_hits = (\<lambda>_. 0), ft_admin = []\<rparr>"
  let ?F = "?S\<lparr>ft_up := [''n1''], ft_node := demo_fresh(''n1'' := ?e)\<rparr>"
  have F: "fleet_reachable demo_fleet_env demo_wire demo_fresh ?F"
    using fleet_reachable.Next [OF fleet_reachable.Start fleet_step.Join [of "''n1''"]] by simp
  obtain a where inc: "Increment ttl_ops 5 k7 1 (en_accounting ?e) = (1, a)"
    by (simp add: Increment_def demo_fresh_def ref_eval)
  have res: "resolveEntity demo_fleet_env ''10.0.0.1'' ''/api/users'' [] ?e = Some (Some (?rule, ?ent, 7, k7))"
    unfolding demo_fleet_resolve demo_fresh_def by (rule demo_resolve)
  have own: "IsOwner list_ring k7 (en_accounting ?e)" unfolding demo_fresh_def demo_engine_fields by (rule demo_owner)
  have d: "Blocked (SlidingWindow_Evaluate k7 1 (rn_Rule ?rule) (rn_Name ?rule))" by (simp add: SlidingWindow_blocked)
  note r = Process_owner_eq [of ?v, simplified, unfolded Process_resolve, OF res own inc, of "SlidingWindow_Evaluate k7 1 (rn_Rule ?rule) (rn_Name ?rule)" SlidingWindow]
  obtain e out where p: "Process ?v 5 ''10.0.0.1'' ''/api/users'' [] ?e = Some (e, out)"
    and b: "en_blocklist e = Block ttl_ops 5 k7 Minute (Some ?ent) emptyBlocklist"
    using r d SlidingWindow_blocked(2) [OF d] by (simp add: demo_fresh_def WindowDuration_def demo_rule_def ToLower_def lower_char_def)
  have step: "fleet_step demo_fleet_env demo_wire demo_fresh ?F
      ((putNode ''n1'' e out ?F)\<lparr>ft_hits := countHit demo_fleet_env ''10.0.0.1'' ''/api/users'' [] ?e (\<lambda>_. 0)\<rparr>)" (is "fleet_step _ _ _ _ ?G")
    using fleet_step.Request [of "''n1''" ?F demo_fleet_env None 5 "''10.0.0.1''" "''/api/users''" "[]" e out demo_wire demo_fresh] p by simp
  have G: "fleet_reachable demo_fleet_env demo_wire demo_fresh ?G" by (rule fleet_reachable.Next [OF F step])
  from fdemo.fleet_invD(3) [OF fdemo.reachable_inv [OF G demo_fresh_empty], of "''n1''"]
  have "engineOk ttl_stored ?e e" by (simp add: putNode_def)
  moreover have "blocked_until ttl_ops 6 k7 (en_blocklist e) \<noteq> None"
    using blttl.until_Block_exact [OF emptyBlocklist_room [of "Suc 0"] emptyBlocklist_until, where t = 5 and t' = 6 and ttl = Minute and k' = k7]
    by (simp add: b Minute_def)
  ultimately show ?thesis using G by (intro exI [of _ ?G]) (simp add: putNode_def)
qed

theorem denied_only_over_limit_witness:
  "\<exists>F k r e' out go. fleet_reachable demo_fleet_env demo_wire demo_fresh F \<and> ft_admin F = [] \<and>
     Check demo_fleet_env 6 6 \<lparr>cr_Source = Some ''10.0.0.1'', cr_Http = Some \<lparr>ha_Path = ''/api/users'', ha_Host = '''', ha_Headers = []\<rparr>\<rparr>
       (ft_node F ''n1'') = Some (r, e', out, go) \<and> rs_Code r = codes_PermissionDenied \<and>
     (\<exists>m ip' path' hs' rule ent h. resolveEntity demo_fleet_env ip' path' hs' (demo_fresh m) = Some (Some (rule, ent, h, k)) \<and>
        sint (Limit (rn_Rule rule)) < int (ft_hits F h))"
proof -
  let ?req = "\<lparr>cr_Source = Some ''10.0.0.1'', cr_Http = Some \<lparr>ha_Path = ''/api/users'', ha_Host = '''', ha_Headers = []\<rparr>\<rparr>"
  obtain F where F: "fleet_reachable demo_fleet_env demo_wire demo_fresh F" "ft_up F = [''n1'']" "ft_admin F = []"
      "engineOk ttl_stored (demo_fresh ''n1'') (ft_node F ''n1'')" "blocked_until ttl_ops 6 k7 (en_blocklist (ft_node F ''n1'')) \<noteq> None"
    using demo_run by blast
  have parts: "requestParts ?req = (''10.0.0.1'', ''/api/users'', [])" by (simp add: requestParts_def)
  have "resolveEntity demo_fleet_env ''10.0.0.1'' ''/api/users'' [] (ft_node F ''n1'') =
      resolveEntity demo_fleet_env ''10.0.0.1'' ''/api/users'' [] (demo_fresh ''n1'')"
    using F(4) by (intro resolveEntity_cong) (simp_all add: engineOk_def)
  also have "\<dots> = resolveEntity demo_env ''10.0.0.1'' ''/api/users'' [] (demo_engine 0 (emptyAccounting ''n1'' [''n1'']))"
    by (simp only: demo_fleet_resolve demo_fresh_def)
  finally have k: "BuildEntityKey demo_fleet_env ''10.0.0.1'' ''/api/users'' [] (ft_node F ''n1'') = Some k7" "k7 \<noteq> ''''"
    using BuildEntityKey_resolve [of demo_fleet_env] unfolding demo_resolve by blast+
  obtain r e' out go where c: "Check demo_fleet_env 6 6 ?req (ft_node F ''n1'') = Some (r, e', out, go)" "rs_Code r = codes_PermissionDenied"
    using F(5) k(2) by (auto simp: Check_cases [OF parts k(1)] Let_def)
  have "''n1'' \<in> set (ft_up F)" using F(2) by simp
  from denied_only_over_limit [OF fdemo.fleet_env_axioms demo_fresh_empty F(1) this parts c] k(1) F(3)
  have "\<exists>m ip' path' hs' rule ent h. resolveEntity demo_fleet_env ip' path' hs' (demo_fresh m) = Some (Some (rule, ent, h, k7)) \<and>
      sint (Limit (rn_Rule rule)) < int (ft_hits F h)" by auto
  then show ?thesis using F(1,3) c by blast
qed

theorem counts_bounded_witness:
  "\<exists>F. fleet_reachable demo_fleet_env demo_wire demo_fresh F \<and> ft_up F = [''n1''] \<and>
     (\<Sum>n \<in> {''n1''}. unat (fst (Get ttl_ops 6 k7 (en_accounting (ft_node F n))))) \<le> ft_hits F 7"
proof -
  obtain F where F: "fleet_reachable demo_fleet_env demo_wire demo_fresh F" "ft_up F = [''n1'']" using demo_run by blast
  from counts_bounded [OF fdemo.fleet_env_axioms demo_fresh_empty F(1), of "\<lambda>_. 6" 7] F show ?thesis
    by (intro exI [of _ F]) (simp add: k7_def)
qed

end
