(* ===== verification/Receive.thy ===== *)
theory Receive
  imports Delegate
begin

text \<open>
  The receiving ends of a persistent channel (\<open>internal/membership/channel.go\<close>): \<open>dialerRecvLoop\<close> on the node
  that dialled, and the loop of \<open>Stream\<close> on the node that accepted. The first is one goroutine. The
  second is two: one receives from the gRPC stream into the channels \<open>msgCh\<close> and \<open>errCh\<close>, the other
  selects between these and the signal that the peer was torn down. Their interleavings are the step
  relation \<open>stream_step\<close>.
\<close>

section \<open>The dialling side\<close>

text \<open>
  Each round takes the next result of \<open>Recv\<close>, a message or an error, with the time it is handled at. The
  list may end early: the loop then still waits in \<open>Recv\<close>.
\<close>

fun dialerRecvLoop ::
  "'b bl_ops \<Rightarrow> (gotime \<times> channelMessage option) list \<Rightarrow> nat \<Rightarrow> channelManager \<Rightarrow> ('b, 'c, 'r) manager \<Rightarrow>
   (channelManager \<times> ('b, 'c, 'r) manager) \<times> 'w effect list" where
  "dialerRecvLoop bl [] p cm m = ((cm, m), [])"
| "dialerRecvLoop bl ((now, None) # rs) p cm m = ((teardownPeer (pc_addr (cm_heap cm p)) p cm, m), [])"
| "dialerRecvLoop bl ((now, Some msg) # rs) p cm m =
     (case dispatch bl now msg m of
        (m1, out) \<Rightarrow> (case dialerRecvLoop bl rs p cm m1 of (r, out') \<Rightarrow> (r, out @ out')))"

text \<open>Handling a sequence of messages, each at its time.\<close>

abbreviation dispatchAll :: "'b bl_ops \<Rightarrow> (gotime \<times> channelMessage) list \<Rightarrow> ('b, 'c, 'r) manager \<Rightarrow> ('b, 'c, 'r) manager" where
  "dispatchAll bl es m \<equiv> fold (\<lambda>(now, msg) m. fst (dispatch bl now msg m :: _ \<times> unit effect list)) es m"

lemma dispatch_manager: "fst (dispatch bl now msg m :: _ \<times> 'w effect list) = fst (dispatch bl now msg m :: _ \<times> 'v effect list)"
  by (cases msg) (simp_all add: dispatch_def handleBlockEventWithExpiresAt_def handleUnblockEvent_def)

lemma dialerRecvLoop_messages:
  "fst (dialerRecvLoop bl (map (\<lambda>(t, msg). (t, Some msg)) es @ rs) p cm m :: _ \<times> 'w effect list) =
   fst (dialerRecvLoop bl rs p cm (dispatchAll bl es m) :: _ \<times> 'w effect list)"
proof (induction es arbitrary: m)
  case (Cons e es)
  obtain t msg where e: "e = (t, msg)" by (cases e)
  obtain m1 and out :: "'w effect list" where d: "dispatch bl t msg m = (m1, out)" by fastforce
  have "fst (dispatch bl t msg m :: _ \<times> unit effect list) = m1"
    using d dispatch_manager [of bl t msg m, where 'w = unit and 'v = 'w] by simp
  then show ?case using Cons.IH [of m1] by (simp add: e d case_prod_unfold)
qed simp

section \<open>The accepting side\<close>

text \<open>
  \<open>ra_stream\<close> is what the peer has sent and this node has not yet received, \<open>ra_held\<close> a message the receiving
  goroutine is about to put into \<open>msgCh\<close> (capacity 1), \<open>ra_recvDone\<close> says that this goroutine has
  returned. \<open>ra_received\<close> and \<open>ra_log\<close> are history: what \<open>Recv\<close> returned and what was dispatched, and when.
  The signal \<open>done\<close> is closed with the peer, by \<open>teardownPeer\<close>.
\<close>

record ('b, 'c, 'r) acceptor =
  ra_stream :: "channelMessage list"
  ra_held :: "channelMessage option"
  ra_msgCh :: "channelMessage list"
  ra_errCh :: bool
  ra_recvDone :: bool
  ra_returned :: bool
  ra_cm :: channelManager
  ra_mgr :: "('b, 'c, 'r) manager"
  ra_received :: "channelMessage list"
  ra_log :: "(gotime \<times> channelMessage) list"

definition streamStart :: "channelMessage list \<Rightarrow> channelManager \<Rightarrow> ('b, 'c, 'r) manager \<Rightarrow> ('b, 'c, 'r) acceptor" where
  "streamStart msgs cm m =
     \<lparr>ra_stream = msgs, ra_held = None, ra_msgCh = [], ra_errCh = False, ra_recvDone = False, ra_returned = False,
      ra_cm = cm, ra_mgr = m, ra_received = [], ra_log = []\<rparr>"

definition streamEnd :: "nat \<Rightarrow> ('b, 'c, 'r) acceptor \<Rightarrow> ('b, 'c, 'r) acceptor" where
  "streamEnd p s = s\<lparr>ra_cm := teardownPeer (pc_addr (cm_heap (ra_cm s) p)) p (ra_cm s), ra_returned := True\<rparr>"

text \<open>
  \<open>Recv\<close>, \<open>RecvErr\<close>, \<open>PutMsg\<close>: the receiving goroutine; an error can come at any time. \<open>SelectMsg\<close>, \<open>SelectErr\<close>,
  \<open>SelectDone\<close>: the cases of the \<open>select\<close>, which takes any that is ready. \<open>Other\<close>: another goroutine of the
  channel manager.
\<close>

inductive stream_step :: "'b bl_ops \<Rightarrow> nat \<Rightarrow> ('b, 'c, 'r) acceptor \<Rightarrow> ('b, 'c, 'r) acceptor \<Rightarrow> bool" for bl p where
  Recv: "ra_stream s = msg # rest \<Longrightarrow> ra_held s = None \<Longrightarrow> \<not> ra_recvDone s \<Longrightarrow>
    stream_step bl p s (s\<lparr>ra_stream := rest, ra_held := Some msg, ra_received := ra_received s @ [msg]\<rparr>)"
| RecvErr: "ra_held s = None \<Longrightarrow> \<not> ra_recvDone s \<Longrightarrow> stream_step bl p s (s\<lparr>ra_errCh := True, ra_recvDone := True\<rparr>)"
| PutMsg: "ra_held s = Some msg \<Longrightarrow> ra_msgCh s = [] \<Longrightarrow> stream_step bl p s (s\<lparr>ra_held := None, ra_msgCh := [msg]\<rparr>)"
| SelectMsg: "\<not> ra_returned s \<Longrightarrow> ra_msgCh s = msg # rest \<Longrightarrow>
    dispatch bl now msg (ra_mgr s) = (m, out :: unit effect list) \<Longrightarrow>
    stream_step bl p s (s\<lparr>ra_msgCh := rest, ra_mgr := m, ra_log := ra_log s @ [(now, msg)]\<rparr>)"
| SelectErr: "\<not> ra_returned s \<Longrightarrow> ra_errCh s \<Longrightarrow> stream_step bl p s ((streamEnd p s)\<lparr>ra_errCh := False\<rparr>)"
| SelectDone: "\<not> ra_returned s \<Longrightarrow> pc_closed (cm_heap (ra_cm s) p) \<Longrightarrow> stream_step bl p s (streamEnd p s)"
| Other: "cm_step (ra_cm s) cm \<Longrightarrow> stream_step bl p s (s\<lparr>ra_cm := cm\<rparr>)"

inductive stream_reachable :: "'b bl_ops \<Rightarrow> nat \<Rightarrow> ('b, 'c, 'r) acceptor \<Rightarrow> ('b, 'c, 'r) acceptor \<Rightarrow> bool" for bl p s0 where
  Start: "stream_reachable bl p s0 s0"
| Next: "stream_reachable bl p s0 s \<Longrightarrow> stream_step bl p s s' \<Longrightarrow> stream_reachable bl p s0 s'"

text \<open>A channel that is closed stays closed: pointers are never reused.\<close>

lemma teardownPeer_frame [simp]:
  "cm_next (teardownPeer a q cm) = cm_next cm"
  "pc_closed (cm_heap (teardownPeer a q cm) p) \<longleftrightarrow> pc_closed (cm_heap cm p) \<or> p = q"
  by (auto simp: teardownPeer_def)

lemma registerPeer_frame:
  "p < cm_next cm \<Longrightarrow> p < cm_next (snd (registerPeer a d cm)) \<and> cm_heap (snd (registerPeer a d cm)) p = cm_heap cm p"
  by (simp add: registerPeer_def Let_def)

lemma cm_step_closed:
  assumes "cm_step cm cm'" and "p < cm_next cm"
  shows "p < cm_next cm' \<and> (pc_closed (cm_heap cm p) \<longrightarrow> pc_closed (cm_heap cm' p))"
  using assms
proof (induction rule: cm_step.induct)
  case (StepConnect addr cm0 cm outcome)
  with registerPeer_frame [of p cm addr True] show ?case
    by (auto simp: connect_def split: dialOutcome.split prod.split)
next
  case (StepAccept cm md)
  with registerPeer_frame [of p cm "extractPeerAddr md" False] show ?case
    by (auto simp: streamAccept_def Let_def split: option.split prod.split)
next
  case (StepSend q cm msg)
  then show ?case by (auto simp: Send_enqueue_def Let_def)
next
  case (StepWrite q cm ok)
  then show ?case by (cases "pc_sendCh (cm_heap cm q)") (auto simp: writeLoop_step_def Let_def)
qed (auto simp: Close_def split: option.split)

lemma streamAccept_ok:
  "streamAccept md cm0 = (Inr p, cm) \<Longrightarrow> (cm_inv cm0 \<longrightarrow> cm_inv cm) \<and> p < cm_next cm"
  using registerPeer_inv [of cm0 "extractPeerAddr md" False]
  by (auto simp: streamAccept_def Let_def registerPeer_def split: if_splits)

section \<open>The invariant\<close>

definition stream_inv ::
  "'b bl_ops \<Rightarrow> nat \<Rightarrow> channelMessage list \<Rightarrow> ('b, 'c, 'r) manager \<Rightarrow> ('b, 'c, 'r) acceptor \<Rightarrow> bool" where
  "stream_inv bl p msgs m0 s \<longleftrightarrow>
     ra_received s = map snd (ra_log s) @ ra_msgCh s @ (case ra_held s of None \<Rightarrow> [] | Some msg \<Rightarrow> [msg]) \<and>
     msgs = ra_received s @ ra_stream s \<and> length (ra_msgCh s) \<le> 1 \<and>
     (ra_recvDone s \<longrightarrow> ra_held s = None) \<and>
     ra_mgr s = dispatchAll bl (ra_log s) m0 \<and>
     cm_inv (ra_cm s) \<and> p < cm_next (ra_cm s) \<and> (ra_returned s \<longrightarrow> pc_closed (cm_heap (ra_cm s) p))"

lemma stream_step_inv: "stream_step bl p s s' \<Longrightarrow> stream_inv bl p msgs m0 s \<Longrightarrow> stream_inv bl p msgs m0 s'"
proof (induction rule: stream_step.induct)
  case (Other s cm)
  then show ?case using cm_step_closed [of "ra_cm s" cm p] cm_step_inv [of "ra_cm s" cm] unfolding stream_inv_def by simp
qed (auto simp: stream_inv_def streamEnd_def teardownPeer_inv)

lemma stream_reachable_inv:
  "stream_reachable bl p (streamStart msgs cm m) s \<Longrightarrow> cm_inv cm \<Longrightarrow> p < cm_next cm \<Longrightarrow> stream_inv bl p msgs m s"
proof (induction rule: stream_reachable.induct)
  case Start
  then show ?case by (simp add: stream_inv_def streamStart_def)
qed (rule stream_step_inv)

section \<open>Properties\<close>

text \<open>
  C16. On the accepting side of a channel, under every interleaving of its two goroutines and of the rest of
  the channel manager, the messages are handled in the order they were sent, each at most once, and the
  blocklist is what handling them one after the other gives. Of the messages received at most two are not
  yet handled, and at most one once the stream has reported an error. When \<open>Stream\<close> returns, the peer has been torn down.
\<close>

theorem stream_in_order:
  assumes cm0: "cm_reachable (NewChannelManager self port) cm0" and acc: "streamAccept md cm0 = (Inr p, cm)"
    and run: "stream_reachable bl p (streamStart msgs cm m) s"
  shows "\<exists>lost rest. msgs = map snd (ra_log s) @ lost @ rest \<and> ra_received s = map snd (ra_log s) @ lost \<and>
    length lost \<le> 2 \<and> (ra_recvDone s \<longrightarrow> length lost \<le> 1) \<and>
    ra_mgr s = dispatchAll bl (ra_log s) m \<and>
    (ra_returned s \<longrightarrow> Send_lookup (pc_addr (cm_heap (ra_cm s) p)) (ra_cm s) \<noteq> Some p)"
proof -
  have "cm_inv cm0" by (rule cm_reachable_inv [OF cm0 cm_inv_New])
  then have cm: "cm_inv cm" "p < cm_next cm" using streamAccept_ok [OF acc] by simp_all
  note inv = stream_reachable_inv [OF run cm, unfolded stream_inv_def]
  let ?lost = "ra_msgCh s @ (case ra_held s of None \<Rightarrow> [] | Some msg \<Rightarrow> [msg])"
  have "length ?lost \<le> 2" "ra_recvDone s \<longrightarrow> length ?lost \<le> 1" using inv by (auto split: option.split)
  moreover have "ra_returned s \<longrightarrow> Send_lookup (pc_addr (cm_heap (ra_cm s) p)) (ra_cm s) \<noteq> Some p"
    using inv cm_invD(2) [of "ra_cm s"] by (auto simp: Send_lookup_def)
  moreover have "msgs = map snd (ra_log s) @ ?lost @ ra_stream s" "ra_received s = map snd (ra_log s) @ ?lost" using inv by simp_all
  ultimately show ?thesis using inv by blast
qed

text \<open>The run in which \<open>select\<close> takes the error although a message is waiting.\<close>

lemma losing_run:
  obtains s where "stream_reachable bl p (streamStart [msg] cm m) s" and "ra_received s = [msg]" and "ra_recvDone s"
    and "ra_returned s" and "ra_log s = []" and "ra_mgr s = m"
    and "ra_cm s = teardownPeer (pc_addr (cm_heap cm p)) p cm"
proof -
  let ?s0 = "streamStart [msg] cm m"
  let ?s1 = "?s0\<lparr>ra_stream := [], ra_held := Some msg, ra_received := [msg]\<rparr>"
  let ?s2 = "?s1\<lparr>ra_held := None, ra_msgCh := [msg]\<rparr>"
  let ?s3 = "?s2\<lparr>ra_errCh := True, ra_recvDone := True\<rparr>"
  let ?s4 = "(streamEnd p ?s3)\<lparr>ra_errCh := False\<rparr>"
  have 1: "stream_step bl p ?s0 ?s1" using stream_step.Recv [of ?s0 msg "[]" bl p] by (simp add: streamStart_def)
  have 2: "stream_step bl p ?s1 ?s2" using stream_step.PutMsg [of ?s1 msg bl p] by (simp add: streamStart_def)
  have 3: "stream_step bl p ?s2 ?s3" using stream_step.RecvErr [of ?s2 bl p] by (simp add: streamStart_def)
  have 4: "stream_step bl p ?s3 ?s4" by (rule stream_step.SelectErr) (simp_all add: streamStart_def)
  from stream_reachable.Next [OF stream_reachable.Next [OF stream_reachable.Next [OF stream_reachable.Next [OF stream_reachable.Start 1] 2] 3] 4]
  show thesis by (rule that) (simp_all add: streamStart_def streamEnd_def)
qed

lemma demo_accept:
  "fst (streamAccept (Some [(''x-drl-node-addr'', [''10.0.0.2''])]) (NewChannelManager ''10.0.0.1'' 7956)) = Inr 0"
  "pc_addr (cm_heap (snd (streamAccept (Some [(''x-drl-node-addr'', [''10.0.0.2''])]) (NewChannelManager ''10.0.0.1'' 7956))) 0) = ''10.0.0.2''"
  by (simp_all add: streamAccept_def extractPeerAddr_def registerPeer_def NewChannelManager_def Let_def)

theorem stream_in_order_witness:
  "\<exists>s. stream_reachable ttl_ops 0 (streamStart [Ch_Unblock k7] (snd (streamAccept (Some [(''x-drl-node-addr'', [''10.0.0.2''])]) (NewChannelManager ''10.0.0.1'' 7956)))
       \<lparr>mg_Blocklist = emptyBlocklist, mg_Accounting = emptyAccounting ''n1'' [''n1'']\<rparr>) s \<and>
     ra_returned s \<and> ra_recvDone s \<and> length (ra_received s) \<le> Suc (length (ra_log s)) \<and> Send_lookup ''10.0.0.2'' (ra_cm s) \<noteq> Some 0"
proof -
  let ?init = "NewChannelManager ''10.0.0.1'' 7956" and ?md = "Some [(''x-drl-node-addr'', [''10.0.0.2''])]"
  let ?cm = "snd (streamAccept ?md ?init)" and ?m = "\<lparr>mg_Blocklist = emptyBlocklist, mg_Accounting = emptyAccounting ''n1'' [''n1'']\<rparr>"
  have acc: "streamAccept ?md ?init = (Inr 0, ?cm)" using demo_accept(1) by (simp add: prod_eq_iff)
  obtain s where s: "stream_reachable ttl_ops 0 (streamStart [Ch_Unblock k7] ?cm ?m) s" "ra_returned s" "ra_recvDone s"
      "ra_cm s = teardownPeer (pc_addr (cm_heap ?cm 0)) 0 ?cm"
    using losing_run [of ttl_ops 0 "Ch_Unblock k7" ?cm ?m] by blast
  have "pc_addr (cm_heap (ra_cm s) 0) = ''10.0.0.2''" using demo_accept(2) by (simp add: s(4) teardownPeer_def)
  with stream_in_order [OF cm_reachable.Init acc s(1)] s show ?thesis by (intro exI [of _ s]) auto
qed

text \<open>
  C38. A block event can get lost between the goroutines of the accepting side: when the peer sends an event and closes
  the stream, both \<open>msgCh\<close> and \<open>errCh\<close> can be ready, \<open>select\<close> may take the error, and \<open>Stream\<close> returns with
  the event received but never handled. On the dialling side the same event is handled.
\<close>

theorem stream_loses_last:
  "\<exists>s. stream_reachable bl p (streamStart [msg] cm m) s \<and> ra_received s = [msg] \<and> ra_returned s \<and> ra_log s = [] \<and> ra_mgr s = m \<and>
     snd (fst (dialerRecvLoop bl [(now, Some msg), (now', None)] p cm m :: _ \<times> unit effect list)) = dispatchAll bl [(now, msg)] m"
proof -
  obtain s where "stream_reachable bl p (streamStart [msg] cm m) s" "ra_received s = [msg]" "ra_returned s" "ra_log s = []" "ra_mgr s = m"
    by (rule losing_run)
  moreover have "snd (fst (dialerRecvLoop bl [(now, Some msg), (now', None)] p cm m :: _ \<times> unit effect list)) = dispatchAll bl [(now, msg)] m"
    using dialerRecvLoop_messages [of bl "[(now, msg)]" "[(now', None)]" p cm m, where 'w = unit] by simp
  ultimately show ?thesis by blast
qed

end
