(* ===== verification/Lifecycle.thy ===== *)
theory Lifecycle
  imports GrpcServer Proxy Cluster
begin

text \<open>
  Starting and stopping: the listeners of the gRPC server (\<open>grpc/server.go\<close>), the channel manager
  (\<open>membership/channel.go\<close>), the proxy (\<open>proxy/proxy.go\<close>) and the metrics endpoint (\<open>metrics/metrics.go\<close>), the
  goroutine of the flusher (\<open>accounting/flusher.go\<close>), the DNS watcher of the balancer (\<open>proxy/balancer.go\<close>), and the
  parts of the memberlist delegate that memberlist itself calls (\<open>membership/delegate.go\<close>, \<open>broadcast.go\<close>). A listener is
  what \<open>net.Listen\<close> returns; whether it succeeds is the environment's choice.
\<close>

section \<open>The flusher's goroutine\<close>

text \<open>
  \<open>fp_loops\<close> counts the goroutines in \<open>flushLoop\<close> (the wait group), \<open>fp_stopClosed\<close> says that \<open>stopCh\<close> is closed.
  Closing it again panics, which is the result \<open>None\<close> of \<open>Flusher_Stop\<close>.
\<close>

record flusherProc =
  fp_flusher :: flusher
  fp_loops :: nat
  fp_stopClosed :: bool

definition Flusher_Start :: "flusherProc \<Rightarrow> flusherProc" where
  "Flusher_Start p = p\<lparr>fp_loops := Suc (fp_loops p)\<rparr>"

text \<open>Every running loop takes the stop case and flushes once; \<open>Stop\<close> waits for all of them.\<close>

fun finalFlushes ::
  "('z drlMessage \<Rightarrow> 'w list option) \<Rightarrow> (string \<Rightarrow> 'w list \<Rightarrow> bool) \<Rightarrow> gotime list \<Rightarrow> flusher \<Rightarrow> flusher \<times> 'w effect list" where
  "finalFlushes marshal send [] f = (f, [])"
| "finalFlushes marshal send (t # ts) f =
     (case flushLoop marshal send [(t, StopCh)] f of (f1, out1) \<Rightarrow>
      case finalFlushes marshal send ts f1 of (f2, out2) \<Rightarrow> (f2, out1 @ out2))"

definition Flusher_Stop ::
  "('z drlMessage \<Rightarrow> 'w list option) \<Rightarrow> (string \<Rightarrow> 'w list \<Rightarrow> bool) \<Rightarrow> (nat \<Rightarrow> gotime) \<Rightarrow> flusherProc \<Rightarrow> (flusherProc \<times> 'w effect list) option" where
  "Flusher_Stop marshal send clk p =
     (if fp_stopClosed p then None
      else case finalFlushes marshal send (map clk [0..<fp_loops p]) (fp_flusher p) of
             (f, out) \<Rightarrow> Some (p\<lparr>fp_flusher := f, fp_loops := 0, fp_stopClosed := True\<rparr>, out))"

lemma finalFlushes_empties:
  "(\<forall>x. buffer x f = []) \<or> ts \<noteq> [] \<Longrightarrow> buffer x (fst (finalFlushes marshal send ts f)) = []"
proof (induction ts arbitrary: f)
  case (Cons t ts)
  then show ?case using flush_empties [of _ marshal send t f] by (simp add: case_prod_unfold)
qed simp

lemma finalFlushes_once: "finalFlushes marshal send [t] f = flush marshal send t f"
  by (simp add: case_prod_unfold)

text \<open>A started flusher that is stopped holds nothing any more, and a second stop panics.\<close>

theorem flusher_stop:
  assumes "\<not> fp_stopClosed p" and "0 < fp_loops p"
  shows "\<exists>p' out. Flusher_Stop marshal send clk p = Some (p', out) \<and> (\<forall>x. buffer x (fp_flusher p') = []) \<and>
    fp_loops p' = 0 \<and> Flusher_Stop marshal send clk' p' = None"
proof -
  let ?ts = "map clk [0..<fp_loops p]"
  obtain f out where f: "finalFlushes marshal send ?ts (fp_flusher p) = (f, out)" by fastforce
  have "?ts \<noteq> []" using assms(2) by simp
  with finalFlushes_empties [of "fp_flusher p" ?ts _ marshal send] f have "\<forall>x. buffer x f = []" by simp
  with f assms(1) show ?thesis by (simp add: Flusher_Stop_def)
qed

text \<open>The usual case of one loop: \<open>Stop\<close> is one flush, which is how the shutdown sequence uses it.\<close>

lemma Flusher_Stop_single:
  "Flusher_Stop marshal send clk (Flusher_Start \<lparr>fp_flusher = f, fp_loops = 0, fp_stopClosed = False\<rparr>) =
   (case flush marshal send (clk 0) f of (f', out) \<Rightarrow> Some (\<lparr>fp_flusher = f', fp_loops = 0, fp_stopClosed = True\<rparr>, out))"
  by (simp add: Flusher_Stop_def Flusher_Start_def case_prod_unfold)

section \<open>The gRPC server\<close>

datatype servePhase = Idle | Serving | Drained | Aborted

record 'l grpcServer =
  gs_address :: string
  gs_listener :: "'l option"
  gs_phase :: servePhase

definition newServer :: "string \<Rightarrow> 'l grpcServer" where
  "newServer address = \<lparr>gs_address = address, gs_listener = None, gs_phase = Idle\<rparr>"

definition Grpc_Start :: "(string \<Rightarrow> 'l option) \<Rightarrow> 'l grpcServer \<Rightarrow> bool \<times> 'l grpcServer" where
  "Grpc_Start listen s =
     (case listen (gs_address s) of
        None \<Rightarrow> (False, s)
      | Some lis \<Rightarrow> (True, s\<lparr>gs_listener := Some lis, gs_phase := Serving\<rparr>))"

definition Grpc_Addr :: "('l \<Rightarrow> 'a) \<Rightarrow> 'l grpcServer \<Rightarrow> 'a option" where
  "Grpc_Addr addr s = map_option addr (gs_listener s)"

text \<open>\<open>graceful\<close> says whether \<open>GracefulStop\<close> returns before the context expires.\<close>

definition Grpc_Stop :: "bool \<Rightarrow> 'l grpcServer \<Rightarrow> 'l grpcServer" where
  "Grpc_Stop graceful s = s\<lparr>gs_phase := (if graceful then Drained else Aborted)\<rparr>"

lemma grpc_lifecycle:
  "Grpc_Addr addr (newServer a :: 'l grpcServer) = None"
  "fst (Grpc_Start listen (newServer a)) \<longleftrightarrow> listen a \<noteq> None"
  "Grpc_Start listen (newServer a) = (True, s) \<Longrightarrow> gs_phase s = Serving \<and> Grpc_Addr addr s = map_option addr (listen a)"
  "gs_phase (Grpc_Stop graceful s) \<noteq> Serving"
  by (auto simp: Grpc_Start_def Grpc_Addr_def Grpc_Stop_def newServer_def split: option.splits)

section \<open>The channel manager's listener\<close>

definition Channel_Start :: "(string \<Rightarrow> 'l option) \<Rightarrow> channelManager \<Rightarrow> string + 'l" where
  "Channel_Start listen cm =
     (case listen (JoinHostPort (cm_localAddr cm) (dec_int (cm_port cm))) of
        None \<Rightarrow> Inl (''failed to listen on persistent channel port '' @ dec_int (cm_port cm))
      | Some lis \<Rightarrow> Inr lis)"

section \<open>The DNS watcher\<close>

text \<open>
  \<open>WatchDNS\<close>: a first lookup, then one per tick until the context is done. The list gives the answer
  at each tick; its end is the context's.
\<close>

definition WatchDNS :: "string list option \<Rightarrow> string list option list \<Rightarrow> roundRobinDirector \<Rightarrow> roundRobinDirector" where
  "WatchDNS first answers rrd = fold WatchDNS_tick answers (WatchDNS_tick first rrd)"

definition IPs :: "roundRobinDirector \<Rightarrow> string list" where
  "IPs rrd = rr_ips rrd"

lemma WatchDNS_tick_ips:
  "rr_ips (WatchDNS_tick a rrd) = (case a of Some ips \<Rightarrow> if ips = [] then rr_ips rrd else ips | None \<Rightarrow> rr_ips rrd)"
  "rr_counter (WatchDNS_tick a rrd) = rr_counter rrd"
  by (simp_all add: WatchDNS_tick_def split: option.split)

text \<open>
  The pool is always the last usable answer, so failing lookups never empty it; the watcher leaves
  the rotation alone.
\<close>

theorem watch_dns_last_answer:
  "IPs (WatchDNS a as rrd) = last (rr_ips rrd # filter (\<lambda>ips. ips \<noteq> []) (List.map_filter (\<lambda>x. x) (a # as))) \<and>
   rr_counter (WatchDNS a as rrd) = rr_counter rrd"
proof -
  have "rr_ips (fold WatchDNS_tick xs r) = last (rr_ips r # filter (\<lambda>ips. ips \<noteq> []) (List.map_filter (\<lambda>x. x) xs)) \<and>
      rr_counter (fold WatchDNS_tick xs r) = rr_counter r" for xs r
  proof (induction xs arbitrary: r)
    case (Cons x xs)
    show ?case
      using Cons.IH [of "WatchDNS_tick x r"] by (cases x) (auto simp: WatchDNS_tick_ips List.map_filter_simps)
  qed (simp add: List.map_filter_simps)
  from this [of "a # as" rrd] show ?thesis by (simp add: WatchDNS_def IPs_def)
qed

section \<open>The proxy server\<close>

text \<open>
  \<open>px_server\<close> holds what \<open>Start\<close> built, which is set before the TLS configuration is read; \<open>px_cancel\<close> is set once
  \<open>Start\<close> has made the context of the workers.
\<close>

record 'k proxyServer =
  px_cfg :: embeddedProxyConfig
  px_metrics :: bool
  px_cancel :: bool
  px_cancelled :: bool
  px_server :: "(route list \<times> 'k option) option"

definition metricsProviderOrNoOp :: "'m option \<Rightarrow> 'm \<Rightarrow> 'm" where
  "metricsProviderOrNoOp mp noop = (case mp of None \<Rightarrow> noop | Some m \<Rightarrow> m)"

definition newProxy :: "embeddedProxyConfig \<Rightarrow> bool option \<Rightarrow> 'k proxyServer" where
  "newProxy cfg metricsManager =
     \<lparr>px_cfg = cfg, px_metrics = metricsProviderOrNoOp metricsManager False, px_cancel = False, px_cancelled = False, px_server = None\<rparr>"

definition startProxy ::
  "(string \<Rightarrow> bool) \<Rightarrow> (string \<Rightarrow> (string \<times> string \<times> string) option) \<Rightarrow> (string \<Rightarrow> string \<Rightarrow> 'k option) \<Rightarrow> 'k proxyServer \<Rightarrow>
   proxyError option \<times> 'k proxyServer" where
  "startProxy discover parseURL keyPair s =
     (case Proxy_Start discover parseURL keyPair (px_cfg s) of
        Inl err \<Rightarrow>
          (Some err, s\<lparr>px_cancel := True, px_cancelled := True,
                       px_server := (case buildRouter discover parseURL (px_cfg s) of None \<Rightarrow> px_server s | Some routes \<Rightarrow> Some (routes, None))\<rparr>)
      | Inr srv \<Rightarrow> (None, s\<lparr>px_cancel := True, px_server := Some srv\<rparr>))"

text \<open>\<open>shutdown\<close> is the result of \<open>http.Server.Shutdown\<close>: whether it ended without an error.\<close>

definition stopProxy :: "bool \<Rightarrow> 'k proxyServer \<Rightarrow> bool \<times> 'k proxyServer" where
  "stopProxy shutdown s =
     (let s1 = (if px_cancel s then s\<lparr>px_cancelled := True\<rparr> else s)
      in (case px_server s of None \<Rightarrow> True | Some _ \<Rightarrow> shutdown, s1))"

text \<open>No worker outlives the server: after \<open>Stop\<close>, and after a failed \<open>Start\<close>, the workers' context is cancelled.\<close>

lemma proxy_workers_end:
  "startProxy discover parseURL keyPair s = (err, s') \<Longrightarrow>
    (err \<noteq> None \<longrightarrow> px_cancelled s') \<and> px_cancelled (snd (stopProxy shutdown s'))"
  by (auto simp: startProxy_def stopProxy_def split: sum.splits)

section \<open>The metrics endpoint\<close>

text \<open>\<open>StartServer\<close> never fails: the listener runs in a goroutine that only prints its error.\<close>

datatype metricsServer = NoServer | ServerOn string

definition StartServer :: "int \<Rightarrow> metricsServer" where
  "StartServer port = ServerOn ('':'' @ dec_int port)"

text \<open>
  The two routes of the endpoint; \<open>exposition\<close> is the answer of the Prometheus handler. Every other path is left
  to the multiplexer. \<open>ok\<close> is the result of \<open>http.Server.Close\<close>.
\<close>

definition metricsHandler :: "int \<times> string \<Rightarrow> string \<Rightarrow> (int \<times> string) option" where
  "metricsHandler exposition path =
     (if path = ''/metrics'' then Some exposition else if path = ''/health'' then Some (200, ''OK'') else None)"

definition StopServer :: "bool \<Rightarrow> metricsServer \<Rightarrow> bool" where
  "StopServer ok m = (case m of NoServer \<Rightarrow> True | ServerOn _ \<Rightarrow> ok)"

section \<open>What memberlist calls\<close>

text \<open>
  The queue of gossip broadcasts is memberlist's \<open>TransmitLimitedQueue\<close>; \<open>transmit\<close> is its \<open>GetBroadcasts\<close>. The
  delegate creates it empty and hands it out, and no code of the repository puts a \<open>blocklistBroadcast\<close> into it.
\<close>

record 'w blocklistBroadcast =
  bb_data :: "'w list"

definition Invalidates :: "'w blocklistBroadcast \<Rightarrow> 'w blocklistBroadcast \<Rightarrow> bool" where
  "Invalidates b other = False"

definition Message :: "'w blocklistBroadcast \<Rightarrow> 'w list" where
  "Message b = bb_data b"

definition GetBroadcasts :: "(int \<Rightarrow> int \<Rightarrow> 'q \<Rightarrow> 'w list list \<times> 'q) \<Rightarrow> int \<Rightarrow> int \<Rightarrow> 'q \<Rightarrow> 'w list list \<times> 'q" where
  "GetBroadcasts transmit overhead limit queue = transmit overhead limit queue"

definition NodeMeta :: "int \<Rightarrow> 'w list" where
  "NodeMeta limit = []"

definition NotifyUpdate :: "node \<Rightarrow> ('b, 'c, 'r) cluster \<Rightarrow> ('b, 'c, 'r) cluster" where
  "NotifyUpdate n c = c"

text \<open>The writer memberlist logs through takes every byte, so memberlist never sees a short write.\<close>

definition slogWriter_Write :: "string \<Rightarrow> string list \<Rightarrow> (nat \<times> bool) \<times> string list" where
  "slogWriter_Write p lines = ((length p, True), lines @ [p])"

end
