(* ===== verification/Spec2Isabelle.thy ===== *)
theory Spec2Isabelle
  imports Node Fleet Receive Lifecycle
begin

text \<open>
  Verification of DRL, a distributed rate limiter written in Go (\<open>src/internal\<close>).

  \<^bold>\<open>The program.\<close> A cluster of nodes answers Envoy's authorisation checks, or proxies HTTP itself. Each node
  keeps a blocklist, replicated to every node, and request counters, each owned by the one node the
  consistent-hash ring gives its key to. A request is denied when its entity is on the local blocklist;
  otherwise it is admitted and then accounted: the owner increments its counter and asks the rate
  limiter, which may block the entity and announce the block to the peers; any other node buffers the
  hit and the flusher sends it to the owner in a \<open>CounterBatch\<close>. Block and unblock events travel over
  persistent channels or memberlist; a joining node synchronises its blocklist with a peer; a leaving
  node hands its counters over. An administrative HTTP interface blocks, lists, unblocks and bulk-loads.

  \<^bold>\<open>Theories\<close>, in the order of their imports, with the files they model and what is shown.
  \<^item> \<open>Prelude\<close>: the Go types and the parts of its standard library the sources use (\<open>strings\<close>, \<open>strconv\<close>,
    \<open>fmt\<close>, \<open>time\<close>), Go maps as association lists, and the collection \<open>ref_eval\<close> the witnesses evaluate with.
  \<^item> \<open>Base64\<close>: the base64, hexadecimal and decimal encoders with their round trips.
  \<^item> \<open>Libs\<close>: third-party packages as records of operations with a locale of documented laws each: the otter
    cache (\<open>otter_cache\<close>), the hash ring (\<open>consistent_ring\<close>), the radix tree (\<open>radix_tree\<close>) and the
    serialisers (\<open>codec\<close>, \<open>nonempty_codec\<close>), each interpreted on an executable reference implementation.
  \<^item> \<open>Entity\<close> (\<open>model/entity.go\<close>): canonical form, hash and key; round trip of keys, independence of header
    order, and the collisions unescaped separators allow.
  \<^item> \<open>Config\<close> (\<open>config/config.go\<close>): the structs, loading with its overrides, and validation; \<open>Validate\<close> accepts
    exactly the configurations \<open>config_ok\<close> describes, and \<open>Load\<close> returns only such.
  \<^item> \<open>RateLimit\<close> (\<open>ratelimit/*.go\<close>): both limiters behind the interface of locale \<open>rate_limiter\<close>; the token
    bucket is stated for any rounding of \<open>float64\<close> that locale \<open>float_rounding\<close> admits.
  \<^item> \<open>Blocklist\<close> (\<open>cache/blocklist.go\<close>): a block holds for exactly its time; events and state merges converge
    whatever their order (locale \<open>blocklist_store\<close> is the contract, \<open>blocklist_cache\<close> the implementation).
  \<^item> \<open>AccountingCache\<close> (\<open>cache/accounting.go\<close>, \<open>cache/manager.go\<close>): counters on a heap of atomics, ownership
    and transfer. \<open>Increment\<close> refines an abstract table of fixed-window counters; a key has one owner; a
    change of membership loses no count, except that waiting counts are overwritten by a second change.
  \<^item> \<open>Messages\<close> (\<open>proto\<close>): the message types and the effects (sends, metrics) the operations return.
  \<^item> \<open>Flusher\<close> (\<open>accounting/flusher.go\<close>): what was sent plus what is buffered is what was enqueued.
  \<^item> \<open>Engine\<close> (\<open>accounting/engine.go\<close>): rule matching, entity resolution, \<open>Process\<close> and \<open>BulkLoad\<close>. The loop of
    \<open>matchRuleV2\<close> is a \<open>partial_function\<close>, proved to return with the longest matching rule.
  \<^item> \<open>Channel\<close> (\<open>membership/channel.go\<close>): the peer channels as a step relation over the goroutines' atomic
    sections; an invariant over all interleavings, and which node dials.
  \<^item> \<open>Handover\<close> (\<open>membership/handover.go\<close>): evacuation and adoption move every count once.
  \<^item> \<open>Delegate\<close> (\<open>membership/delegate.go\<close>): message handlers, event propagation, state synchronisation with
    its waiter as a step relation.
  \<^item> \<open>GrpcServer\<close> (\<open>grpc/server.go\<close>): \<open>Check\<close>, and the end-to-end statement that of a sequence of requests of one
    entity exactly the first limit + 1 within a window are admitted.
  \<^item> \<open>Cluster\<close> (\<open>membership/membership.go\<close>, \<open>event.go\<close>, \<open>encryption.go\<close>, \<open>cmd/cluster.go\<close>): discovery, joining,
    readiness, keyring, sending and leaving.
  \<^item> \<open>Proxy\<close> (\<open>proxy/*.go\<close>): routing, OIDC and rate-limit middleware, round robin, TLS and upstream set-up.
  \<^item> \<open>Auth\<close> (\<open>api/digestauth.go\<close>, \<open>api/ui_auth.go\<close>): Digest authentication, browser tokens and sessions.
  \<^item> \<open>Metrics\<close> (\<open>metrics/metrics.go\<close>): the registered metrics and the method behind each metric event; locale
    \<open>prometheus\<close> states the client library.
  \<^item> \<open>AdminApi\<close> (\<open>api/api.go\<close>, \<open>api/handlers*.go\<close>, \<open>api/ui_handlers.go\<close>): handlers, server and route guards.
  \<^item> \<open>Node\<close> (\<open>cmd/*.go\<close>, \<open>utils/network.go\<close>): start-up with every error exit, and shutdown.
  \<^item> \<open>Receive\<close> (\<open>membership/channel.go\<close>): the receive loops at both ends of a channel. The accepting end is two
    goroutines, a step relation; messages are handled in order and at most once, and the last one can be lost.
  \<^item> \<open>Lifecycle\<close>: starting and stopping of the flusher, the servers and the DNS watcher, and what memberlist calls.
  \<^item> \<open>Fleet\<close>: several nodes and the packets between them. Every operation of a node, delivery in any order and loss
    are the steps of \<open>fleet_step\<close>; each operation meets the contract \<open>node_op\<close>, proved in locale \<open>fleet_env\<close>. From its
    invariant follow two statements about the whole cluster: a request is denied only when an administrator
    blocked its key or the entity is over its limit, and no hit is counted twice.

  \<^bold>\<open>How code and model correspond.\<close> A struct is a record with the same fields, prefixed where names clash; a
  method is a definition of the same name that takes the struct last and returns it updated. The clock,
  random bytes and the answers of the network are arguments. Errors are \<open>None\<close> or a constructor of an error
  type; a Go panic or process exit is a value of its own. What an operation sends or counts is the list of
  effects it returns. Work started with \<open>go\<close> is returned as a value and run by the caller, so that theorems
  can order it (\<open>GrpcServer.serve\<close>); where the interleaving matters (\<open>Channel\<close>, \<open>Delegate\<close>, \<open>Receive\<close>, \<open>Fleet\<close>) it is a
  step relation.

  \<^bold>\<open>Hypotheses.\<close> A theorem that needs the behaviour of a package names its locale as a premise; witnesses
  discharge it with the interpretations \<open>ttl\<close>, \<open>lring\<close>, \<open>lradix\<close>, \<open>cell\<close>, \<open>lprom\<close>, \<open>exact\<close>, \<open>grid\<close> and \<open>fdemo\<close>. The predicate
  \<open>room\<close> of \<open>otter_cache\<close> says that the cache has space left: eviction under pressure loses counters and
  blocks by design. Theorems that say what a cache keeps assume room; those of \<open>Fleet\<close> hold under eviction too. Hash and
  signature functions are arbitrary.

  \<^bold>\<open>Bounds.\<close> The only fuel is in \<open>Cluster.waitForChannelsReady\<close>: its loop sleeps 50 ms a round and ends at the
  first round after 30 s, so 602 rounds suffice, which \<open>Cluster.wait_for_channels_bounded\<close> proves. Counters
  are 64-bit words and wrap; durations wrap where the code multiplies them.

  \<^bold>\<open>Not modelled.\<close> Generated code (\<open>proto/*.pb.go\<close> beyond the message types, \<open>api/docs\<close>), the embedded browser
  application and \<open>handleUIIndex\<close>, the sockets behind the listeners, signal delivery and command-line parsing, and log
  output. \<open>Close\<close> of the caches only stops goroutines of the otter package. In \<open>Fleet\<close> the operations of one node are
  atomic, and the limiter is the sliding window.
\<close>

end
